(* ===== verification/Bimap_Prelude.thy ===== *)
theory Bimap_Prelude
  imports Main "HOL-Library.Word" "HOL-Library.Char_ord" "HOL-Library.List_Lexorder"
    "HOL-Library.Product_Lexorder"
begin

text \<open>
  Shared vocabulary of the development: names for the machine integers and byte strings of the
  program, the \<open>Result\<close> combinators of Rust, the standard library's decimal rendering and
  parsing of unsigned integers, \<open>split_once\<close>, \<open>join\<close>, big-endian bytes, time as nanoseconds,
  and the generic list lemmas that several components use.
\<close>

section \<open>Names of types\<close>

type_synonym u8 = "8 word"
type_synonym u16 = "16 word"
type_synonym u32 = "32 word"
type_synonym u64 = "64 word"
type_synonym usize = "64 word"
type_synonym bytes = "u8 list"

text \<open>A Rust \<open>Result<'a, 'e>\<close> is a sum: \<open>Inl\<close> holds the error.\<close>

named_theorems result_simps \<open>unfolding of the result combinators\<close>
named_theorems string_simps \<open>evaluation of literals and of the string functions\<close>

text \<open>
  The poll of a future: \<open>Pending\<close> when it waits for input that has not arrived. A caller's timeout
  drops a pending future; what the future kept in its owner's fields stays.
\<close>

datatype 'a poll = Pending | Ready 'a

section \<open>Results\<close>

definition and_then :: "'e + 'a \<Rightarrow> ('a \<Rightarrow> 'e + 'b) \<Rightarrow> 'e + 'b" where
  "and_then r f = (case r of Inl e \<Rightarrow> Inl e | Inr x \<Rightarrow> f x)"

lemma and_then_simps [simp, result_simps]:
  "and_then (Inl e) f = Inl e"
  "and_then (Inr x) f = f x"
  by (simp_all add: and_then_def)

lemma and_then_Inr_iff: "and_then r f = Inr y \<longleftrightarrow> (\<exists>x. r = Inr x \<and> f x = Inr y)"
  by (cases r) auto

text \<open>\<open>Result::map_err\<close>.\<close>

definition map_err :: "('e \<Rightarrow> 'f) \<Rightarrow> 'e + 'a \<Rightarrow> 'f + 'a" where
  "map_err f r = (case r of Inl e \<Rightarrow> Inl (f e) | Inr x \<Rightarrow> Inr x)"

lemma map_err_simps [simp]: "map_err f (Inl e) = Inl (f e)" "map_err f (Inr x) = Inr x"
  by (simp_all add: map_err_def)

lemma map_err_Inr_iff [simp]: "map_err f r = Inr x \<longleftrightarrow> r = Inr x"
  by (cases r) simp_all

text \<open>\<open>collect\<close> into a \<open>Result\<close> of a vector: the first error wins.\<close>

primrec collect_results :: "('a \<Rightarrow> 'e + 'b) \<Rightarrow> 'a list \<Rightarrow> 'e + 'b list" where
  "collect_results f [] = Inr []"
| "collect_results f (x # xs) =
     and_then (f x) (\<lambda>y. and_then (collect_results f xs) (\<lambda>ys. Inr (y # ys)))"

lemma collect_results_Inr_iff:
  "collect_results f xs = Inr ys \<longleftrightarrow> list_all2 (\<lambda>x y. f x = Inr y) xs ys"
proof (induction xs arbitrary: ys)
  case Nil
  then show ?case by auto
next
  case (Cons x xs)
  then show ?case by (cases ys) (auto simp: and_then_Inr_iff)
qed

text \<open>
  Stateful code that may return early: a step maps the state to a result and the next state.
  \<open>try_then\<close> is the \<open>?\<close> operator followed by the rest of the body; \<open>for_each\<close> is a \<open>for\<close>
  loop whose body may return an error. The state at the point of return is kept.
\<close>

definition try_then ::
  "('e + 'a) \<times> 's \<Rightarrow> ('a \<Rightarrow> 's \<Rightarrow> ('e + 'b) \<times> 's) \<Rightarrow> ('e + 'b) \<times> 's" where
  "try_then r f = (case r of (Inl e, s) \<Rightarrow> (Inl e, s) | (Inr x, s) \<Rightarrow> f x s)"

primrec for_each ::
  "('a \<Rightarrow> 's \<Rightarrow> ('e + unit) \<times> 's) \<Rightarrow> 'a list \<Rightarrow> 's \<Rightarrow> ('e + unit) \<times> 's" where
  "for_each f [] s = (Inr (), s)"
| "for_each f (x # xs) s = try_then (f x s) (\<lambda>_. for_each f xs)"

lemma try_then_simps [simp, result_simps]:
  "try_then (Inl e, s) f = (Inl e, s)"
  "try_then (Inr x, s) f = f x s"
  by (simp_all add: try_then_def)

lemma try_then_assoc: "try_then (try_then r f) g = try_then r (\<lambda>x s. try_then (f x s) g)"
  by (auto simp: try_then_def split: prod.splits sum.splits)

lemma try_then_return [simp]: "try_then r (\<lambda>_ s. (Inr (), s)) = r"
  by (auto simp: try_then_def split: prod.splits sum.splits)

lemma try_then_for_each_Nil [simp]: "try_then r (\<lambda>_. for_each f []) = r"
  by (auto simp: try_then_def split: prod.splits sum.splits)

lemma try_then_Inr_iff:
  "try_then r f = (Inr y, s') \<longleftrightarrow> (\<exists>x s. r = (Inr x, s) \<and> f x s = (Inr y, s'))"
  by (auto simp: try_then_def split: prod.splits sum.splits)

lemma try_then_cong:
  "r = r' \<Longrightarrow> (\<And>x s. r' = (Inr x, s) \<Longrightarrow> f x s = g x s) \<Longrightarrow> try_then r f = try_then r' g"
  by (auto simp: try_then_def split: prod.splits sum.splits)

lemma snd_try_then_cases:
  assumes "P (snd r)" and "\<And>x s. r = (Inr x, s) \<Longrightarrow> P s \<Longrightarrow> P (snd (f x s))"
  shows "P (snd (try_then r f))"
proof (cases r)
  case (Pair a s)
  with assms show ?thesis by (cases a) auto
qed

lemma for_each_append: "for_each f (xs @ ys) s = try_then (for_each f xs s) (\<lambda>_. for_each f ys)"
  by (induction xs arbitrary: s) (simp_all add: try_then_assoc cong: try_then_cong)

lemma for_each_concat: "for_each f (concat xss) s = for_each (\<lambda>xs. for_each f xs) xss s"
  by (induction xss arbitrary: s) (simp_all add: for_each_append cong: try_then_cong)

lemma for_each_map: "for_each f (map g xs) s = for_each (f \<circ> g) xs s"
  by (induction xs arbitrary: s) (simp_all cong: try_then_cong)

lemma for_each_snd_inv:
  assumes "\<And>x s. x \<in> set xs \<Longrightarrow> P s \<Longrightarrow> P (snd (f x s))" and "P s"
  shows "P (snd (for_each f xs s))"
  using assms
proof (induction xs arbitrary: s)
  case Nil
  then show ?case by simp
next
  case (Cons x xs)
  have "P (snd (try_then (f x s) (\<lambda>_. for_each f xs)))"
    by (rule snd_try_then_cases) (use Cons in auto)
  then show ?case by simp
qed

lemma for_each_cong_inv:
  assumes "P s" and "\<And>x s. x \<in> set xs \<Longrightarrow> P s \<Longrightarrow> f x s = g x s"
    and "\<And>x s s'. x \<in> set xs \<Longrightarrow> P s \<Longrightarrow> g x s = (Inr (), s') \<Longrightarrow> P s'"
  shows "for_each f xs s = for_each g xs s"
  using assms
proof (induction xs arbitrary: s)
  case Nil
  then show ?case by simp
next
  case (Cons x xs)
  have "for_each f xs s1 = for_each g xs s1" if "g x s = (Inr (), s1)" for s1
  proof (rule Cons.IH)
    show "P s1" by (rule Cons.prems(3) [OF _ Cons.prems(1) that]) simp
  qed (auto intro: Cons.prems)
  with Cons.prems(1,2) show ?case by (auto intro!: try_then_cong)
qed

lemma for_each_success_inv:
  assumes "for_each f xs s = (Inr (), s')" and "P s"
    and "\<And>x s s'. x \<in> set xs \<Longrightarrow> P s \<Longrightarrow> f x s = (Inr (), s') \<Longrightarrow> P s'"
  shows "P s'"
  using assms
proof (induction xs arbitrary: s)
  case Nil
  then show ?case by simp
next
  case (Cons x xs)
  from Cons.prems(1) obtain s1 where "f x s = (Inr (), s1)" and rest: "for_each f xs s1 = (Inr (), s')"
    by (auto simp: try_then_Inr_iff)
  with Cons.prems(2) have "P s1" by (intro Cons.prems(3) [of x s s1]) simp_all
  from Cons.IH [OF rest this] show ?case using Cons.prems(3) by (meson list.set_intros(2))
qed

section \<open>Strings\<close>

text \<open>
  A Rust string is its UTF-8 bytes, one \<open>char\<close> for each. \<open>split_once\<close> cuts at the first
  occurrence of an ASCII delimiter.
\<close>

fun split_once :: "char \<Rightarrow> string \<Rightarrow> (string \<times> string) option" where
  "split_once d [] = None"
| "split_once d (c # cs) =
     (if c = d then Some ([], cs)
      else (case split_once d cs of None \<Rightarrow> None | Some (a, b) \<Rightarrow> Some (c # a, b)))"

lemma split_once_append [simp]: "d \<notin> set a \<Longrightarrow> split_once d (a @ d # b) = Some (a, b)"
  by (induction a) auto

lemma split_once_None_iff: "split_once d s = None \<longleftrightarrow> d \<notin> set s"
  by (induction s) (auto split: option.splits)

lemma split_once_SomeD: "split_once d s = Some (a, b) \<Longrightarrow> s = a @ d # b \<and> d \<notin> set a"
  by (induction s arbitrary: a) (auto split: if_splits option.splits)

text \<open>\<open>join\<close> of a vector of strings.\<close>

fun join_strings :: "string \<Rightarrow> string list \<Rightarrow> string" where
  "join_strings sep [] = []"
| "join_strings sep [s] = s"
| "join_strings sep (s # t # ss) = s @ sep @ join_strings sep (t # ss)"

text \<open>\<open>str::contains\<close>: some suffix starts with the pattern.\<close>

fun starts_with :: "string \<Rightarrow> string \<Rightarrow> bool" where
  "starts_with [] s = True"
| "starts_with (p # ps) [] = False"
| "starts_with (p # ps) (c # cs) = (p = c \<and> starts_with ps cs)"

fun contains_str :: "string \<Rightarrow> string \<Rightarrow> bool" where
  "contains_str p [] = (p = [])"
| "contains_str p (c # cs) = (starts_with p (c # cs) \<or> contains_str p cs)"

lemma starts_with_append [simp]: "starts_with p (p @ s)"
  by (induction p) auto

lemma contains_str_infix [simp]: "contains_str p (a @ p @ b)"
proof (induction a)
  case Nil
  show ?case
  proof (cases "p @ b")
    case Nil
    then show ?thesis by simp
  next
    case (Cons c cs)
    have "starts_with p (c # cs)" unfolding Cons [symmetric] by simp
    with Cons show ?thesis by simp
  qed
next
  case (Cons x a)
  then show ?case by simp
qed

lemma starts_with_iff: "starts_with p s \<longleftrightarrow> (\<exists>b. s = p @ b)"
  by (induction p s rule: starts_with.induct) auto

lemma contains_str_iff: "contains_str p s \<longleftrightarrow> (\<exists>a b. s = a @ p @ b)"
proof
  assume "contains_str p s"
  then show "\<exists>a b. s = a @ p @ b"
  proof (induction s)
    case Nil
    then show ?case by simp
  next
    case (Cons c cs)
    from Cons.prems consider b where "c # cs = p @ b" | "contains_str p cs"
      by (auto simp: starts_with_iff)
    then show ?case
    proof cases
      case 1
      then have "c # cs = [] @ p @ b" by simp
      then show ?thesis by blast
    next
      case 2
      with Cons.IH obtain a b where "cs = a @ p @ b" by blast
      then have "c # cs = (c # a) @ p @ b" by simp
      then show ?thesis by blast
    qed
  qed
qed auto

section \<open>Decimal integers\<close>

text \<open>
  The standard library's \<open>Display\<close> of an unsigned integer: no sign, no leading zero. Its
  \<open>parse\<close> on a non-empty string of ASCII digits, over \<open>nat\<close>; the caller compares with the
  largest value of the type.
\<close>

definition digit_char :: "nat \<Rightarrow> char" where
  "digit_char d = char_of (48 + d)"

definition is_ascii_digit :: "char \<Rightarrow> bool" where
  "is_ascii_digit c \<longleftrightarrow> 48 \<le> (of_char c :: nat) \<and> (of_char c :: nat) \<le> 57"

fun show_nat :: "nat \<Rightarrow> string" where
  "show_nat n = (if n < 10 then [digit_char n] else show_nat (n div 10) @ [digit_char (n mod 10)])"

declare show_nat.simps [simp del]

definition parse_digits :: "string \<Rightarrow> nat" where
  "parse_digits s = foldl (\<lambda>acc c. 10 * acc + (of_char c - 48)) 0 s"

lemma of_digit_char: "d < 10 \<Longrightarrow> of_char (digit_char d) = 48 + d"
  by (simp add: digit_char_def)

lemma is_ascii_digit_digit_char [simp]: "d < 10 \<Longrightarrow> is_ascii_digit (digit_char d)"
  by (simp add: is_ascii_digit_def of_digit_char)

lemma show_nat_nonempty [simp]: "show_nat n \<noteq> []"
  by (subst show_nat.simps) simp

lemma show_nat_digits: "list_all is_ascii_digit (show_nat n)"
proof (induction n rule: show_nat.induct)
  case (1 n)
  then show ?case by (subst show_nat.simps) auto
qed

lemma parse_digits_show_nat [simp]: "parse_digits (show_nat n) = n"
proof (induction n rule: show_nat.induct)
  case (1 n)
  show ?case
  proof (cases "n < 10")
    case True
    then show ?thesis
      by (subst show_nat.simps) (simp add: parse_digits_def of_digit_char)
  next
    case False
    with 1 have "parse_digits (show_nat (n div 10)) = n div 10" by simp
    with False show ?thesis
      by (subst show_nat.simps) (simp add: parse_digits_def of_digit_char)
  qed
qed

lemma show_nat_inject [simp]: "show_nat m = show_nat n \<longleftrightarrow> m = n"
  by (metis parse_digits_show_nat)

lemma not_in_show_nat: "\<not> is_ascii_digit c \<Longrightarrow> c \<notin> set (show_nat n)"
  using show_nat_digits [of n] by (auto simp: list_all_iff)

section \<open>Words as bytes\<close>

text \<open>\<open>u16::to_be_bytes\<close> and \<open>u16::from_be_bytes\<close>.\<close>

definition to_be_bytes :: "u16 \<Rightarrow> bytes" where
  "to_be_bytes w = [word_of_nat (unat w div 256), word_of_nat (unat w mod 256)]"

fun from_be_bytes :: "u8 \<Rightarrow> u8 \<Rightarrow> u16" where
  "from_be_bytes hi lo = word_of_nat (256 * unat hi + unat lo)"

lemma length_to_be_bytes [simp]: "length (to_be_bytes w) = 2"
  by (simp add: to_be_bytes_def)

lemma unat_u16_bound: "unat (w :: u16) < 65536"
  using unsigned_less [of w, where ?'a = nat] by simp

lemma unat_u8_bound: "unat (w :: u8) < 256"
  using unsigned_less [of w, where ?'a = nat] by simp

lemma unat_be_bytes:
  "unat (word_of_nat (unat (w :: u16) div 256) :: u8) = unat w div 256"
  "unat (word_of_nat (unat (w :: u16) mod 256) :: u8) = unat w mod 256"
  using unat_u16_bound [of w] by (simp_all add: unat_of_nat)

lemma from_to_be_bytes [simp]:
  "from_be_bytes (to_be_bytes w ! 0) (to_be_bytes w ! 1) = w"
  by (simp add: to_be_bytes_def unat_be_bytes)

definition bytes_of_string :: "string \<Rightarrow> bytes" where
  "bytes_of_string s = map of_char s"

section \<open>Time\<close>

text \<open>A \<open>std::time::Duration\<close> is its number of nanoseconds.\<close>

type_synonym duration = nat

definition from_millis :: "nat \<Rightarrow> duration" where
  "from_millis ms = ms * 1000000"

definition from_secs :: "nat \<Rightarrow> duration" where
  "from_secs s = s * 1000000000"

definition duration_max :: duration where
  "duration_max = (2 ^ 64 - 1) * 1000000000 + 999999999"

definition duration_saturating_add :: "duration \<Rightarrow> duration \<Rightarrow> duration" where
  "duration_saturating_add a b = min (a + b) duration_max"

definition u64_saturating_add :: "u64 \<Rightarrow> u64 \<Rightarrow> u64" where
  "u64_saturating_add a b =
     (if unat a + unat b < 2 ^ 64 then a + b else word_of_nat (2 ^ 64 - 1))"

lemma unat_u64_saturating_add:
  "unat (u64_saturating_add a b) = min (unat a + unat b) (2 ^ 64 - 1)"
  by (auto simp: u64_saturating_add_def unat_word_ariths unat_of_nat)

section \<open>Lists\<close>

text \<open>\<open>Iterator::position\<close>: the index of the first element with the property.\<close>

fun position :: "('a \<Rightarrow> bool) \<Rightarrow> 'a list \<Rightarrow> nat option" where
  "position p [] = None"
| "position p (x # xs) = (if p x then Some 0 else map_option Suc (position p xs))"

lemma position_None_iff: "position p xs = None \<longleftrightarrow> (\<forall>x \<in> set xs. \<not> p x)"
  by (induction xs) auto

lemma position_Some_iff:
  "position p xs = Some i \<longleftrightarrow> i < length xs \<and> p (xs ! i) \<and> (\<forall>x \<in> set (take i xs). \<not> p x)"
proof (induction xs arbitrary: i)
  case Nil
  then show ?case by simp
next
  case (Cons x xs)
  then show ?case by (cases i) auto
qed

lemma position_append_hit: "(\<forall>x \<in> set a. \<not> p x) \<Longrightarrow> p y \<Longrightarrow> position p (a @ y # b) = Some (length a)"
  by (induction a) auto

lemma first_occurrence_unique:
  "a @ x # b = a' @ x # b' \<Longrightarrow> x \<notin> set a \<Longrightarrow> x \<notin> set a' \<Longrightarrow> a = a' \<and> b = b'"
proof (induction a arbitrary: a')
  case Nil
  then show ?case by (cases a') auto
next
  case (Cons y ys)
  then show ?case by (cases a') auto
qed

lemma length_before_first: "a @ b = a' @ x # b' \<Longrightarrow> x \<notin> set a \<Longrightarrow> length a \<le> length a'"
proof (induction a' arbitrary: a)
  case Nil
  then show ?case by (cases a) auto
next
  case (Cons y ys)
  then show ?case by (cases a) auto
qed

lemma sum_list_lengths_concat: "length (concat xss) = sum_list (map length xss)"
  by (induction xss) auto

lemma last_snoc_cases: "(xs = [] \<Longrightarrow> P) \<Longrightarrow> (\<And>ys y. xs = ys @ [y] \<Longrightarrow> P) \<Longrightarrow> P"
  by (cases xs rule: rev_cases) auto

lemma map_enumerate_index: "map (\<lambda>(i, x). f i) (enumerate n xs) = map f [n..<n + length xs]"
  using map_map [of f fst "enumerate n xs"] by (simp add: comp_def case_prod_beta')

lemma map_enumerate_elem: "map (\<lambda>(i, x). f x) (enumerate n xs) = map f xs"
  using map_map [of f snd "enumerate n xs"] by (simp add: comp_def case_prod_beta')

lemma find_append: "find P (xs @ ys) = (case find P xs of Some x \<Rightarrow> Some x | None \<Rightarrow> find P ys)"
  by (induction xs) auto

section \<open>Ports\<close>

text \<open>A port range as the command line gives it: transport, first and last port.\<close>

type_synonym port_spec = "string \<times> u16 \<times> u16"

text \<open>\<open>u16::checked_add(1)\<close>, and the ports from \<open>s\<close> to \<open>e\<close>, both included.\<close>

definition checked_succ :: "u16 \<Rightarrow> u16 option" where
  "checked_succ p = (if unat p + 1 < 2 ^ 16 then Some (p + 1) else None)"

definition port_span :: "u16 \<Rightarrow> u16 \<Rightarrow> u16 list" where
  "port_span s e = map word_of_nat [unat s..<Suc (unat e)]"

lemma unat_of_nat_self: "word_of_nat (unat (w :: 'a::len word)) = w"
  by simp

lemma unat_of_nat_u16: "n < 65536 \<Longrightarrow> unat (word_of_nat n :: u16) = n"
  by (simp add: unat_of_nat)

lemma checked_succ_Some_iff: "checked_succ p = Some q \<longleftrightarrow> unat q = unat p + 1"
  using unat_u16_bound [of q]
  by (auto simp: checked_succ_def unat_word_ariths word_unat_eq_iff)

lemma checked_succ_None_iff: "checked_succ p = None \<longleftrightarrow> unat p = 65535"
  using unat_u16_bound [of p] by (auto simp: checked_succ_def)

lemma port_span_single [simp]: "port_span p p = [p]"
  by (simp add: port_span_def)

lemma port_span_snoc:
  "unat s \<le> unat e \<Longrightarrow> checked_succ e = Some q \<Longrightarrow> port_span s q = port_span s e @ [q]"
proof -
  assume le: "unat s \<le> unat e" and q: "checked_succ e = Some q"
  then have "unat q = Suc (unat e)" by (simp add: checked_succ_Some_iff)
  moreover from this have "word_of_nat (Suc (unat e)) = q" by (metis unat_of_nat_self)
  ultimately show ?thesis using le by (simp add: port_span_def)
qed

lemma length_port_span: "length (port_span s e) = Suc (unat e) - unat s"
  by (simp add: port_span_def del: upt_Suc)

lemma set_port_span: "p \<in> set (port_span s e) \<longleftrightarrow> s \<le> p \<and> p \<le> e"
proof
  assume "p \<in> set (port_span s e)"
  then obtain n where "unat s \<le> n" "n \<le> unat e" "p = word_of_nat n"
    by (auto simp: port_span_def simp del: upt_Suc)
  moreover from this unat_u16_bound [of e] have "unat p = n" by (simp add: unat_of_nat)
  ultimately show "s \<le> p \<and> p \<le> e" by (simp add: word_le_nat_alt)
next
  assume "s \<le> p \<and> p \<le> e"
  then have "unat p \<in> {unat s..<Suc (unat e)}" by (simp add: word_le_nat_alt)
  moreover have "word_of_nat (unat p) = p" by simp
  ultimately show "p \<in> set (port_span s e)"
    by (metis port_span_def image_eqI list.set_map set_upt)
qed

lemma distinct_port_span: "distinct (port_span s e)"
proof -
  have "inj_on (word_of_nat :: nat \<Rightarrow> u16) {unat s..<Suc (unat e)}"
  proof (rule inj_onI)
    fix x y
    assume x: "x \<in> {unat s..<Suc (unat e)}" and y: "y \<in> {unat s..<Suc (unat e)}"
      and eq: "(word_of_nat x :: u16) = word_of_nat y"
    from x y unat_u16_bound [of e] have "x < 65536" "y < 65536" by auto
    from unat_of_nat_u16 [OF this(1)] unat_of_nat_u16 [OF this(2)] eq show "x = y" by metis
  qed
  then show ?thesis by (simp add: port_span_def distinct_map del: upt_Suc)
qed

lemma sorted_port_span: "sorted_wrt (<) (port_span s e)"
proof -
  have "(word_of_nat x :: u16) < word_of_nat y" if "y \<le> unat e" "x < y" for x y
    using that unat_u16_bound [of e] by (simp add: word_less_nat_alt unat_of_nat_u16)
  then have "sorted_wrt (\<lambda>x y. (word_of_nat x :: u16) < word_of_nat y) [unat s..<Suc (unat e)]"
    by (intro sorted_wrt_mono_rel [OF _ sorted_wrt_upt]) auto
  then show ?thesis by (simp add: port_span_def sorted_wrt_map del: upt_Suc)
qed

end
