(* ===== verification/Control_Msg.thy ===== *)
theory Control_Msg
  imports Bimap_Prelude "HOL-Library.Monad_Syntax"
begin

text \<open>
  The messages of the control protocol and their JSON form (\<open>src/control/msg.rs\<close>), as the serde
  attributes of the source prescribe it: an internally tagged enum (\<open>tag = "type"\<close>) with
  snake-case variant names, \<open>skip_serializing_if\<close> on some optional fields, unknown fields
  tolerated, missing optional fields read as \<open>None\<close>. JSON is modelled as a value; its text form
  (serde_json) is a parameter of the channel model in \<open>Control_Channel\<close>.
\<close>

section \<open>Messages\<close>

definition PROTOCOL_VERSION :: u32 where
  "PROTOCOL_VERSION = 3"

record transfer_report =
  report_bytes :: u64

record test_summary =
  summary_passed :: u32
  summary_failed :: u32
  summary_errors :: u32

text \<open>
  The arguments are the fields of each variant in their order: \<open>Hello version fingerprint\<close>,
  \<open>Configure target timeout_ms client_version parallel\<close>, \<open>Ack ok message\<close>,
  \<open>Test id protocol transport port direction\<close>, \<open>Report id sent received error\<close>,
  \<open>Bye summary\<close>.
\<close>

datatype message =
    Hello u32 string
  | Configure "string option" u64 u32 usize
  | Ack bool "string option"
  | Test u32 string string u16 string
  | BatchEnd
  | Report u32 "transfer_report option" "transfer_report option" "string option"
  | Done
  | Bye test_summary

section \<open>JSON values\<close>

text \<open>
  An object is a finite map from keys to values. \<open>JReal\<close> is a number with a fraction or an
  exponent, kept as its text; no field of a message accepts one.
\<close>

datatype json =
    JNull
  | JBool bool
  | JNum int
  | JReal string
  | JStr string
  | JArr "json list"
  | JObj "string \<Rightarrow> json option"

type_synonym json_object = "string \<Rightarrow> json option"

section \<open>Serialization\<close>

definition word_to_json :: "'a::len word \<Rightarrow> json" where
  "word_to_json w = JNum (uint w)"

definition transfer_report_to_json :: "transfer_report \<Rightarrow> json" where
  "transfer_report_to_json r = JObj [''bytes'' \<mapsto> word_to_json (report_bytes r)]"

definition test_summary_to_json :: "test_summary \<Rightarrow> json" where
  "test_summary_to_json s = JObj
     [''passed'' \<mapsto> word_to_json (summary_passed s),
      ''failed'' \<mapsto> word_to_json (summary_failed s),
      ''errors'' \<mapsto> word_to_json (summary_errors s)]"

text \<open>An \<open>Option\<close> field: \<open>null\<close> when \<open>None\<close>.\<close>

definition option_to_json :: "('a \<Rightarrow> json) \<Rightarrow> 'a option \<Rightarrow> json" where
  "option_to_json f v = (case v of None \<Rightarrow> JNull | Some x \<Rightarrow> f x)"

text \<open>An \<open>Option\<close> field with \<open>skip_serializing_if = "Option::is_none"\<close>: absent when \<open>None\<close>.\<close>

definition put_some :: "string \<Rightarrow> ('a \<Rightarrow> json) \<Rightarrow> 'a option \<Rightarrow> json_object \<Rightarrow> json_object" where
  "put_some k f v m = (case v of None \<Rightarrow> m | Some x \<Rightarrow> m(k \<mapsto> f x))"

fun message_to_json :: "message \<Rightarrow> json_object" where
  "message_to_json (Hello version fingerprint) =
     [''type'' \<mapsto> JStr ''hello'', ''version'' \<mapsto> word_to_json version,
      ''fingerprint'' \<mapsto> JStr fingerprint]"
| "message_to_json (Configure target timeout_ms client_version parallel) =
     put_some ''target'' JStr target
       [''type'' \<mapsto> JStr ''configure'', ''timeout_ms'' \<mapsto> word_to_json timeout_ms,
        ''client_version'' \<mapsto> word_to_json client_version, ''parallel'' \<mapsto> word_to_json parallel]"
| "message_to_json (Ack ok msg) =
     put_some ''message'' JStr msg [''type'' \<mapsto> JStr ''ack'', ''ok'' \<mapsto> JBool ok]"
| "message_to_json (Test tid protocol transport port direction) =
     [''type'' \<mapsto> JStr ''test'', ''id'' \<mapsto> word_to_json tid, ''protocol'' \<mapsto> JStr protocol,
      ''transport'' \<mapsto> JStr transport, ''port'' \<mapsto> word_to_json port,
      ''direction'' \<mapsto> JStr direction]"
| "message_to_json BatchEnd = [''type'' \<mapsto> JStr ''batch_end'']"
| "message_to_json (Report tid sent received err) =
     put_some ''error'' JStr err
       [''type'' \<mapsto> JStr ''report'', ''id'' \<mapsto> word_to_json tid,
        ''sent'' \<mapsto> option_to_json transfer_report_to_json sent,
        ''received'' \<mapsto> option_to_json transfer_report_to_json received]"
| "message_to_json Done = [''type'' \<mapsto> JStr ''done'']"
| "message_to_json (Bye summary) =
     [''type'' \<mapsto> JStr ''bye'', ''summary'' \<mapsto> test_summary_to_json summary]"

section \<open>Deserialization\<close>

fun json_word :: "json \<Rightarrow> 'a::len word option" where
  "json_word (JNum i) = (if 0 \<le> i \<and> i < 2 ^ LENGTH('a) then Some (word_of_int i) else None)"
| "json_word _ = None"

fun json_string :: "json \<Rightarrow> string option" where
  "json_string (JStr s) = Some s"
| "json_string _ = None"

fun json_bool :: "json \<Rightarrow> bool option" where
  "json_bool (JBool b) = Some b"
| "json_bool _ = None"

text \<open>A required field, and an \<open>Option\<close> field: absent and \<open>null\<close> both read as \<open>None\<close>.\<close>

definition field :: "(json \<Rightarrow> 'a option) \<Rightarrow> string \<Rightarrow> json_object \<Rightarrow> 'a option" where
  "field f k m = Option.bind (m k) f"

definition optional_field ::
  "(json \<Rightarrow> 'a option) \<Rightarrow> string \<Rightarrow> json_object \<Rightarrow> 'a option option" where
  "optional_field f k m =
     (case m k of
        None \<Rightarrow> Some None
      | Some JNull \<Rightarrow> Some None
      | Some j \<Rightarrow> map_option Some (f j))"

fun json_transfer_report :: "json \<Rightarrow> transfer_report option" where
  "json_transfer_report (JObj m) =
     do { b \<leftarrow> field json_word ''bytes'' m; Some \<lparr>report_bytes = b\<rparr> }"
| "json_transfer_report _ = None"

fun json_test_summary :: "json \<Rightarrow> test_summary option" where
  "json_test_summary (JObj m) =
     do {
       p \<leftarrow> field json_word ''passed'' m;
       f \<leftarrow> field json_word ''failed'' m;
       e \<leftarrow> field json_word ''errors'' m;
       Some \<lparr>summary_passed = p, summary_failed = f, summary_errors = e\<rparr>
     }"
| "json_test_summary _ = None"

text \<open>
  Reading a message from an object: the variant is named by the \<open>type\<close> field. Fields no variant
  knows are ignored.
\<close>

definition message_from_json :: "json_object \<Rightarrow> message option" where
  "message_from_json m =
     do {
       tag \<leftarrow> field json_string ''type'' m;
       if tag = ''hello'' then do {
         version \<leftarrow> field json_word ''version'' m;
         fingerprint \<leftarrow> field json_string ''fingerprint'' m;
         Some (Hello version fingerprint)
       } else if tag = ''configure'' then do {
         target \<leftarrow> optional_field json_string ''target'' m;
         timeout_ms \<leftarrow> field json_word ''timeout_ms'' m;
         client_version \<leftarrow> field json_word ''client_version'' m;
         parallel \<leftarrow> field json_word ''parallel'' m;
         Some (Configure target timeout_ms client_version parallel)
       } else if tag = ''ack'' then do {
         ok \<leftarrow> field json_bool ''ok'' m;
         msg \<leftarrow> optional_field json_string ''message'' m;
         Some (Ack ok msg)
       } else if tag = ''test'' then do {
         tid \<leftarrow> field json_word ''id'' m;
         protocol \<leftarrow> field json_string ''protocol'' m;
         transport \<leftarrow> field json_string ''transport'' m;
         port \<leftarrow> field json_word ''port'' m;
         direction \<leftarrow> field json_string ''direction'' m;
         Some (Test tid protocol transport port direction)
       } else if tag = ''batch_end'' then Some BatchEnd
       else if tag = ''report'' then do {
         tid \<leftarrow> field json_word ''id'' m;
         sent \<leftarrow> optional_field json_transfer_report ''sent'' m;
         received \<leftarrow> optional_field json_transfer_report ''received'' m;
         err \<leftarrow> optional_field json_string ''error'' m;
         Some (Report tid sent received err)
       } else if tag = ''done'' then Some Done
       else if tag = ''bye'' then do {
         summary \<leftarrow> field json_test_summary ''summary'' m;
         Some (Bye summary)
       } else None
     }"

section \<open>Lemmas\<close>

lemma json_word_word_to_json [simp]: "json_word (word_to_json w) = Some w"
  by (simp add: word_to_json_def)

lemma json_transfer_report_to_json [simp]:
  "json_transfer_report (transfer_report_to_json r) = Some r"
  by (simp add: transfer_report_to_json_def field_def)

lemma json_test_summary_to_json [simp]: "json_test_summary (test_summary_to_json s) = Some s"
  by (simp add: test_summary_to_json_def field_def)

lemma transfer_report_to_json_not_null [simp]: "transfer_report_to_json r \<noteq> JNull"
  by (simp add: transfer_report_to_json_def)

lemma optional_field_present:
  "m k = Some j \<Longrightarrow> j \<noteq> JNull \<Longrightarrow> optional_field f k m = map_option Some (f j)"
  by (cases j) (simp_all add: optional_field_def)

lemma optional_field_absent: "m k = None \<Longrightarrow> optional_field f k m = Some None"
  by (simp add: optional_field_def)

lemma optional_field_null: "m k = Some JNull \<Longrightarrow> optional_field f k m = Some None"
  by (simp add: optional_field_def)

lemma optional_field_option_to_json:
  "(\<And>x. f (g x) = Some x) \<Longrightarrow> (\<And>x. g x \<noteq> JNull) \<Longrightarrow> m k = Some (option_to_json g v) \<Longrightarrow>
   optional_field f k m = Some v"
  by (cases v) (simp_all add: option_to_json_def optional_field_null optional_field_present)

lemma optional_field_put_some [simp]:
  "m k = None \<Longrightarrow> (\<And>x. f (g x) = Some x) \<Longrightarrow> (\<And>x. g x \<noteq> JNull) \<Longrightarrow>
   optional_field f k (put_some k g v m) = Some v"
  by (cases v) (simp_all add: put_some_def optional_field_absent optional_field_present)

lemma field_put_some_other [simp]: "k \<noteq> k' \<Longrightarrow> field f k (put_some k' g v m) = field f k m"
  by (simp add: field_def put_some_def split: option.splits)

lemma optional_field_put_some_other [simp]:
  "k \<noteq> k' \<Longrightarrow> optional_field f k (put_some k' g v m) = optional_field f k m"
  by (simp add: optional_field_def put_some_def split: option.splits)

lemma field_upd_other [simp]: "k \<noteq> k' \<Longrightarrow> field f k (m(k' := v)) = field f k m"
  by (simp add: field_def)

lemma field_upd_same [simp]: "field f k (m(k := v)) = Option.bind v f"
  by (simp add: field_def)

lemma optional_field_upd_other [simp]:
  "k \<noteq> k' \<Longrightarrow> optional_field f k (m(k' := v)) = optional_field f k m"
  by (simp add: optional_field_def)

lemmas field_simps_of_objects = field_put_some_other optional_field_put_some_other
  field_upd_other field_upd_same optional_field_upd_other

lemma message_json_round_trip: "message_from_json (message_to_json m) = Some m"
proof (cases m)
  case (Report tid sent received err)
  have s: "optional_field json_transfer_report ''sent''
      (message_to_json (Report tid sent received err)) = Some sent"
    by (rule optional_field_option_to_json [where g = transfer_report_to_json])
       (simp_all add: put_some_def split: option.splits)
  have r: "optional_field json_transfer_report ''received''
      (message_to_json (Report tid sent received err)) = Some received"
    by (rule optional_field_option_to_json [where g = transfer_report_to_json])
       (simp_all add: put_some_def split: option.splits)
  from Report s r show ?thesis
    by (simp add: message_from_json_def)
qed (simp_all add: message_from_json_def)

text \<open>The fields of each variant, and those that are not of an \<open>Option\<close> type.\<close>

fun variant_fields :: "message \<Rightarrow> string list" where
  "variant_fields (Hello _ _) = [''version'', ''fingerprint'']"
| "variant_fields (Configure _ _ _ _) = [''target'', ''timeout_ms'', ''client_version'', ''parallel'']"
| "variant_fields (Ack _ _) = [''ok'', ''message'']"
| "variant_fields (Test _ _ _ _ _) = [''id'', ''protocol'', ''transport'', ''port'', ''direction'']"
| "variant_fields BatchEnd = []"
| "variant_fields (Report _ _ _ _) = [''id'', ''sent'', ''received'', ''error'']"
| "variant_fields Done = []"
| "variant_fields (Bye _) = [''summary'']"

fun required_fields :: "message \<Rightarrow> string list" where
  "required_fields (Hello _ _) = [''version'', ''fingerprint'']"
| "required_fields (Configure _ _ _ _) = [''timeout_ms'', ''client_version'', ''parallel'']"
| "required_fields (Ack _ _) = [''ok'']"
| "required_fields (Test _ _ _ _ _) = [''id'', ''protocol'', ''transport'', ''port'', ''direction'']"
| "required_fields BatchEnd = []"
| "required_fields (Report _ _ _ _) = [''id'']"
| "required_fields Done = []"
| "required_fields (Bye _) = [''summary'']"

lemma field_None [simp]: "m k = None \<Longrightarrow> field f k m = None"
  by (simp add: field_def)

fun message_tag :: "message \<Rightarrow> string" where
  "message_tag (Hello _ _) = ''hello''"
| "message_tag (Configure _ _ _ _) = ''configure''"
| "message_tag (Ack _ _) = ''ack''"
| "message_tag (Test _ _ _ _ _) = ''test''"
| "message_tag BatchEnd = ''batch_end''"
| "message_tag (Report _ _ _ _) = ''report''"
| "message_tag Done = ''done''"
| "message_tag (Bye _) = ''bye''"

lemma field_type_message_to_json [simp]:
  "field json_string ''type'' (message_to_json v) = Some (message_tag v)"
  by (cases v) simp_all

lemma field_cong: "m' k = m k \<Longrightarrow> field f k m' = field f k m"
  by (simp add: field_def)

lemma optional_field_cong: "m' k = m k \<Longrightarrow> optional_field f k m' = optional_field f k m"
  by (simp add: optional_field_def)

lemma message_from_json_cong:
  assumes tag: "field json_string ''type'' m = Some (message_tag v)"
    "field json_string ''type'' m' = Some (message_tag v)"
    and fields: "\<And>k. k \<in> set (variant_fields v) \<Longrightarrow> m' k = m k"
  shows "message_from_json m' = message_from_json m"
proof -
  have f: "field f k m' = field f k m" if "k \<in> set (variant_fields v)"
    for f :: "json \<Rightarrow> 'a option" and k
    using fields [OF that] by (rule field_cong)
  have o: "optional_field f k m' = optional_field f k m" if "k \<in> set (variant_fields v)"
    for f :: "json \<Rightarrow> 'a option" and k
    using fields [OF that] by (rule optional_field_cong)
  show ?thesis
    using tag by (cases v) (simp_all add: message_from_json_def f o)
qed

lemma unknown_field_ignored:
  "k \<noteq> ''type'' \<Longrightarrow> k \<notin> set (variant_fields v) \<Longrightarrow>
   message_from_json ((message_to_json v)(k \<mapsto> j)) = Some v"
  by (subst message_from_json_cong [of "message_to_json v" v]) (auto simp: message_json_round_trip)

lemma missing_required_field_rejected:
  "k \<in> set (required_fields v) \<Longrightarrow> message_from_json ((message_to_json v)(k := None)) = None"
  by (cases v) (auto simp: message_from_json_def)

lemma missing_tag_rejected: "message_from_json ((message_to_json v)(''type'' := None)) = None"
  by (simp add: message_from_json_def)


section \<open>Properties\<close>

text \<open>
  Property C32: a message survives its JSON form: reading the object that serde writes for it gives
  the message back.
\<close>

theorem msg_json_round_trip: "message_from_json (message_to_json m) = Some m"
  by (rule message_json_round_trip)

text \<open>
  The reader tolerates fields that the variant does not know, and refuses an object
  without its tag or without a required field of its variant.
\<close>

theorem msg_field_policy:
  assumes "k \<noteq> ''type''" and "k \<notin> set (variant_fields v)"
    and "r = ''type'' \<or> r \<in> set (required_fields v)"
  shows "message_from_json ((message_to_json v)(k \<mapsto> j)) = Some v \<and>
         message_from_json ((message_to_json v)(r := None)) = None"
  using assms unknown_field_ignored missing_required_field_rejected missing_tag_rejected by auto

theorem msg_field_policy_witness:
  "message_from_json ((message_to_json (Configure None 500 3 1))(''legacy'' \<mapsto> JNull)) =
     Some (Configure None 500 3 1) \<and>
   message_from_json ((message_to_json (Configure None 500 3 1))(''parallel'' := None)) = None"
  by (rule msg_field_policy) simp_all

end
