(* ===== verification/Probe_Types.thy ===== *)
theory Probe_Types
  imports Bimap_Prelude
begin

text \<open>
  The data model shared by both endpoints: layers, transports, directions and their wire names
  (\<open>src/test/mod.rs\<close>), socket addresses, the context a probe runs in, and the three possible
  results of a probe (\<open>src/orchestrator.rs\<close>).
\<close>

section \<open>Layers, transports, directions\<close>

datatype layer = L3 | L4 | L7

datatype transport = Tcp | Udp | Icmp

fun transport_as_str :: "transport \<Rightarrow> string" where
  "transport_as_str Tcp = ''tcp''"
| "transport_as_str Udp = ''udp''"
| "transport_as_str Icmp = ''icmp''"

definition transport_from_str :: "string \<Rightarrow> transport option" where
  "transport_from_str s =
     (if s = ''tcp'' then Some Tcp
      else if s = ''udp'' then Some Udp
      else if s = ''icmp'' then Some Icmp
      else None)"

datatype direction = ClientToServer | ServerToClient

fun direction_as_str :: "direction \<Rightarrow> string" where
  "direction_as_str ClientToServer = ''->''"
| "direction_as_str ServerToClient = ''<-''"

text \<open>
  \<open>parse_direction\<close> of the orchestrator; its error is \<open>unknown direction: {s}\<close>.
\<close>

definition parse_direction :: "string \<Rightarrow> string + direction" where
  "parse_direction s =
     (if s = ''->'' then Inr ClientToServer
      else if s = ''<-'' then Inr ServerToClient
      else Inl (''unknown direction: '' @ s))"

lemma transport_from_as_str [simp]: "transport_from_str (transport_as_str t) = Some t"
  by (cases t) (simp_all add: transport_from_str_def)

lemma transport_from_str_Some_iff: "transport_from_str s = Some t \<longleftrightarrow> s = transport_as_str t"
  by (cases t) (auto simp: transport_from_str_def)

lemma transport_from_str_None_iff:
  "transport_from_str s = None \<longleftrightarrow> s \<noteq> ''tcp'' \<and> s \<noteq> ''udp'' \<and> s \<noteq> ''icmp''"
  by (auto simp: transport_from_str_def)

lemma transport_as_str_inject [simp]: "transport_as_str a = transport_as_str b \<longleftrightarrow> a = b"
  by (cases a; cases b) simp_all

lemma parse_direction_as_str [simp]: "parse_direction (direction_as_str d) = Inr d"
  by (cases d) (simp_all add: parse_direction_def)

lemma parse_direction_Inr_iff: "parse_direction s = Inr d \<longleftrightarrow> s = direction_as_str d"
  by (cases d) (auto simp: parse_direction_def)

lemma direction_as_str_inject [simp]: "direction_as_str a = direction_as_str b \<longleftrightarrow> a = b"
  by (cases a; cases b) simp_all

text \<open>The direction the peer plays for a test: \<open>run_server\<close> swaps the two.\<close>

fun opposite :: "direction \<Rightarrow> direction" where
  "opposite ClientToServer = ServerToClient"
| "opposite ServerToClient = ClientToServer"

lemma opposite_opposite [simp]: "opposite (opposite d) = d"
  by (cases d) simp_all

lemma opposite_neq [simp]: "opposite d \<noteq> d"
  by (cases d) simp_all

section \<open>Addresses\<close>

datatype ip_addr = V4 "32 word" | V6 "128 word"

text \<open>\<open>std::net::SocketAddr\<close>: an IPv6 address also carries flow information and a scope.\<close>

datatype socket_addr =
    SocketV4 "32 word" u16
  | SocketV6 "128 word" u16 u32 u32

definition new_socket_addr :: "ip_addr \<Rightarrow> u16 \<Rightarrow> socket_addr" where
  "new_socket_addr ip p = (case ip of V4 a \<Rightarrow> SocketV4 a p | V6 a \<Rightarrow> SocketV6 a p 0 0)"

fun addr_ip :: "socket_addr \<Rightarrow> ip_addr" where
  "addr_ip (SocketV4 a p) = V4 a"
| "addr_ip (SocketV6 a p f s) = V6 a"

fun addr_port :: "socket_addr \<Rightarrow> u16" where
  "addr_port (SocketV4 a p) = p"
| "addr_port (SocketV6 a p f s) = p"

fun set_port :: "u16 \<Rightarrow> socket_addr \<Rightarrow> socket_addr" where
  "set_port q (SocketV4 a p) = SocketV4 a q"
| "set_port q (SocketV6 a p f s) = SocketV6 a q f s"

fun is_ipv4 :: "socket_addr \<Rightarrow> bool" where
  "is_ipv4 (SocketV4 a p) = True"
| "is_ipv4 (SocketV6 a p f s) = False"

lemma addr_port_set_port [simp]: "addr_port (set_port q a) = q"
  by (cases a) simp_all

lemma addr_ip_set_port [simp]: "addr_ip (set_port q a) = addr_ip a"
  by (cases a) simp_all

lemma set_port_set_port [simp]: "set_port q (set_port p a) = set_port q a"
  by (cases a) simp_all

lemma is_ipv4_set_port [simp]: "is_ipv4 (set_port q a) = is_ipv4 a"
  by (cases a) simp_all

section \<open>Contexts and results of probes\<close>

record test_context =
  ctx_direction :: direction
  ctx_transport :: transport
  ctx_target_addr :: socket_addr
  ctx_timeout :: duration

text \<open>
  \<open>Pass\<close> and \<open>Fail\<close> carry the bytes sent and received, \<open>Fail\<close> and \<open>Error\<close> a reason.
\<close>

datatype protocol_result =
    Pass u64 u64
  | Fail string u64 u64
  | Error string

fun is_pass :: "protocol_result \<Rightarrow> bool" where
  "is_pass (Pass s r) = True"
| "is_pass (Fail e s r) = False"
| "is_pass (Error e) = False"

fun is_fail :: "protocol_result \<Rightarrow> bool" where
  "is_fail (Pass s r) = False"
| "is_fail (Fail e s r) = True"
| "is_fail (Error e) = False"

fun is_error :: "protocol_result \<Rightarrow> bool" where
  "is_error (Pass s r) = False"
| "is_error (Fail e s r) = False"
| "is_error (Error e) = True"

text \<open>The status and the reason the reports print for a result.\<close>

fun result_status :: "protocol_result \<Rightarrow> string" where
  "result_status (Pass s r) = ''pass''"
| "result_status (Fail e s r) = ''fail''"
| "result_status (Error e) = ''error''"

fun result_reason :: "protocol_result \<Rightarrow> string" where
  "result_reason (Pass s r) = []"
| "result_reason (Fail e s r) = e"
| "result_reason (Error e) = e"

lemma result_status_simps [simp]:
  "result_status r = ''pass'' \<longleftrightarrow> is_pass r"
  "result_status r = ''fail'' \<longleftrightarrow> is_fail r"
  "result_status r = ''error'' \<longleftrightarrow> is_error r"
  by (cases r; simp)+

end
