(* ===== verification/Session_Link.thy ===== *)
theory Session_Link
  imports Control_Msg Probe_Types
begin

text \<open>
  The control connection as the orchestrator sees it: messages that will arrive, with the silences
  between them and the errors \<open>ControlChannel::recv\<close> may report, and the messages sent. That the
  byte-level channel delivers exactly the messages that were sent is shown in \<open>Control_Wire\<close>.
\<close>

datatype inbox_event = Arrives message | RecvFault string | Silence duration

text \<open>
  \<open>send_fault n\<close> is the error of the send after \<open>n\<close> successful ones. When nothing more arrives
  the connection is closed.
\<close>

record link =
  inbox :: "inbox_event list"
  outbox :: "message list"
  send_fault :: "nat \<Rightarrow> string option"
  link_peer :: "string + socket_addr"
  link_local :: "string + socket_addr"

definition link_send :: "message \<Rightarrow> link \<Rightarrow> (string + unit) \<times> link" where
  "link_send m l =
     (case send_fault l (length (outbox l)) of
        Some e \<Rightarrow> (Inl e, l)
      | None \<Rightarrow> (Inr (), l\<lparr>outbox := outbox l @ [m]\<rparr>))"

fun next_event :: "inbox_event list \<Rightarrow> (string + message) \<times> inbox_event list" where
  "next_event [] = (Inl ''connection closed'', [])"
| "next_event (Arrives m # es) = (Inr m, es)"
| "next_event (RecvFault e # es) = (Inl e, es)"
| "next_event (Silence d # es) = next_event es"

text \<open>Under \<open>tokio::time::timeout\<close>: \<open>None\<close> when the time is up, the rest of the silence remains.\<close>

fun next_event_within ::
  "duration \<Rightarrow> inbox_event list \<Rightarrow> (string + message) option \<times> inbox_event list" where
  "next_event_within t [] = (Some (Inl ''connection closed''), [])"
| "next_event_within t (Arrives m # es) = (Some (Inr m), es)"
| "next_event_within t (RecvFault e # es) = (Some (Inl e), es)"
| "next_event_within t (Silence d # es) =
     (if d \<le> t then next_event_within (t - d) es else (None, Silence (d - t) # es))"

definition link_recv :: "link \<Rightarrow> (string + message) \<times> link" where
  "link_recv l = (case next_event (inbox l) of (r, es) \<Rightarrow> (r, l\<lparr>inbox := es\<rparr>))"

definition link_recv_within :: "duration \<Rightarrow> link \<Rightarrow> (string + message) option \<times> link" where
  "link_recv_within t l = (case next_event_within t (inbox l) of (r, es) \<Rightarrow> (r, l\<lparr>inbox := es\<rparr>))"

section \<open>Texts of addresses\<close>

text \<open>
  The address texts of the standard library: \<open>parse_socket\<close> and \<open>parse_ip\<close> are
  \<open>str::parse\<close> for \<open>SocketAddr\<close> and \<open>IpAddr\<close>, \<open>show_socket\<close> is \<open>Display\<close> of a \<open>SocketAddr\<close>.
\<close>

record addr_text =
  parse_socket :: "string \<Rightarrow> socket_addr option"
  parse_ip :: "string \<Rightarrow> ip_addr option"
  show_socket :: "socket_addr \<Rightarrow> string"

text \<open>The size of a batch on both sides: \<open>parallel.max(1)\<close>.\<close>

definition at_least_one :: "usize \<Rightarrow> usize" where
  "at_least_one n = max n 1"

text \<open>All the tests a summary counts.\<close>

definition summary_total :: "test_summary \<Rightarrow> u32" where
  "summary_total s = summary_passed s + summary_failed s + summary_errors s"

section \<open>Lemmas\<close>

lemma next_event_shorter: "next_event es = (Inr m, es') \<Longrightarrow> length es' < length es"
  by (induction es arbitrary: es' rule: next_event.induct) (auto dest: less_SucI)

lemma next_event_within_shorter:
  "next_event_within t es = (Some (Inr m), es') \<Longrightarrow> length es' < length es"
  by (induction t es arbitrary: es' rule: next_event_within.induct)
     (auto split: if_splits intro: less_SucI)

lemma link_send_inbox [simp]:
  "inbox (snd (link_send m l)) = inbox l"
  "send_fault (snd (link_send m l)) = send_fault l"
  "link_peer (snd (link_send m l)) = link_peer l"
  "link_local (snd (link_send m l)) = link_local l"
  by (simp_all add: link_send_def split: option.splits)

lemma link_send_ok [simp]:
  "send_fault l = (\<lambda>_. None) \<Longrightarrow> link_send m l = (Inr (), l\<lparr>outbox := outbox l @ [m]\<rparr>)"
  by (simp add: link_send_def)

lemma link_send_outbox:
  "outbox (snd (link_send m l)) = outbox l \<or> outbox (snd (link_send m l)) = outbox l @ [m]"
  by (simp add: link_send_def split: option.splits)

lemma link_recv_outbox [simp]:
  "outbox (snd (link_recv l)) = outbox l"
  "send_fault (snd (link_recv l)) = send_fault l"
  "link_peer (snd (link_recv l)) = link_peer l"
  "link_local (snd (link_recv l)) = link_local l"
  by (simp_all add: link_recv_def split: prod.splits)

lemma link_recv_outboxD: "link_recv l = (r, l') \<Longrightarrow> outbox l' = outbox l"
  using link_recv_outbox(1) [of l] by simp

lemma link_recv_within_outbox [simp]:
  "outbox (snd (link_recv_within t l)) = outbox l"
  "send_fault (snd (link_recv_within t l)) = send_fault l"
  "link_peer (snd (link_recv_within t l)) = link_peer l"
  "link_local (snd (link_recv_within t l)) = link_local l"
  by (simp_all add: link_recv_within_def split: prod.splits)

lemma link_recv_Arrives [simp]:
  "inbox l = Arrives m # es \<Longrightarrow> link_recv l = (Inr m, l\<lparr>inbox := es\<rparr>)"
  by (simp add: link_recv_def)

lemma link_recv_within_Arrives [simp]:
  "inbox l = Arrives m # es \<Longrightarrow> link_recv_within t l = (Some (Inr m), l\<lparr>inbox := es\<rparr>)"
  by (simp add: link_recv_within_def)

lemma link_recv_shorter: "link_recv l = (Inr m, l') \<Longrightarrow> length (inbox l') < length (inbox l)"
  by (auto simp: link_recv_def dest: next_event_shorter split: prod.splits)

text \<open>The messages among what arrived, and what a receive that gave a message took.\<close>

fun arrivals :: "inbox_event list \<Rightarrow> message list" where
  "arrivals [] = []"
| "arrivals (Arrives m # es) = m # arrivals es"
| "arrivals (RecvFault e # es) = arrivals es"
| "arrivals (Silence d # es) = arrivals es"

lemma arrivals_append [simp]: "arrivals (es @ fs) = arrivals es @ arrivals fs"
  by (induction es rule: arrivals.induct) simp_all

lemma arrivals_Arrives [simp]: "arrivals (map Arrives ms) = ms"
  by (induction ms) simp_all

lemma next_event_taken:
  "next_event es = (Inr m, es') \<Longrightarrow> \<exists>heard. es = heard @ es' \<and> arrivals heard = [m]"
proof (induction es rule: next_event.induct)
  case (2 n es)
  then show ?case by (intro exI [of _ "[Arrives n]"]) simp
next
  case (4 d es)
  then obtain heard where "es = heard @ es' \<and> arrivals heard = [m]" by auto
  then show ?case by (intro exI [of _ "Silence d # heard"]) simp
qed simp_all

lemma next_event_within_taken:
  "next_event_within t es = (Some (Inr m), es') \<Longrightarrow> \<exists>heard. es = heard @ es' \<and> arrivals heard = [m]"
proof (induction t es rule: next_event_within.induct)
  case (2 t n es)
  then show ?case by (intro exI [of _ "[Arrives n]"]) simp
next
  case (4 t d es)
  then obtain heard where "es = heard @ es' \<and> arrivals heard = [m]" by (auto split: if_splits)
  then show ?case by (intro exI [of _ "Silence d # heard"]) simp
qed simp_all

lemma link_recv_taken:
  assumes "link_recv l = (Inr m, l')"
  obtains heard where "inbox l = heard @ inbox l'" and "arrivals heard = [m]"
  using assms next_event_taken [of "inbox l" m "inbox l'"]
  by (auto simp: link_recv_def split: prod.splits)

lemma link_recv_within_taken:
  assumes "link_recv_within t l = (Some (Inr m), l')"
  obtains heard where "inbox l = heard @ inbox l'" and "arrivals heard = [m]"
  using assms next_event_within_taken [of t "inbox l" m "inbox l'"]
  by (auto simp: link_recv_within_def split: prod.splits)

lemma link_recv_within_shorter:
  "link_recv_within t l = (Some (Inr m), l') \<Longrightarrow> length (inbox l') < length (inbox l)"
  by (auto simp: link_recv_within_def dest: next_event_within_shorter split: prod.splits)


section \<open>A small instance\<close>

text \<open>A healthy link with the given messages still to come.\<close>

definition demo_addr :: socket_addr where
  "demo_addr = SocketV4 0x7F000001 443"

definition demo_link :: "message list \<Rightarrow> link" where
  "demo_link ms =
     \<lparr>inbox = map Arrives ms, outbox = [], send_fault = (\<lambda>_. None), link_peer = Inr demo_addr,
      link_local = Inr demo_addr\<rparr>"

definition demo_text :: addr_text where
  "demo_text = \<lparr>parse_socket = (\<lambda>_. None), parse_ip = (\<lambda>_. None), show_socket = (\<lambda>_. ''127.0.0.1:0'')\<rparr>"

lemma demo_link_fields [simp]:
  "inbox (demo_link ms) = map Arrives ms" "outbox (demo_link ms) = []"
  "send_fault (demo_link ms) = (\<lambda>_. None)" "link_peer (demo_link ms) = Inr demo_addr"
  "link_local (demo_link ms) = Inr demo_addr"
  by (simp_all add: demo_link_def)

end
