(* ===== verification/Probe_Registry.thy ===== *)
theory Probe_Registry
  imports Probe_Types "HOL-Library.Multiset"
begin

text \<open>
  Probes behind their common interface (the trait \<open>TestProtocol\<close>), the registry that finds them
  by name (\<open>src/test/mod.rs\<close>), and \<open>run_protocol\<close>, which bounds the time a probe may take
  (\<open>src/orchestrator.rs\<close>). The type \<open>'e\<close> is what a run of a probe meets in the network and the
  operating system.
\<close>

section \<open>Protocols and their registry\<close>

record 'e test_protocol =
  proto_name :: string
  proto_layer :: layer
  proto_transports :: "transport list"
  proto_run :: "'e \<Rightarrow> test_context \<Rightarrow> protocol_result"

type_synonym 'e registry = "'e test_protocol list"

definition new_registry :: "'e registry" where
  "new_registry = []"

definition register :: "'e registry \<Rightarrow> 'e test_protocol \<Rightarrow> 'e registry" where
  "register r p = r @ [p]"

definition find_protocol :: "'e registry \<Rightarrow> string \<Rightarrow> 'e test_protocol option" where
  "find_protocol r name = find (\<lambda>p. proto_name p = name) r"

definition protocol_names :: "'e registry \<Rightarrow> string list" where
  "protocol_names r = map proto_name r"

section \<open>The interface of a table of named items\<close>

text \<open>
  The orchestrator and the main program know the registry through these operations only: a lookup
  that returns the first item registered under a name.
\<close>

locale name_table =
  fixes empty :: "'r" and insert :: "'r \<Rightarrow> 'p \<Rightarrow> 'r" and lookup :: "'r \<Rightarrow> string \<Rightarrow> 'p option"
    and names :: "'r \<Rightarrow> string list" and key :: "'p \<Rightarrow> string"
  assumes lookup_empty: "lookup empty n = None"
    and lookup_insert: "lookup (insert r p) n =
          (case lookup r n of Some q \<Rightarrow> Some q | None \<Rightarrow> if key p = n then Some p else None)"
    and names_empty: "names empty = []"
    and names_insert: "names (insert r p) = names r @ [key p]"
begin

lemma lookup_foldl:
  "lookup (foldl insert r ps) n =
     (case lookup r n of Some q \<Rightarrow> Some q | None \<Rightarrow> find (\<lambda>p. key p = n) ps)"
proof (induction ps arbitrary: r)
  case Nil
  then show ?case by (simp split: option.splits)
next
  case (Cons p ps)
  then show ?case by (auto simp: lookup_insert split: option.splits)
qed

lemma lookup_built: "lookup (foldl insert empty ps) n = find (\<lambda>p. key p = n) ps"
  by (simp add: lookup_foldl lookup_empty)

lemma names_built: "names (foldl insert empty ps) = map key ps"
proof -
  have "names (foldl insert r ps) = names r @ map key ps" for r
    by (induction ps arbitrary: r) (simp_all add: names_insert)
  then show ?thesis by (simp add: names_empty)
qed

lemma lookup_None_iff: "lookup (foldl insert empty ps) n = None \<longleftrightarrow> n \<notin> set (map key ps)"
  by (auto simp: lookup_built find_None_iff)

lemma lookup_distinct:
  assumes "distinct (map key ps)" and "p \<in> set ps"
  shows "lookup (foldl insert empty ps) (key p) = Some p"
proof -
  have "find (\<lambda>q. key q = key p) ps = Some p"
    using assms
  proof (induction ps)
    case Nil
    then show ?case by simp
  next
    case (Cons q qs)
    then show ?case by (cases "q = p") force+
  qed
  then show ?thesis by (simp add: lookup_built)
qed

lemma lookup_key: "lookup (foldl insert empty ps) n = Some p \<Longrightarrow> key p = n \<and> p \<in> set ps"
  by (auto simp: lookup_built find_Some_iff)

end

interpretation reg: name_table new_registry register find_protocol protocol_names proto_name
  by unfold_locales
     (auto simp: new_registry_def register_def find_protocol_def protocol_names_def find_append
       split: option.splits)

section \<open>Running a probe under its deadline\<close>

text \<open>
  \<open>env_time\<close> is how long the run would take if it were not cancelled. \<open>tokio::time::timeout\<close>
  polls the run before the clock, so a run that ends exactly at the deadline still counts.
\<close>

record 'e probe_env =
  env_net :: 'e
  env_time :: duration

definition run_deadline :: "test_context \<Rightarrow> duration" where
  "run_deadline ctx = duration_saturating_add (ctx_timeout ctx) (from_secs 2)"

definition run_protocol ::
  "'e test_protocol \<Rightarrow> 'e probe_env \<Rightarrow> test_context \<Rightarrow> protocol_result" where
  "run_protocol proto env ctx =
     (if env_time env \<le> run_deadline ctx then proto_run proto (env_net env) ctx
      else Fail ''timeout (test took too long)'' 0 0)"

text \<open>When the caller gets the result.\<close>

definition finish_time :: "'e probe_env \<Rightarrow> test_context \<Rightarrow> duration" where
  "finish_time env ctx = min (env_time env) (run_deadline ctx)"

text \<open>A \<open>FuturesUnordered\<close> yields the outputs of its futures in the order they finish.\<close>

definition unordered_results :: "(duration \<times> 'a) list \<Rightarrow> 'a list" where
  "unordered_results futures = map snd (sort_key fst futures)"

text \<open>
  A batch: the jobs run concurrently and their results arrive as they finish, each with the number
  of its test. The \<open>i\<close>-th probe of the batch meets \<open>env i\<close>.
\<close>

definition run_job :: "(nat \<Rightarrow> 'e probe_env) \<Rightarrow> nat \<times> u32 \<times> 'e test_protocol \<times> test_context \<Rightarrow>
    u32 \<times> protocol_result" where
  "run_job env job = (case job of (i, tid, proto, ctx) \<Rightarrow> (tid, run_protocol proto (env i) ctx))"

definition job_time :: "(nat \<Rightarrow> 'e probe_env) \<Rightarrow> nat \<times> u32 \<times> 'e test_protocol \<times> test_context \<Rightarrow>
    duration" where
  "job_time env job = (case job of (i, tid, proto, ctx) \<Rightarrow> finish_time (env i) ctx)"

definition run_concurrently ::
  "(nat \<Rightarrow> 'e probe_env) \<Rightarrow> (u32 \<times> 'e test_protocol \<times> test_context) list \<Rightarrow>
   (u32 \<times> protocol_result) list" where
  "run_concurrently env jobs =
     unordered_results (map (\<lambda>job. (job_time env job, run_job env job)) (enumerate 0 jobs))"

text \<open>
  What the probes of the session meet: the \<open>i\<close>-th probe of the batch that starts after \<open>n\<close>
  messages were sent runs in \<open>envs n i\<close>.
\<close>

type_synonym 'e session_envs = "nat \<Rightarrow> nat \<Rightarrow> 'e probe_env"

lemma mset_unordered_results: "mset (unordered_results futures) = mset (map snd futures)"
  by (simp add: unordered_results_def)

lemma mset_run_concurrently:
  "mset (run_concurrently env jobs) = mset (map (run_job env) (enumerate 0 jobs))"
  by (simp add: run_concurrently_def mset_unordered_results o_def)

lemma set_run_concurrently:
  "set (run_concurrently env jobs) = run_job env ` set (enumerate 0 jobs)"
  using arg_cong [OF mset_run_concurrently, of set_mset env jobs] by simp

lemma length_run_concurrently [simp]: "length (run_concurrently env jobs) = length jobs"
  by (simp add: run_concurrently_def unordered_results_def)

lemma map_fst_run_job: "map (fst \<circ> run_job env) (enumerate n jobs) = map fst jobs"
proof (induction jobs arbitrary: n)
  case Nil
  then show ?case by simp
next
  case (Cons j js)
  then show ?case by (cases j) (simp add: run_job_def)
qed

lemma mset_ids_run_concurrently: "mset (map fst (run_concurrently env jobs)) = mset (map fst jobs)"
proof -
  have "mset (map fst (run_concurrently env jobs)) = image_mset fst (mset (run_concurrently env jobs))"
    by simp
  also have "\<dots> = mset (map (fst \<circ> run_job env) (enumerate 0 jobs))"
    by (simp add: mset_run_concurrently image_mset.compositionality)
  finally show ?thesis by (simp only: map_fst_run_job)
qed

lemma finish_time_bound: "finish_time env ctx \<le> run_deadline ctx"
  by (simp add: finish_time_def)

lemma run_protocol_late:
  "run_deadline ctx < env_time env \<Longrightarrow>
   run_protocol proto env ctx = Fail ''timeout (test took too long)'' 0 0"
  by (simp add: run_protocol_def)


section \<open>A small instance\<close>

text \<open>A registry with one probe, which takes no time and passes.\<close>

definition demo_proto :: "unit test_protocol" where
  "demo_proto =
     \<lparr>proto_name = ''open'', proto_layer = L4, proto_transports = [Tcp, Udp],
      proto_run = (\<lambda>_ _. Pass 1 1)\<rparr>"

definition demo_registry :: "unit registry" where
  "demo_registry = [demo_proto]"

definition demo_envs :: "unit session_envs" where
  "demo_envs = (\<lambda>_ _. \<lparr>env_net = (), env_time = 0\<rparr>)"

lemma demo_simps [simp]:
  "proto_name demo_proto = ''open''" "proto_transports demo_proto = [Tcp, Udp]"
  "proto_run demo_proto e ctx = Pass 1 1"
  "find_protocol demo_registry ''open'' = Some demo_proto"
  "env_time (demo_envs n i) = 0"
  by (simp_all add: demo_proto_def demo_registry_def demo_envs_def find_protocol_def)

lemma demo_run [simp]: "run_protocol demo_proto (demo_envs n i) ctx = Pass 1 1"
  by (simp add: run_protocol_def)

section \<open>Properties\<close>

text \<open>
  A registry built by registrations answers a lookup with the first probe registered
  under the name, and lists the names in the order of registration.
\<close>

theorem registry_first_registered:
  "find_protocol (foldl register new_registry ps) n = find (\<lambda>p. proto_name p = n) ps \<and>
   protocol_names (foldl register new_registry ps) = map proto_name ps"
  by (simp only: reg.lookup_built reg.names_built simp_thms)

end
