(* ===== verification/Server.thy ===== *)
theory Server
  imports Session_Link Probe_Registry
begin

text \<open>
  One session of the server (\<open>run_server\<close> of \<open>src/orchestrator.rs\<close>): the configuration
  handshake, the reading of a batch of test requests with its checks, the concurrent run of the
  batch and the reports in the order the probes finish, until the client is done.
\<close>

section \<open>State and parameters\<close>

definition parse_configured_bind_addr :: "addr_text \<Rightarrow> string \<Rightarrow> socket_addr option" where
  "parse_configured_bind_addr A v =
     (case parse_socket A v of
        Some a \<Rightarrow> Some a
      | None \<Rightarrow> map_option (\<lambda>ip. new_socket_addr ip 0) (parse_ip A v))"

record 'e server_batch_entry =
  sb_id :: u32
  sb_proto :: "'e test_protocol"
  sb_transport :: transport
  sb_dir :: direction
  sb_target_addr :: socket_addr

record server_state =
  sv_link :: link
  sv_passed :: u32
  sv_failed :: u32
  sv_errors :: u32

section \<open>Reading a batch\<close>

definition unspecified_v6 :: socket_addr where
  "unspecified_v6 = new_socket_addr (V6 0) 0"

definition server_target_addr ::
  "socket_addr \<Rightarrow> socket_addr option \<Rightarrow> direction \<Rightarrow> u16 \<Rightarrow> socket_addr" where
  "server_target_addr client_addr test_bind_ip dir port =
     set_port port
       (if dir = ClientToServer then client_addr
        else (case test_bind_ip of Some a \<Rightarrow> a | None \<Rightarrow> unspecified_v6))"

definition accept_test ::
  "'e registry \<Rightarrow> socket_addr \<Rightarrow> socket_addr option \<Rightarrow> usize \<Rightarrow> 'e server_batch_entry list \<Rightarrow>
   u32 \<Rightarrow> string \<Rightarrow> string \<Rightarrow> u16 \<Rightarrow> string \<Rightarrow> string + 'e server_batch_entry" where
  "accept_test registry client_addr test_bind_ip parallel batch tid protocol transport port dir =
     (if length batch \<ge> unat parallel then Inl ''batch exceeds configured parallel limit''
      else (case find_protocol registry protocol of
              None \<Rightarrow> Inl (''unknown protocol: '' @ protocol)
            | Some proto \<Rightarrow>
                (case transport_from_str transport of
                   None \<Rightarrow> Inl (''unknown transport: '' @ transport)
                 | Some t \<Rightarrow>
                     and_then (parse_direction dir) (\<lambda>d.
                       Inr \<lparr>sb_id = tid, sb_proto = proto, sb_transport = t, sb_dir = opposite d,
                            sb_target_addr =
                              server_target_addr client_addr test_bind_ip (opposite d) port\<rparr>))))"

definition unexpected_message :: string where
  "unexpected_message = ''unexpected message, expected Test, BatchEnd or Done''"

text \<open>The inner loop: the batch, and whether the client said \<open>Done\<close> instead of \<open>BatchEnd\<close>.\<close>

function read_batch ::
  "'e registry \<Rightarrow> socket_addr \<Rightarrow> socket_addr option \<Rightarrow> usize \<Rightarrow> 'e server_batch_entry list \<Rightarrow> link \<Rightarrow>
   (string + 'e server_batch_entry list \<times> bool) \<times> link" where
  "read_batch registry client_addr test_bind_ip parallel batch l =
     (case link_recv l of
        (Inl e, l') \<Rightarrow> (Inl e, l')
      | (Inr (Test tid protocol transport port dir), l') \<Rightarrow>
          (case accept_test registry client_addr test_bind_ip parallel batch
                  tid protocol transport port dir of
             Inl e \<Rightarrow> (Inl e, l')
           | Inr entry \<Rightarrow>
               read_batch registry client_addr test_bind_ip parallel (batch @ [entry]) l')
      | (Inr BatchEnd, l') \<Rightarrow>
          if batch \<noteq> [] then (Inr (batch, False), l') else (Inl unexpected_message, l')
      | (Inr Done, l') \<Rightarrow> (Inr (batch, True), l')
      | (Inr _, l') \<Rightarrow> (Inl unexpected_message, l'))"
  by pat_completeness auto
termination
  by (relation "measure (\<lambda>(r, c, b, p, batch, l). length (inbox l))")
     (auto dest: link_recv_shorter [OF sym])

declare read_batch.simps [simp del]

lemma read_batch_shorter:
  "read_batch registry c b p batch l = (Inr (batch', d), l') \<Longrightarrow> length (inbox l') < length (inbox l)"
proof (induction registry c b p batch l rule: read_batch.induct)
  case (1 registry c b p batch l)
  obtain r l1 where r: "link_recv l = (r, l1)" by fastforce
  show ?case
  proof (cases r)
    case (Inl e)
    with r "1.prems" show ?thesis by (simp add: read_batch.simps [of registry c b p batch l])
  next
    case (Inr m)
    have less: "length (inbox l1) < length (inbox l)"
      using r Inr by (auto dest: link_recv_shorter)
    show ?thesis
    proof (cases "\<exists>tid pr t po di. m = Test tid pr t po di")
      case True
      then obtain tid pr t po di where m: "m = Test tid pr t po di" by blast
      with r Inr "1.prems" obtain entry where e: "accept_test registry c b p batch tid pr t po di = Inr entry"
        and rest: "read_batch registry c b p (batch @ [entry]) l1 = (Inr (batch', d), l')"
        by (auto simp: read_batch.simps [of registry c b p batch l] split: sum.splits)
      from "1.IH" [OF r [symmetric] Inr m e rest] less show ?thesis by simp
    next
      case False
      with r Inr "1.prems" less show ?thesis
        by (cases m) (auto simp: read_batch.simps [of registry c b p batch l] split: if_splits)
    qed
  qed
qed

section \<open>Running a batch and reporting\<close>

fun protocol_result_to_report :: "u32 \<Rightarrow> protocol_result \<Rightarrow> message" where
  "protocol_result_to_report tid (Pass s r) =
     Report tid (Some \<lparr>report_bytes = s\<rparr>) (Some \<lparr>report_bytes = r\<rparr>) None"
| "protocol_result_to_report tid (Fail e s r) =
     Report tid (Some \<lparr>report_bytes = s\<rparr>) (Some \<lparr>report_bytes = r\<rparr>) (Some e)"
| "protocol_result_to_report tid (Error e) = Report tid None None (Some e)"

definition server_context :: "duration \<Rightarrow> 'e server_batch_entry \<Rightarrow> test_context" where
  "server_context timeout entry =
     \<lparr>ctx_direction = sb_dir entry, ctx_transport = sb_transport entry,
      ctx_target_addr = sb_target_addr entry, ctx_timeout = timeout\<rparr>"

definition run_server_batch ::
  "duration \<Rightarrow> (nat \<Rightarrow> 'e probe_env) \<Rightarrow> 'e server_batch_entry list \<Rightarrow> (u32 \<times> protocol_result) list" where
  "run_server_batch timeout env batch =
     run_concurrently env (map (\<lambda>e. (sb_id e, sb_proto e, server_context timeout e)) batch)"

definition count_result :: "protocol_result \<Rightarrow> server_state \<Rightarrow> server_state" where
  "count_result result st =
     (case result of
        Pass s r \<Rightarrow> st\<lparr>sv_passed := sv_passed st + 1\<rparr>
      | Fail e s r \<Rightarrow> st\<lparr>sv_failed := sv_failed st + 1\<rparr>
      | Error e \<Rightarrow> st\<lparr>sv_errors := sv_errors st + 1\<rparr>)"

definition sv_send :: "message \<Rightarrow> server_state \<Rightarrow> (string + unit) \<times> server_state" where
  "sv_send m st = (case link_send m (sv_link st) of (r, l) \<Rightarrow> (r, st\<lparr>sv_link := l\<rparr>))"

definition report_result :: "u32 \<times> protocol_result \<Rightarrow> server_state \<Rightarrow> (string + unit) \<times> server_state" where
  "report_result ir st =
     (case ir of (tid, result) \<Rightarrow>
        sv_send (protocol_result_to_report tid result) (count_result result st))"

lemma sv_send_inbox [simp]: "inbox (sv_link (snd (sv_send m st))) = inbox (sv_link st)"
  by (simp add: sv_send_def case_prod_beta)

lemma count_result_link [simp]: "sv_link (count_result r st) = sv_link st"
  by (simp add: count_result_def split: protocol_result.splits)

lemma report_results_inbox:
  "inbox (sv_link (snd (for_each report_result rs st))) = inbox (sv_link st)"
  by (rule for_each_snd_inv [where P = "\<lambda>s. inbox (sv_link s) = inbox (sv_link st)"])
     (auto simp: report_result_def split: prod.splits)

section \<open>The session\<close>

function server_loop ::
  "'e registry \<Rightarrow> 'e session_envs \<Rightarrow> socket_addr \<Rightarrow> socket_addr option \<Rightarrow> duration \<Rightarrow> usize \<Rightarrow>
   server_state \<Rightarrow> (string + unit) \<times> server_state" where
  "server_loop registry envs client_addr test_bind_ip timeout parallel st =
     (case read_batch registry client_addr test_bind_ip parallel [] (sv_link st) of
        (Inl e, l) \<Rightarrow> (Inl e, st\<lparr>sv_link := l\<rparr>)
      | (Inr (batch, done_after), l) \<Rightarrow>
          let st1 = st\<lparr>sv_link := l\<rparr> in
          if batch = [] then (Inr (), st1)
          else (case for_each report_result
                       (run_server_batch timeout (envs (length (outbox l))) batch) st1 of
                  (Inl e, st2) \<Rightarrow> (Inl e, st2)
                | (Inr _, st2) \<Rightarrow>
                    if done_after then (Inr (), st2)
                    else server_loop registry envs client_addr test_bind_ip timeout parallel st2))"
  by pat_completeness auto
termination
proof (relation "measure (\<lambda>(r, e, c, b, t, p, st). length (inbox (sv_link st)))", goal_cases)
  case 1
  show ?case by simp
next
  case (2 registry envs client_addr test_bind_ip timeout parallel st p l r batch done_after st1 q st2 u)
  then have "st2 = snd (for_each report_result
      (run_server_batch timeout (envs (length (outbox l))) batch) (st\<lparr>sv_link := l\<rparr>))"
    by (metis snd_conv)
  then have "inbox (sv_link st2) = inbox l"
    by (simp add: report_results_inbox)
  with 2 show ?case by (auto dest: read_batch_shorter [OF sym])
qed

declare server_loop.simps [simp del]

definition version_mismatch_text :: "u32 \<Rightarrow> string" where
  "version_mismatch_text client_version =
     ''client protocol version '' @ show_nat (unat client_version) @
     '' does not match server version '' @ show_nat (unat PROTOCOL_VERSION)"

definition server_summary :: "server_state \<Rightarrow> test_summary" where
  "server_summary st =
     \<lparr>summary_passed = sv_passed st, summary_failed = sv_failed st, summary_errors = sv_errors st\<rparr>"

definition run_server ::
  "addr_text \<Rightarrow> 'e registry \<Rightarrow> 'e session_envs \<Rightarrow> link \<Rightarrow> (string + test_summary) \<times> link" where
  "run_server A registry envs l0 =
     (case link_peer l0 of
        Inl e \<Rightarrow> (Inl e, l0)
      | Inr client_addr \<Rightarrow>
          (case link_recv l0 of
             (Inl e, l1) \<Rightarrow> (Inl e, l1)
           | (Inr (Configure target timeout_ms client_version parallel), l1) \<Rightarrow>
               if client_version \<noteq> PROTOCOL_VERSION then
                 try_then (link_send (Ack False (Some (version_mismatch_text client_version))) l1)
                   (\<lambda>_ l2. (Inl ''client and server protocol versions do not match'', l2))
               else
                 try_then (link_send (Ack True None) l1) (\<lambda>_ l2.
                   let test_bind_ip = Option.bind target (parse_configured_bind_addr A);
                       st0 = \<lparr>sv_link = l2, sv_passed = 0, sv_failed = 0, sv_errors = 0\<rparr>
                   in (case server_loop registry envs client_addr test_bind_ip
                              (from_millis (unat timeout_ms)) (at_least_one parallel) st0 of
                         (Inl e, st) \<Rightarrow> (Inl e, sv_link st)
                       | (Inr _, st) \<Rightarrow>
                           try_then (link_send (Bye (server_summary st)) (sv_link st))
                             (\<lambda>_ l3. (Inr (server_summary st), l3))))
           | (Inr _, l1) \<Rightarrow> (Inl ''expected Configure message'', l1)))"

section \<open>Batches\<close>

lemma read_batch_bound:
  "read_batch registry c b p batch l = (Inr (batch', d), l') \<Longrightarrow> length batch \<le> unat p \<Longrightarrow>
   length batch' \<le> unat p \<and> (batch' = [] \<longrightarrow> d)"
proof (induction registry c b p batch l rule: read_batch.induct)
  case (1 registry c b p batch l)
  obtain r l1 where r: "link_recv l = (r, l1)" by fastforce
  show ?case
  proof (cases "\<exists>tid pr t po di. r = Inr (Test tid pr t po di)")
    case True
    then obtain tid pr t po di where m: "r = Inr (Test tid pr t po di)" by blast
    with r "1.prems"(1) obtain entry
      where e: "accept_test registry c b p batch tid pr t po di = Inr entry"
        and rest: "read_batch registry c b p (batch @ [entry]) l1 = (Inr (batch', d), l')"
      by (auto simp: read_batch.simps [of registry c b p batch l] split: sum.splits)
    from e have "length (batch @ [entry]) \<le> unat p"
      by (auto simp: accept_test_def split: if_splits)
    with "1.IH" [OF r [symmetric] m refl e rest] show ?thesis .
  next
    case False
    with r "1.prems" show ?thesis
      by (cases r) (auto simp: read_batch.simps [of registry c b p batch l]
          split: message.splits if_splits)
  qed
qed

text \<open>A request the server accepts, and the entry it makes of it.\<close>

definition accepts ::
  "'e registry \<Rightarrow> socket_addr \<Rightarrow> socket_addr option \<Rightarrow> message \<Rightarrow> 'e server_batch_entry \<Rightarrow> bool" where
  "accepts registry c b m e \<longleftrightarrow>
     (\<exists>tid pr t po di. m = Test tid pr t po di \<and> accept_test registry c b 1 [] tid pr t po di = Inr e)"

lemma accept_test_room:
  "length batch < unat p \<Longrightarrow>
   accept_test registry c b p batch tid pr t po di = accept_test registry c b 1 [] tid pr t po di"
  by (simp add: accept_test_def)

lemma read_batch_tests:
  assumes "list_all2 (accepts registry c b) ms es" and "length batch + length es \<le> unat p"
    and "inbox l = map Arrives ms @ rest"
  shows "read_batch registry c b p batch l = read_batch registry c b p (batch @ es) (l\<lparr>inbox := rest\<rparr>)"
  using assms
proof (induction ms es arbitrary: batch l rule: list_all2_induct)
  case Nil
  then show ?case by auto
next
  case (Cons m ms e es)
  from Cons.hyps(1) obtain tid pr t po di where m: "m = Test tid pr t po di"
    and acc: "accept_test registry c b 1 [] tid pr t po di = Inr e" by (auto simp: accepts_def)
  have "read_batch registry c b p batch l =
      read_batch registry c b p (batch @ [e]) (l\<lparr>inbox := map Arrives ms @ rest\<rparr>)"
    using Cons.prems m acc
    by (subst read_batch.simps) (simp add: accept_test_room [of batch p registry c b tid pr t po di])
  also have "\<dots> = read_batch registry c b p ((batch @ [e]) @ es) (l\<lparr>inbox := rest\<rparr>)"
    using Cons.prems by (subst Cons.IH) simp_all
  finally show ?case by simp
qed

lemma read_batch_BatchEnd:
  "inbox l = Arrives BatchEnd # rest \<Longrightarrow> batch \<noteq> [] \<Longrightarrow>
   read_batch registry c b p batch l = (Inr (batch, False), l\<lparr>inbox := rest\<rparr>)"
  by (subst read_batch.simps) simp

lemma read_batch_Done:
  "inbox l = Arrives Done # rest \<Longrightarrow>
   read_batch registry c b p batch l = (Inr (batch, True), l\<lparr>inbox := rest\<rparr>)"
  by (subst read_batch.simps) simp

lemma read_batch_outbox:
  "outbox (snd (read_batch registry c b p batch l)) = outbox l \<and>
   send_fault (snd (read_batch registry c b p batch l)) = send_fault l"
proof (induction registry c b p batch l rule: read_batch.induct)
  case (1 registry c b p batch l)
  obtain r l1 where r: "link_recv l = (r, l1)" by fastforce
  have same: "outbox l1 = outbox l" "send_fault l1 = send_fault l"
    using link_recv_outbox [of l] r by simp_all
  show ?case
    using 1 [OF r [symmetric]] r same
    by (auto simp: read_batch.simps [of registry c b p batch l] split: sum.splits message.splits)
qed

section \<open>Reports\<close>

definition report_of :: "u32 \<times> protocol_result \<Rightarrow> message" where
  "report_of ir = protocol_result_to_report (fst ir) (snd ir)"

definition count_results :: "(protocol_result \<Rightarrow> bool) \<Rightarrow> (u32 \<times> protocol_result) list \<Rightarrow> nat" where
  "count_results p rs = length (filter (p \<circ> snd) rs)"

text \<open>The state after the results \<open>rs\<close> were counted and reported.\<close>

definition reported :: "(u32 \<times> protocol_result) list \<Rightarrow> server_state \<Rightarrow> server_state" where
  "reported rs st =
     \<lparr>sv_link = (sv_link st)\<lparr>outbox := outbox (sv_link st) @ map report_of rs\<rparr>,
      sv_passed = sv_passed st + of_nat (count_results is_pass rs),
      sv_failed = sv_failed st + of_nat (count_results is_fail rs),
      sv_errors = sv_errors st + of_nat (count_results is_error rs)\<rparr>"

lemma reported_fields [simp]:
  "outbox (sv_link (reported rs st)) = outbox (sv_link st) @ map report_of rs"
  "inbox (sv_link (reported rs st)) = inbox (sv_link st)"
  "send_fault (sv_link (reported rs st)) = send_fault (sv_link st)"
  by (simp_all add: reported_def)

lemma reported_Nil [simp]: "reported [] st = st"
  by (simp add: reported_def count_results_def)

lemma reported_append: "reported qs (reported rs st) = reported (rs @ qs) st"
  by (simp add: reported_def count_results_def algebra_simps)

lemma sv_send_success:
  "sv_send m st = (Inr (), st') \<Longrightarrow> st' = st\<lparr>sv_link := (sv_link st)\<lparr>outbox := outbox (sv_link st) @ [m]\<rparr>\<rparr>"
  by (auto simp: sv_send_def link_send_def split: option.splits)

lemma report_result_success:
  "report_result ir st = (Inr (), st') \<Longrightarrow> st' = reported [ir] st"
  by (cases ir; cases "snd ir")
     (auto simp: report_result_def reported_def report_of_def count_result_def count_results_def
       dest!: sv_send_success)

lemma report_result_healthy:
  "send_fault (sv_link st) = (\<lambda>_. None) \<Longrightarrow> report_result ir st = (Inr (), reported [ir] st)"
  by (cases ir; cases "snd ir")
     (auto simp: report_result_def reported_def report_of_def count_result_def count_results_def
       sv_send_def)

lemma report_results_success:
  "for_each report_result rs st = (Inr (), st') \<Longrightarrow> st' = reported rs st"
proof (induction rs arbitrary: st)
  case (Cons r rs)
  then obtain st1 where "report_result r st = (Inr (), st1)"
    and "for_each report_result rs st1 = (Inr (), st')"
    by (auto simp: try_then_Inr_iff)
  from Cons.IH [OF this(2)] report_result_success [OF this(1)] show ?case
    by (simp add: reported_append)
qed simp

lemma report_results_healthy:
  "send_fault (sv_link st) = (\<lambda>_. None) \<Longrightarrow> for_each report_result rs st = (Inr (), reported rs st)"
  by (induction rs arbitrary: st) (simp_all add: report_result_healthy reported_append)

lemma ids_run_server_batch:
  "mset (map fst (run_server_batch timeout env batch)) = mset (map sb_id batch)"
  by (simp only: run_server_batch_def mset_ids_run_concurrently map_map o_def fst_conv)

section \<open>Sessions\<close>

text \<open>
  A loop that ended well reported some results \<open>rs\<close> and counted exactly these.
\<close>

lemma server_loop_reports:
  "server_loop registry envs c b timeout p st = (Inr (), st') \<Longrightarrow>
   \<exists>rs l. st' = (reported rs st)\<lparr>sv_link := l\<rparr> \<and> outbox l = outbox (sv_link (reported rs st))"
proof (induction registry envs c b timeout p st arbitrary: st' rule: server_loop.induct)
  case (1 registry envs c b timeout p st)
  obtain batch d l where rd: "read_batch registry c b p [] (sv_link st) = (Inr (batch, d), l)"
    using "1.prems" by (auto simp: server_loop.simps [of registry envs c b timeout p st]
        split: prod.splits sum.splits)
  have l: "outbox l = outbox (sv_link st)"
    using read_batch_outbox [of registry c b p "[]" "sv_link st"] rd by simp
  let ?st1 = "st\<lparr>sv_link := l\<rparr>"
  let ?rs = "run_server_batch timeout (envs (length (outbox l))) batch"
  show ?case
  proof (cases "batch = []")
    case True
    with "1.prems" rd have "st' = ?st1"
      by (simp add: server_loop.simps [of registry envs c b timeout p st])
    then have "st' = (reported [] st)\<lparr>sv_link := l\<rparr> \<and> outbox l = outbox (sv_link (reported [] st))"
      using l by simp
    then show ?thesis by blast
  next
    case False
    with "1.prems" rd obtain st2 where rep: "for_each report_result ?rs ?st1 = (Inr (), st2)"
      and rest: "(if d then (Inr (), st2) else server_loop registry envs c b timeout p st2) = (Inr (), st')"
      by (auto simp: server_loop.simps [of registry envs c b timeout p st] Let_def
          split: prod.splits sum.splits)
    from report_results_success [OF rep] have st2: "st2 = reported ?rs ?st1" .
    show ?thesis
    proof (cases d)
      case True
      with rest st2 have st': "st' = reported ?rs ?st1" by simp
      have "st' = (reported ?rs st)\<lparr>sv_link := sv_link st'\<rparr> \<and>
          outbox (sv_link st') = outbox (sv_link (reported ?rs st))"
        by (simp add: st' reported_def l)
      then show ?thesis by blast
    next
      case False
      with rest have loop: "server_loop registry envs c b timeout p st2 = (Inr (), st')" by simp
      from "1.IH" [OF rd [symmetric] refl refl refl \<open>batch \<noteq> []\<close> rep [symmetric] refl False loop]
      obtain qs l2 where "st' = (reported qs st2)\<lparr>sv_link := l2\<rparr>"
        and "outbox l2 = outbox (sv_link (reported qs st2))" by blast
      with st2 l have "st' = (reported (?rs @ qs) st)\<lparr>sv_link := l2\<rparr> \<and>
          outbox l2 = outbox (sv_link (reported (?rs @ qs) st))"
        by (simp add: reported_append [symmetric]) (simp add: reported_def)
      then show ?thesis by blast
    qed
  qed
qed

lemma count_results_total:
  "count_results is_pass rs + count_results is_fail rs + count_results is_error rs = length rs"
proof (induction rs)
  case Nil
  then show ?case by (simp add: count_results_def)
next
  case (Cons r rs)
  then show ?case by (cases "snd r") (simp_all add: count_results_def)
qed

lemma run_server_success:
  assumes "run_server A registry envs l = (Inr s, l')"
  shows "\<exists>rs. outbox l' = outbox l @ Ack True None # map report_of rs @ [Bye s] \<and>
           summary_passed s = of_nat (count_results is_pass rs) \<and>
           summary_failed s = of_nat (count_results is_fail rs) \<and>
           summary_errors s = of_nat (count_results is_error rs)"
proof -
  from assms obtain client_addr m l1 where "link_peer l = Inr client_addr"
    and recv: "link_recv l = (Inr m, l1)"
    by (auto simp: run_server_def split: sum.splits prod.splits)
  with assms obtain target timeout_ms parallel where
    m: "m = Configure target timeout_ms PROTOCOL_VERSION parallel"
    by (cases m) (auto simp: run_server_def try_then_Inr_iff split: if_splits)
  define st0 where "st0 l2 = \<lparr>sv_link = l2, sv_passed = 0, sv_failed = 0, sv_errors = 0\<rparr>" for l2
  define loop_of where "loop_of l2 = server_loop registry envs client_addr
      (Option.bind target (parse_configured_bind_addr A))
      (from_millis (unat timeout_ms)) (at_least_one parallel) (st0 l2)" for l2
  have "try_then (link_send (Ack True None) l1) (\<lambda>_ l2.
          case loop_of l2 of
            (Inl e, st) \<Rightarrow> (Inl e, sv_link st)
          | (Inr _, st) \<Rightarrow>
              try_then (link_send (Bye (server_summary st)) (sv_link st))
                (\<lambda>_ l3. (Inr (server_summary st), l3))) = (Inr s, l')"
    using assms \<open>link_peer l = Inr client_addr\<close> recv m
    by (simp add: run_server_def loop_of_def st0_def)
  then obtain l2 where ack: "link_send (Ack True None) l1 = (Inr (), l2)"
    and rest: "(case loop_of l2 of
            (Inl e, st) \<Rightarrow> (Inl e, sv_link st)
          | (Inr _, st) \<Rightarrow>
              try_then (link_send (Bye (server_summary st)) (sv_link st))
                (\<lambda>_ l3. (Inr (server_summary st), l3))) = (Inr s, l')"
    by (auto simp: try_then_Inr_iff)
  obtain r st where lr: "loop_of l2 = (r, st)" by fastforce
  with rest have "r = Inr ()" by (cases r) simp_all
  with lr have loop': "loop_of l2 = (Inr (), st)" by simp
  from rest have "try_then (link_send (Bye (server_summary st)) (sv_link st))
                    (\<lambda>_ l3. (Inr (server_summary st), l3)) = (Inr s, l')"
    by (simp only: loop' prod.case sum.case)
  then have bye: "link_send (Bye (server_summary st)) (sv_link st) = (Inr (), l')"
    and s: "s = server_summary st"
    by (simp_all only: try_then_Inr_iff) auto
  note loop = loop' [unfolded loop_of_def]
  from server_loop_reports [OF loop] obtain rs l3 where
    st: "st = (reported rs (st0 l2))\<lparr>sv_link := l3\<rparr>"
    and l3: "outbox l3 = outbox l2 @ map report_of rs" by (auto simp: st0_def)
  have l2: "outbox l2 = outbox l @ [Ack True None]"
    using ack link_recv_outboxD [OF recv] by (auto simp: link_send_def split: option.splits)
  have "outbox l' = outbox l3 @ [Bye s]"
    using bye by (auto simp: link_send_def st s split: option.splits)
  then show ?thesis
    using l2 l3 by (auto simp: s st server_summary_def reported_def st0_def)
qed


lemma run_server_total:
  assumes "run_server A registry envs l = (Inr s, l')"
    and "outbox l' = outbox l @ Ack True None # map report_of rs @ [Bye b]"
  shows "summary_total s = of_nat (length rs)"
proof -
  from run_server_success [OF assms(1)] obtain rs' where
    out: "outbox l' = outbox l @ Ack True None # map report_of rs' @ [Bye s]" and
    counts: "summary_total s =
      of_nat (count_results is_pass rs' + count_results is_fail rs' + count_results is_error rs')"
    by (auto simp: summary_total_def)
  from out assms(2) have "map report_of rs' = map report_of rs" by simp
  then have "length rs' = length rs" by (rule map_eq_imp_length_eq)
  with counts show ?thesis by (simp only: count_results_total)
qed

section \<open>What a batch is made of\<close>

text \<open>The entry made of the fields of a test, and when there is one.\<close>

fun entry_of ::
  "'e registry \<Rightarrow> socket_addr \<Rightarrow> socket_addr option \<Rightarrow> u32 \<times> string \<times> string \<times> u16 \<times> string \<Rightarrow>
   'e server_batch_entry" where
  "entry_of registry c b (tid, name, t, port, dir) =
     (let d = (if dir = ''->'' then ServerToClient else ClientToServer)
      in \<lparr>sb_id = tid, sb_proto = the (find_protocol registry name), sb_transport = the (transport_from_str t),
          sb_dir = d, sb_target_addr = server_target_addr c b d port\<rparr>)"

fun known_test :: "'e registry \<Rightarrow> u32 \<times> string \<times> string \<times> u16 \<times> string \<Rightarrow> bool" where
  "known_test registry (tid, name, t, port, dir) \<longleftrightarrow>
     find_protocol registry name \<noteq> None \<and> transport_from_str t \<noteq> None \<and> dir \<in> {''->'', ''<-''}"

lemma accept_test_entry:
  assumes "accept_test registry c b p es tid name t port dir = Inr e"
  shows "known_test registry (tid, name, t, port, dir) \<and> e = entry_of registry c b (tid, name, t, port, dir)"
proof -
  from assms obtain proto tr d where "dir = direction_as_str d" and "find_protocol registry name = Some proto"
    and "transport_from_str t = Some tr"
    and "e = \<lparr>sb_id = tid, sb_proto = proto, sb_transport = tr, sb_dir = opposite d,
              sb_target_addr = server_target_addr c b (opposite d) port\<rparr>"
    by (auto simp: accept_test_def and_then_Inr_iff parse_direction_Inr_iff split: if_splits option.splits)
  then show ?thesis by (cases d) simp_all
qed

lemma read_batch_heard:
  "read_batch registry c b p batch l = (Inr (batch', d), l') \<Longrightarrow>
   \<exists>heard tests. inbox l = heard @ inbox l' \<and>
     arrivals heard = map (\<lambda>(tid, name, t, port, dir). Test tid name t port dir) tests @
       [if d then Done else BatchEnd] \<and>
     list_all (known_test registry) tests \<and> batch' = batch @ map (entry_of registry c b) tests"
proof (induction registry c b p batch l rule: read_batch.induct)
  case (1 registry c b p batch l)
  from "1.prems" obtain m l1 where r: "link_recv l = (Inr m, l1)"
    by (auto simp: read_batch.simps [of registry c b p batch l] split: prod.splits sum.splits)
  then obtain h1 where h1: "inbox l = h1 @ inbox l1" "arrivals h1 = [m]" by (rule link_recv_taken)
  show ?case
  proof (cases "\<exists>tid name t port dir. m = Test tid name t port dir")
    case True
    then obtain tid name t port dir where m: "m = Test tid name t port dir" by blast
    with r "1.prems" obtain e where e: "accept_test registry c b p batch tid name t port dir = Inr e"
      and rest: "read_batch registry c b p (batch @ [e]) l1 = (Inr (batch', d), l')"
      by (auto simp: read_batch.simps [of registry c b p batch l] split: sum.splits)
    from "1.IH" [OF r [symmetric] refl m e rest] obtain h2 tests where h2: "inbox l1 = h2 @ inbox l'"
      "arrivals h2 = map (\<lambda>(tid, name, t, port, dir). Test tid name t port dir) tests @
         [if d then Done else BatchEnd]"
      and tests: "list_all (known_test registry) tests" "batch' = batch @ [e] @ map (entry_of registry c b) tests"
      by auto
    show ?thesis
      using h1 h2 tests m accept_test_entry [OF e]
      by (intro exI [of _ "h1 @ h2"] exI [of _ "(tid, name, t, port, dir) # tests"]) simp
  next
    case False
    with r "1.prems" have "m = (if d then Done else BatchEnd)" "batch' = batch" "l' = l1"
      by (cases m; simp add: read_batch.simps [of registry c b p batch l] split: if_splits)+
    with h1 show ?thesis by (intro exI [of _ h1] exI [of _ "[]"]) simp
  qed
qed

lemma enumerate_map: "enumerate n (map f xs) = map (\<lambda>(i, x). (i, f x)) (enumerate n xs)"
  by (induction xs arbitrary: n) simp_all

lemma run_server_batch_mset:
  "mset (run_server_batch timeout env batch) =
     mset (map (\<lambda>(i, e). (sb_id e, run_protocol (sb_proto e) (env i) (server_context timeout e)))
             (enumerate 0 batch))"
  unfolding run_server_batch_def mset_run_concurrently enumerate_map
  by (simp add: run_job_def case_prod_beta' comp_def del: mset_map)

section \<open>Properties\<close>

text \<open>
  Property C34: a batch the server starts never exceeds the configured parallelism, and an empty
  batch comes only from \<open>Done\<close>, so the session loop stops there.
\<close>

theorem server_batch_limit:
  assumes "read_batch registry c b p [] l = (Inr (batch, done_after), l')"
  shows "length batch \<le> unat p \<and> (batch = [] \<longrightarrow> done_after)"
  using read_batch_bound [OF assms] by simp

theorem server_batch_limit_witness:
  "\<exists>batch d l'. read_batch demo_registry demo_addr None 1 []
       (demo_link [Test 7 ''open'' ''tcp'' 80 ''->'', BatchEnd]) = (Inr (batch, d), l') \<and>
     length batch \<le> 1 \<and> batch \<noteq> []"
proof -
  have "read_batch demo_registry demo_addr None 1 [] (demo_link [Test 7 ''open'' ''tcp'' 80 ''->'', BatchEnd]) =
      (Inr ([\<lparr>sb_id = 7, sb_proto = demo_proto, sb_transport = Tcp, sb_dir = ServerToClient,
              sb_target_addr = server_target_addr demo_addr None ServerToClient 80\<rparr>], False),
       (demo_link [])\<lparr>inbox := []\<rparr>)"
    by (simp add: read_batch.simps accept_test_def transport_from_str_def parse_direction_def
        demo_link_def)
  with server_batch_limit [OF this] show ?thesis by auto
qed

text \<open>
  A client of another protocol version is told so in an \<open>Ack\<close> and the session ends
  without running anything.
\<close>

theorem server_rejects_other_version:
  assumes "link_peer l = Inr client_addr" and "send_fault l = (\<lambda>_. None)"
    and "inbox l = Arrives (Configure target timeout_ms client_version parallel) # es"
    and "client_version \<noteq> PROTOCOL_VERSION"
  shows "run_server A registry envs l =
           (Inl ''client and server protocol versions do not match'',
            l\<lparr>inbox := es,
              outbox := outbox l @ [Ack False (Some (version_mismatch_text client_version))]\<rparr>)"
  using assms by (simp add: run_server_def)

theorem server_rejects_other_version_witness:
  "run_server demo_text demo_registry demo_envs (demo_link [Configure None 500 2 1]) =
     (Inl ''client and server protocol versions do not match'',
      (demo_link [Configure None 500 2 1])\<lparr>inbox := [],
        outbox := [Ack False (Some (version_mismatch_text 2))]\<rparr>)"
  using server_rejects_other_version [of "demo_link [Configure None 500 2 1]" demo_addr None 500 2 1 "[]"]
  by (simp add: PROTOCOL_VERSION_def)

text \<open>
  Property C13: a session that ends well said \<open>Ack\<close>, then one report for each result, then \<open>Bye\<close>;
  the counters in \<open>Bye\<close> (of width 32) are the numbers of passed, failed and erroneous reports.
\<close>

theorem server_session_accounts:
  assumes "run_server A registry envs l = (Inr s, l')"
  shows "\<exists>rs. outbox l' = outbox l @ Ack True None # map report_of rs @ [Bye s] \<and>
           summary_passed s = of_nat (count_results is_pass rs) \<and>
           summary_failed s = of_nat (count_results is_fail rs) \<and>
           summary_errors s = of_nat (count_results is_error rs)"
  by (rule run_server_success [OF assms])

theorem server_session_accounts_witness:
  "\<exists>s l' rs. run_server demo_text demo_registry demo_envs (demo_link [Configure None 500 3 1, Done]) = (Inr s, l') \<and>
     outbox l' = Ack True None # map report_of rs @ [Bye s] \<and> summary_passed s = of_nat (count_results is_pass rs)"
proof -
  have "run_server demo_text demo_registry demo_envs (demo_link [Configure None 500 3 1, Done]) =
     (Inr \<lparr>summary_passed = 0, summary_failed = 0, summary_errors = 0\<rparr>,
      (demo_link [])\<lparr>outbox :=
         [Ack True None, Bye \<lparr>summary_passed = 0, summary_failed = 0, summary_errors = 0\<rparr>]\<rparr>)"
    by (simp add: run_server_def PROTOCOL_VERSION_def server_loop.simps read_batch.simps
        server_summary_def demo_link_def)
  with server_session_accounts [OF this] show ?thesis by auto
qed

text \<open>
  Property C14: what the server runs for the messages it read. The batch consumed one \<open>Test\<close> for each of
  its entries and the message that ended it; every test named a known probe, transport and direction; and
  the batch yields exactly one result for each test, under the number of the test, which is that of its
  probe run under the timeout in the direction opposite to the client's: towards the client when the
  client is the target, else on the address \<open>target\<close> configures, or on any address without one.
\<close>

theorem server_batch_results:
  assumes "read_batch registry c (Option.bind target (parse_configured_bind_addr A)) p [] l =
             (Inr (batch, done_after), l')"
  shows "\<exists>heard tests. inbox l = heard @ inbox l' \<and>
           arrivals heard = map (\<lambda>(tid, name, t, port, dir). Test tid name t port dir) tests @
             [if done_after then Done else BatchEnd] \<and>
           (\<forall>(tid, name, t, port, dir) \<in> set tests.
              find_protocol registry name \<noteq> None \<and> transport_from_str t \<noteq> None \<and> dir \<in> {''->'', ''<-''}) \<and>
           mset (run_server_batch timeout env batch) =
             mset (map (\<lambda>(i, tid, name, t, port, dir).
               (tid, run_protocol (the (find_protocol registry name)) (env i)
                  \<lparr>ctx_direction = (if dir = ''->'' then ServerToClient else ClientToServer),
                   ctx_transport = the (transport_from_str t),
                   ctx_target_addr = set_port port
                     (if dir = ''->''
                      then (case target of
                              None \<Rightarrow> SocketV6 0 0 0 0
                            | Some text \<Rightarrow>
                                (case (parse_socket A text, parse_ip A text) of
                                   (Some a, _) \<Rightarrow> a
                                 | (None, Some (V4 ip)) \<Rightarrow> SocketV4 ip 0
                                 | (None, Some (V6 ip)) \<Rightarrow> SocketV6 ip 0 0 0
                                 | (None, None) \<Rightarrow> SocketV6 0 0 0 0))
                      else c),
                   ctx_timeout = timeout\<rparr>)) (enumerate 0 tests))"
    (is "\<exists>heard tests. _ \<and> _ \<and> _ \<and> _ = mset (map (\<lambda>(i, tid, name, t, port, dir). (tid, ?result i name t port dir)) _)")
proof -
  let ?b = "Option.bind target (parse_configured_bind_addr A)"
  from read_batch_heard [OF assms] obtain heard tests where heard: "inbox l = heard @ inbox l'"
    "arrivals heard = map (\<lambda>(tid, name, t, port, dir). Test tid name t port dir) tests @
       [if done_after then Done else BatchEnd]"
    and known: "list_all (known_test registry) tests"
    and batch: "batch = map (entry_of registry c ?b) tests" by auto
  have own: "(case ?b of Some a \<Rightarrow> a | None \<Rightarrow> unspecified_v6) =
      (case target of
         None \<Rightarrow> SocketV6 0 0 0 0
       | Some text \<Rightarrow>
           (case (parse_socket A text, parse_ip A text) of
              (Some a, _) \<Rightarrow> a
            | (None, Some (V4 ip)) \<Rightarrow> SocketV4 ip 0
            | (None, Some (V6 ip)) \<Rightarrow> SocketV6 ip 0 0 0
            | (None, None) \<Rightarrow> SocketV6 0 0 0 0))"
    by (auto simp: unspecified_v6_def parse_configured_bind_addr_def new_socket_addr_def
        split: option.splits ip_addr.splits)
  have "(\<lambda>(i, e). (sb_id e, run_protocol (sb_proto e) (env i) (server_context timeout e))) \<circ>
      (\<lambda>(i, x). (i, entry_of registry c ?b x)) = (\<lambda>(i, tid, name, t, port, dir). (tid, ?result i name t port dir))"
    unfolding own [symmetric]
    by (auto simp: fun_eq_iff server_context_def server_target_addr_def)
  then have "mset (run_server_batch timeout env batch) =
      mset (map (\<lambda>(i, tid, name, t, port, dir). (tid, ?result i name t port dir)) (enumerate 0 tests))"
    unfolding run_server_batch_mset batch enumerate_map map_map by (simp only:)
  moreover have "\<forall>(tid, name, t, port, dir) \<in> set tests.
      find_protocol registry name \<noteq> None \<and> transport_from_str t \<noteq> None \<and> dir \<in> {''->'', ''<-''}"
    using known by (auto simp: list_all_iff)
  ultimately show ?thesis using heard by blast
qed

text \<open>
  Two tests of a batch, with the server's own address configured as a bare IP and a probe whose
  result shows the port it was given and the timeout.
\<close>

theorem server_batch_results_witness:
  "let echo = demo_proto\<lparr>proto_run := \<lambda>_ ctx. Fail (direction_as_str (ctx_direction ctx))
         (ucast (addr_port (ctx_target_addr ctx))) (word_of_nat (ctx_timeout ctx))\<rparr>;
       A = demo_text\<lparr>parse_ip := \<lambda>_. Some (V4 7)\<rparr>;
       r = read_batch [echo] demo_addr (Option.bind (Some ''any'') (parse_configured_bind_addr A)) 2 []
             (demo_link [Test 7 ''open'' ''tcp'' 80 ''->'', Test 8 ''open'' ''udp'' 53 ''<-'', BatchEnd])
   in \<exists>batch l'. r = (Inr (batch, False), l') \<and>
        mset (run_server_batch 5 (demo_envs 0) batch) = {#(7, Fail ''<-'' 80 5), (8, Fail ''->'' 53 5)#}"
proof -
  let ?p = "demo_proto\<lparr>proto_run := \<lambda>_ ctx. Fail (direction_as_str (ctx_direction ctx))
      (ucast (addr_port (ctx_target_addr ctx))) (word_of_nat (ctx_timeout ctx))\<rparr>"
  let ?A = "demo_text\<lparr>parse_ip := \<lambda>_. Some (V4 7)\<rparr>"
  let ?b = "Option.bind (Some ''any'') (parse_configured_bind_addr ?A)"
  let ?l = "demo_link [Test 7 ''open'' ''tcp'' 80 ''->'', Test 8 ''open'' ''udp'' 53 ''<-'', BatchEnd]"
  have find: "find_protocol [?p] ''open'' = Some ?p" by (simp add: find_protocol_def demo_proto_def)
  obtain batch where run: "read_batch [?p] demo_addr ?b 2 [] ?l = (Inr (batch, False), ?l\<lparr>inbox := []\<rparr>)"
    by (simp add: read_batch.simps accept_test_def find transport_from_str_def parse_direction_def)
  from server_batch_results [OF run, of 5 "demo_envs 0"]
  have "mset (run_server_batch 5 (demo_envs 0) batch) = {#(7, Fail ''<-'' 80 5), (8, Fail ''->'' 53 5)#}"
    using find by (auto simp: demo_text_def map_eq_Cons_conv run_protocol_def demo_addr_def transport_from_str_def)
  with run show ?thesis by simp
qed

end
