(* ===== verification/Result_Merge.thy ===== *)
theory Result_Merge
  imports Probe_Types "HOL-Library.Multiset"
begin

text \<open>
  \<open>merge_into_ranges\<close> of \<open>src/orchestrator.rs\<close>: the results of a scan, sorted by protocol,
  transport, direction and port, with neighbours that agree in everything but the port merged
  into ranges. The theory relates the ranges to the results they stand for.
\<close>

section \<open>Entries\<close>

record test_entry =
  te_protocol :: string
  te_transport :: string
  te_port :: u16
  te_direction :: direction
  te_result :: protocol_result
  te_server_error :: "string option"

datatype port_range = Single u16 | Range u16 u16

record merged_entry =
  me_protocol :: string
  me_transport :: string
  me_ports :: port_range
  me_direction :: direction
  me_status :: string
  me_reason :: string
  me_count :: u64
  me_server_error :: "string option"

section \<open>Merging\<close>

text \<open>The sort is stable, by the key the chained comparisons of the source spell out.\<close>

definition entry_key :: "test_entry \<Rightarrow> string \<times> string \<times> string \<times> u16" where
  "entry_key e = (te_protocol e, te_transport e, direction_as_str (te_direction e), te_port e)"

fun range_end :: "port_range \<Rightarrow> u16" where
  "range_end (Single p) = p"
| "range_end (Range s e) = e"

fun range_start :: "port_range \<Rightarrow> u16" where
  "range_start (Single p) = p"
| "range_start (Range s e) = s"

definition should_merge :: "merged_entry \<Rightarrow> test_entry \<Rightarrow> bool" where
  "should_merge prev e \<longleftrightarrow>
     me_protocol prev = te_protocol e \<and>
     me_transport prev = te_transport e \<and>
     me_direction prev = te_direction e \<and>
     me_status prev = result_status (te_result e) \<and>
     me_reason prev = result_reason (te_result e) \<and>
     me_server_error prev = te_server_error e \<and>
     (case me_ports prev of
        Range s p \<Rightarrow> checked_succ p = Some (te_port e)
      | Single p \<Rightarrow> checked_succ p = Some (te_port e))"

definition extend_entry :: "merged_entry \<Rightarrow> test_entry \<Rightarrow> merged_entry" where
  "extend_entry prev e =
     prev\<lparr>me_ports :=
            (case me_ports prev of
               Single p \<Rightarrow> Range p (te_port e)
             | Range s p \<Rightarrow> Range s (te_port e)),
          me_count := me_count prev + 1\<rparr>"

definition new_entry :: "test_entry \<Rightarrow> merged_entry" where
  "new_entry e =
     \<lparr>me_protocol = te_protocol e, me_transport = te_transport e,
      me_ports = Single (te_port e), me_direction = te_direction e,
      me_status = result_status (te_result e), me_reason = result_reason (te_result e),
      me_count = 1, me_server_error = te_server_error e\<rparr>"

definition merge_entry :: "merged_entry list \<Rightarrow> test_entry \<Rightarrow> merged_entry list" where
  "merge_entry merged e =
     (if merged \<noteq> [] \<and> should_merge (last merged) e
      then butlast merged @ [extend_entry (last merged) e]
      else merged @ [new_entry e])"

definition merge_into_ranges :: "test_entry list \<Rightarrow> merged_entry list" where
  "merge_into_ranges results =
     (if results = [] then []
      else foldl merge_entry [] (sort_key entry_key results))"

section \<open>What a merged entry stands for\<close>

text \<open>One observation: protocol, transport, direction, port, status, reason, server error.\<close>

type_synonym observation =
  "string \<times> string \<times> direction \<times> u16 \<times> string \<times> string \<times> string option"

definition observe :: "test_entry \<Rightarrow> observation" where
  "observe e =
     (te_protocol e, te_transport e, te_direction e, te_port e,
      result_status (te_result e), result_reason (te_result e), te_server_error e)"

fun range_ports :: "port_range \<Rightarrow> u16 list" where
  "range_ports (Single p) = [p]"
| "range_ports (Range s e) = port_span s e"

definition expand :: "merged_entry \<Rightarrow> observation list" where
  "expand m = map (\<lambda>p. (me_protocol m, me_transport m, me_direction m, p,
                        me_status m, me_reason m, me_server_error m)) (range_ports (me_ports m))"

text \<open>A merged entry is well formed: a range goes up, and its count is its number of ports.\<close>

definition merged_ok :: "merged_entry \<Rightarrow> bool" where
  "merged_ok m \<longleftrightarrow>
     (case me_ports m of Single p \<Rightarrow> True | Range s e \<Rightarrow> s < e) \<and>
     unat (me_count m) = length (range_ports (me_ports m))"

section \<open>Lemmas\<close>

lemma range_ports_extend:
  assumes "merged_ok m" and "should_merge m e"
  shows "range_ports (me_ports (extend_entry m e)) = range_ports (me_ports m) @ [te_port e]"
proof (cases "me_ports m")
  case (Single p)
  with assms(2) have "checked_succ p = Some (te_port e)" by (simp add: should_merge_def)
  with Single port_span_snoc [of p p "te_port e"] show ?thesis by (simp add: extend_entry_def)
next
  case (Range s p)
  with assms have "checked_succ p = Some (te_port e)" "unat s \<le> unat p"
    by (simp_all add: should_merge_def merged_ok_def word_less_nat_alt)
  with Range port_span_snoc [of s p "te_port e"] show ?thesis by (simp add: extend_entry_def)
qed

lemma expand_extend:
  assumes "merged_ok m" and "should_merge m e"
  shows "expand (extend_entry m e) = expand m @ [observe e]"
  using range_ports_extend [OF assms] assms(2)
  by (simp add: expand_def observe_def should_merge_def) (simp add: extend_entry_def)

lemma expand_new [simp]: "expand (new_entry e) = [observe e]"
  by (simp add: expand_def new_entry_def observe_def)

lemma merged_ok_new [simp]: "merged_ok (new_entry e)"
  by (simp add: merged_ok_def new_entry_def)

lemma merged_ok_extend:
  assumes "merged_ok m" and "should_merge m e"
  shows "merged_ok (extend_entry m e)"
proof -
  let ?m = "extend_entry m e"
  have len: "length (range_ports (me_ports ?m)) = unat (me_count m) + 1"
    using range_ports_extend [OF assms] assms(1) by (simp add: merged_ok_def)
  have up: "case me_ports ?m of Single p \<Rightarrow> True | Range s e \<Rightarrow> s < e"
    using assms
    by (auto simp: extend_entry_def should_merge_def merged_ok_def checked_succ_Some_iff
        word_less_nat_alt split: port_range.splits)
  have "length (range_ports (me_ports ?m)) \<le> 65536"
    using unat_u16_bound [of "range_end (me_ports ?m)"]
    by (cases "me_ports ?m") (auto simp: length_port_span)
  then have "unat (me_count ?m) = unat (me_count m) + 1"
    using len by (simp add: extend_entry_def unat_word_ariths)
  with len up show ?thesis by (simp add: merged_ok_def)
qed

lemma merge_entry_expand:
  assumes "list_all merged_ok ms"
  shows "concat (map expand (merge_entry ms e)) = concat (map expand ms) @ [observe e] \<and>
         list_all merged_ok (merge_entry ms e)"
proof (cases ms rule: rev_cases)
  case Nil
  then show ?thesis by (simp add: merge_entry_def)
next
  case (snoc ys m)
  with assms show ?thesis by (simp add: merge_entry_def expand_extend merged_ok_extend)
qed

lemma foldl_merge_expand:
  "list_all merged_ok ms \<Longrightarrow>
   concat (map expand (foldl merge_entry ms es)) = concat (map expand ms) @ map observe es \<and>
   list_all merged_ok (foldl merge_entry ms es)"
proof (induction es arbitrary: ms)
  case Nil
  then show ?case by simp
next
  case (Cons e es)
  from Cons.IH [of "merge_entry ms e"] merge_entry_expand [OF Cons.prems, of e]
  show ?case by simp
qed

lemma merge_expand:
  "concat (map expand (merge_into_ranges results)) = map observe (sort_key entry_key results)"
  using foldl_merge_expand [of "[]" "sort_key entry_key results"]
  by (auto simp: merge_into_ranges_def)

lemma merge_ok: "list_all merged_ok (merge_into_ranges results)"
  using foldl_merge_expand [of "[]" "sort_key entry_key results"]
  by (auto simp: merge_into_ranges_def)

text \<open>Neighbours of the output cannot be merged any further.\<close>

definition joinable :: "merged_entry \<Rightarrow> merged_entry \<Rightarrow> bool" where
  "joinable a b \<longleftrightarrow>
     me_protocol a = me_protocol b \<and> me_transport a = me_transport b \<and>
     me_direction a = me_direction b \<and> me_status a = me_status b \<and>
     me_reason a = me_reason b \<and> me_server_error a = me_server_error b \<and>
     checked_succ (range_end (me_ports a)) = Some (range_start (me_ports b))"

lemma should_merge_new: "should_merge m e \<longleftrightarrow> joinable m (new_entry e)"
  by (cases "me_ports m") (auto simp: should_merge_def joinable_def new_entry_def)

lemma joinable_extend: "joinable a (extend_entry m e) \<longleftrightarrow> joinable a m"
  by (cases "me_ports m") (auto simp: joinable_def extend_entry_def)

lemma successively_snoc:
  "successively P (xs @ [y]) \<longleftrightarrow> successively P xs \<and> (xs = [] \<or> P (last xs) y)"
  by (auto simp: successively_append_iff)

lemma merge_entry_maximal:
  assumes "successively (\<lambda>a b. \<not> joinable a b) ms"
  shows "successively (\<lambda>a b. \<not> joinable a b) (merge_entry ms e)"
proof (cases ms rule: rev_cases)
  case Nil
  then show ?thesis by (simp add: merge_entry_def)
next
  case (snoc ys m)
  with assms show ?thesis
    by (simp add: merge_entry_def successively_snoc joinable_extend should_merge_new)
       (simp add: successively_append_iff)
qed

lemma foldl_merge_maximal:
  "successively (\<lambda>a b. \<not> joinable a b) ms \<Longrightarrow>
   successively (\<lambda>a b. \<not> joinable a b) (foldl merge_entry ms es)"
  by (induction es arbitrary: ms) (simp_all add: merge_entry_maximal)

lemma merge_maximal: "successively (\<lambda>a b. \<not> joinable a b) (merge_into_ranges results)"
  by (simp add: merge_into_ranges_def foldl_merge_maximal)

lemma merge_observations:
  "mset (concat (map expand (merge_into_ranges results))) = mset (map observe results)"
  by (simp add: merge_expand)

lemma set_merge_observations:
  "(\<Union>m \<in> set (merge_into_ranges results). set (expand m)) = observe ` set results"
proof -
  have "(\<Union>m \<in> set (merge_into_ranges results). set (expand m)) =
      set (concat (map expand (merge_into_ranges results)))" by simp
  then show ?thesis by (simp only: merge_expand) simp
qed


section \<open>Properties\<close>

text \<open>
  Property C15: merging loses and invents nothing: the merged entries, written out port by port, are
  the observations in their sorted order; every count is the number of ports of its range, and no
  two neighbours could have been merged further.
\<close>

theorem merge_lossless:
  "concat (map expand (merge_into_ranges results)) = map observe (sort_key entry_key results) \<and>
   list_all merged_ok (merge_into_ranges results) \<and>
   successively (\<lambda>a b. \<not> joinable a b) (merge_into_ranges results)"
  using merge_expand merge_ok merge_maximal by blast

end
