(* ===== verification/Output_Format.thy ===== *)
theory Output_Format
  imports Bimap_Prelude
begin

text \<open>
  \<open>format_port_ranges\<close> of \<open>src/output.rs\<close>: a port list as compact ranges such as
  \<open>0-21,23-79,81-1023\<close>. The addition \<open>end + 1\<close> is on \<open>u16\<close>: a build with overflow checks
  panics at 65535 (\<open>None\<close>), the release build wraps to 0; the flag \<open>checks\<close> selects the build.
\<close>

definition next_port :: "bool \<Rightarrow> u16 \<Rightarrow> u16 option" where
  "next_port checks p =
     (case checked_succ p of Some q \<Rightarrow> Some q | None \<Rightarrow> if checks then None else Some (p + 1))"

text \<open>The inner loop: extend the run that ends at \<open>last\<close>; the rest of the list starts the next run.\<close>

fun extend_run :: "bool \<Rightarrow> u16 \<Rightarrow> u16 list \<Rightarrow> (u16 \<times> u16 list) option" where
  "extend_run checks e [] = Some (e, [])"
| "extend_run checks e (p # ps) =
     (case next_port checks e of
        None \<Rightarrow> None
      | Some q \<Rightarrow> if p = q then extend_run checks p ps else Some (e, p # ps))"

lemma extend_run_shorter: "extend_run checks e ps = Some (e', ps') \<Longrightarrow> length ps' \<le> length ps"
  by (induction checks e ps rule: extend_run.induct) (auto split: option.splits if_splits)

function port_runs :: "bool \<Rightarrow> u16 list \<Rightarrow> (u16 \<times> u16) list option" where
  "port_runs checks [] = Some []"
| "port_runs checks (p # ps) =
     (case extend_run checks p ps of
        None \<Rightarrow> None
      | Some (e, rest) \<Rightarrow> map_option (Cons (p, e)) (port_runs checks rest))"
  by pat_completeness auto
termination
  by (relation "measure (\<lambda>(c, ps). length ps)") (auto simp: less_Suc_eq_le dest: extend_run_shorter)

definition format_run :: "u16 \<times> u16 \<Rightarrow> string" where
  "format_run r = (case r of (s, e) \<Rightarrow>
     if s = e then show_nat (unat s) else show_nat (unat s) @ ''-'' @ show_nat (unat e))"

definition format_port_ranges :: "bool \<Rightarrow> u16 list \<Rightarrow> string option" where
  "format_port_ranges checks ports =
     map_option (\<lambda>rs. join_strings '','' (map format_run rs)) (port_runs checks ports)"

section \<open>Lemmas\<close>

text \<open>Port 65535 at the end only: true of every strictly ascending list.\<close>

definition max_port_last :: "u16 list \<Rightarrow> bool" where
  "max_port_last ps \<longleftrightarrow> list_all (\<lambda>p. unat p < 65535) (butlast ps)"

lemma ascending_max_port_last: "sorted_wrt (<) ps \<Longrightarrow> max_port_last ps"
proof (cases ps rule: rev_cases)
  case (snoc qs q)
  assume "sorted_wrt (<) ps"
  with snoc unat_u16_bound [of q] show ?thesis
    by (auto simp: max_port_last_def sorted_wrt_append list_all_iff word_less_nat_alt
        intro: order.strict_trans2)
qed (simp add: max_port_last_def)

lemma next_port_small: "unat p < 65535 \<Longrightarrow> next_port checks p = checked_succ p \<and> checked_succ p \<noteq> None"
  using checked_succ_None_iff [of p] by (auto simp: next_port_def split: option.splits)

lemma extend_run_spec:
  assumes "max_port_last (e # ps)"
  shows "\<exists>e' ps'. extend_run checks e ps = Some (e', ps') \<and> max_port_last ps' \<and>
           (unat s \<le> unat e \<longrightarrow> unat s \<le> unat e' \<and> port_span s e @ ps = port_span s e' @ ps') \<and>
           (ps' = [] \<or> checked_succ e' \<noteq> Some (hd ps'))"
  using assms
proof (induction ps arbitrary: e)
  case Nil
  then show ?case by (simp add: max_port_last_def)
next
  case (Cons p ps)
  then have small: "unat e < 65535" and rest: "max_port_last (p # ps)"
    by (auto simp: max_port_last_def)
  from next_port_small [OF small] obtain q where q: "next_port checks e = Some q" "checked_succ e = Some q"
    by force
  show ?case
  proof (cases "p = q")
    case True
    with q Cons.IH [OF rest] obtain e' ps' where
      *: "extend_run checks p ps = Some (e', ps')" "max_port_last ps'"
        "unat s \<le> unat p \<longrightarrow> unat s \<le> unat e' \<and> port_span s p @ ps = port_span s e' @ ps'"
        "ps' = [] \<or> checked_succ e' \<noteq> Some (hd ps')"
      by blast
    have "unat s \<le> unat p" "port_span s p = port_span s e @ [p]" if "unat s \<le> unat e"
      using q(2) True that port_span_snoc [OF that] by (simp_all add: checked_succ_Some_iff)
    with * q True show ?thesis by auto
  next
    case False
    with q rest show ?thesis by auto
  qed
qed

text \<open>Neighbouring runs could not have been joined.\<close>

definition runs_maximal :: "(u16 \<times> u16) list \<Rightarrow> bool" where
  "runs_maximal rs \<longleftrightarrow> successively (\<lambda>a b. checked_succ (snd a) \<noteq> Some (fst b)) rs"

lemma port_runs_spec:
  assumes "max_port_last ps"
  shows "\<exists>rs. port_runs checks ps = Some rs \<and>
           concat (map (\<lambda>(s, e). port_span s e) rs) = ps \<and> runs_maximal rs \<and>
           (rs = [] \<longleftrightarrow> ps = []) \<and> (rs \<noteq> [] \<longrightarrow> fst (hd rs) = hd ps)"
  using assms
proof (induction "length ps" arbitrary: ps rule: less_induct)
  case less
  show ?case
  proof (cases ps)
    case Nil
    then show ?thesis by (simp add: runs_maximal_def)
  next
    case (Cons p qs)
    with extend_run_spec [of p qs checks p] less.prems obtain e rest where
      *: "extend_run checks p qs = Some (e, rest)" "max_port_last rest"
        "p # qs = port_span p e @ rest" "rest = [] \<or> checked_succ e \<noteq> Some (hd rest)"
      by auto
    from extend_run_shorter [OF *(1)] Cons have "length rest < length ps" by simp
    from less.hyps [OF this *(2)] obtain rs where
      rs: "port_runs checks rest = Some rs" "concat (map (\<lambda>(s, e). port_span s e) rs) = rest"
        "runs_maximal rs" "rs = [] \<longleftrightarrow> rest = []" "rs \<noteq> [] \<longrightarrow> fst (hd rs) = hd rest"
      by blast
    have "runs_maximal ((p, e) # rs)"
      using rs(3,4,5) *(4) by (cases rs) (auto simp: runs_maximal_def)
    moreover have "port_runs checks ps = Some ((p, e) # rs)"
      using Cons *(1) rs(1) by simp
    moreover have "concat (map (\<lambda>(s, e). port_span s e) ((p, e) # rs)) = ps"
      using Cons *(3) rs(2) by simp
    ultimately show ?thesis using Cons by auto
  qed
qed


text \<open>With overflow checks the formatter panics on every list in which 65535 is followed by a port.\<close>

lemma max_port_last_iff: "max_port_last ps \<longleftrightarrow> 65535 \<notin> set (butlast ps)"
proof -
  have "unat p < 65535 \<longleftrightarrow> p \<noteq> 65535" for p :: u16
    using unat_u16_bound [of p] by (auto simp: word_unat_eq_iff)
  then show ?thesis by (auto simp: max_port_last_def list_all_iff)
qed

lemma extend_run_panics:
  "extend_run True e ps = Some (e', ps') \<Longrightarrow>
     65535 \<in> set (butlast (e # ps)) \<longleftrightarrow> ps' \<noteq> [] \<and> 65535 \<in> set (butlast ps')"
proof (induction ps arbitrary: e)
  case (Cons p ps)
  from Cons.prems obtain q where q: "next_port True e = Some q" by (auto split: option.splits)
  then have "e \<noteq> 65535" by (auto simp: next_port_def checked_succ_def split: option.splits if_splits)
  then have here: "65535 \<in> set (butlast (e # p # ps)) \<longleftrightarrow> 65535 \<in> set (butlast (p # ps))" by simp
  show ?case
  proof (cases "p = q")
    case True
    with q Cons.prems have "extend_run True p ps = Some (e', ps')" by simp
    from Cons.IH [OF this] here show ?thesis by simp
  next
    case False
    with q Cons.prems here show ?thesis by auto
  qed
qed auto

lemma extend_run_None:
  "extend_run True e ps = None \<Longrightarrow> 65535 \<in> set (butlast (e # ps))"
proof (induction ps arbitrary: e)
  case (Cons p ps)
  show ?case
  proof (cases "next_port True e")
    case None
    then have "e = 65535" using checked_succ_None_iff [of e]
      by (auto simp: next_port_def word_unat_eq_iff split: option.splits)
    then show ?thesis by simp
  next
    case (Some q)
    with Cons show ?thesis by (auto split: if_splits)
  qed
qed simp

lemma port_runs_panics: "port_runs True ps = None \<longleftrightarrow> 65535 \<in> set (butlast ps)"
proof (induction "length ps" arbitrary: ps rule: less_induct)
  case less
  show ?case
  proof (cases ps)
    case (Cons p qs)
    show ?thesis
    proof (cases "extend_run True p qs")
      case None
      with extend_run_None [OF None] Cons show ?thesis by simp
    next
      case (Some r)
      then obtain e rest where run: "extend_run True p qs = Some (e, rest)" by (cases r) auto
      from extend_run_shorter [OF run] Cons have "length rest < length ps" by simp
      from less.hyps [OF this] extend_run_panics [OF run] run Cons show ?thesis by auto
    qed
  qed simp
qed

lemma port_runs_unchecked: "port_runs False ps \<noteq> None"
proof (induction "length ps" arbitrary: ps rule: less_induct)
  case less
  have goes_on: "extend_run False e qs \<noteq> None" for e qs
    by (induction qs arbitrary: e) (auto simp: next_port_def split: option.splits)
  show ?case
  proof (cases ps)
    case (Cons p qs)
    with goes_on [of p qs] obtain e rest where run: "extend_run False p qs = Some (e, rest)" by auto
    from extend_run_shorter [OF run] Cons have "length rest < length ps" by simp
    from less.hyps [OF this] run Cons show ?thesis by auto
  qed simp
qed

section \<open>Properties\<close>

text \<open>
  Property C40: a build with overflow checks panics on a port list exactly when port 65535 stands in it
  before the end, a build without never does. On every other list, as are all ascending ones, either
  build prints ranges that stand for exactly these ports in order, none of which could have been joined
  with the next.
\<close>

theorem format_port_ranges_exact:
  "(format_port_ranges True ports = None \<longleftrightarrow> 65535 \<in> set (butlast ports)) \<and>
   format_port_ranges False ports \<noteq> None \<and>
   (sorted_wrt (<) ports \<longrightarrow> 65535 \<notin> set (butlast ports)) \<and>
   (65535 \<notin> set (butlast ports) \<longrightarrow>
      (\<exists>rs. format_port_ranges checks ports = Some (join_strings '','' (map format_run rs)) \<and>
            concat (map (\<lambda>(s, e). port_span s e) rs) = ports \<and> runs_maximal rs))"
  using port_runs_panics [of ports] port_runs_unchecked [of ports] port_runs_spec [of ports checks]
    ascending_max_port_last [of ports]
  by (auto simp: format_port_ranges_def max_port_last_iff)

text \<open>The list of the usual order, and one in which the last port comes first.\<close>

theorem format_port_ranges_exact_witness:
  "(\<exists>rs. format_port_ranges True [0, 1, 65535] = Some (join_strings '','' (map format_run rs)) \<and>
         concat (map (\<lambda>(s, e). port_span s e) rs) = [0, 1, 65535] \<and> runs_maximal rs) \<and>
   format_port_ranges True [65535, 7] = None"
  using format_port_ranges_exact [of "[0, 1, 65535]" True] format_port_ranges_exact [of "[65535, 7]" True] by simp

end
