(* ===== verification/Result_Report.thy ===== *)
theory Result_Report
  imports Result_Merge Control_Msg Output_Format
begin

text \<open>
  What a scan prints (\<open>src/orchestrator.rs\<close>, \<open>src/output.rs\<close>): one line for each result, as text
  or as a JSON object; the summary for people; the single JSON report. A line of output is a value
  that says which printing function wrote it and what; colours and terminal control are left out.
\<close>

section \<open>Lines of output\<close>

type_synonym live_key = "string \<times> string \<times> string \<times> string"
type_synonym fail_map = "live_key \<Rightarrow> u16 list option"

text \<open>
  \<open>LiveFail\<close> is the line that overwrites itself; its text lists a hash map, in no fixed order, so
  the model keeps the map from (protocol, transport, direction, reason) to the ports.
\<close>

datatype output_line =
    JsonLine json_object
  | PassLine string
  | FailLine string
  | ErrLine string
  | SummaryLine string
  | PlainLine string
  | LiveFail fail_map
  | EndLive
  | JsonExport json_object

section \<open>Results line by line\<close>

record batch_entry =
  be_id :: u32
  be_test_name :: string
  be_transport :: transport
  be_transport_str :: string
  be_port :: u16
  be_direction :: direction

definition show_word :: "'a::len word \<Rightarrow> string" where
  "show_word w = show_nat (unat w)"

fun result_tx :: "protocol_result \<Rightarrow> u64" where
  "result_tx (Pass s r) = s"
| "result_tx (Fail e s r) = s"
| "result_tx (Error e) = 0"

fun result_rx :: "protocol_result \<Rightarrow> u64" where
  "result_rx (Pass s r) = r"
| "result_rx (Fail e s r) = r"
| "result_rx (Error e) = 0"

definition result_json :: "batch_entry \<Rightarrow> protocol_result \<Rightarrow> string option \<Rightarrow> json_object" where
  "result_json entry result server_error =
     put_some ''server_error'' JStr server_error
       [''id'' \<mapsto> word_to_json (be_id entry),
        ''protocol'' \<mapsto> JStr (be_test_name entry),
        ''transport'' \<mapsto> JStr (be_transport_str entry),
        ''port'' \<mapsto> word_to_json (be_port entry),
        ''direction'' \<mapsto> JStr (direction_as_str (be_direction entry)),
        ''status'' \<mapsto> JStr (result_status result),
        ''reason'' \<mapsto> JStr (result_reason result),
        ''tx'' \<mapsto> word_to_json (result_tx result),
        ''rx'' \<mapsto> word_to_json (result_rx result)]"

definition result_prefix :: "batch_entry \<Rightarrow> string" where
  "result_prefix entry =
     be_test_name entry @ '' '' @ be_transport_str entry @ '' '' @ show_word (be_port entry) @
     '' '' @ direction_as_str (be_direction entry)"

definition transfer_text :: "u64 \<Rightarrow> u64 \<Rightarrow> string" where
  "transfer_text tx rx = ''(tx='' @ show_word tx @ '' rx='' @ show_word rx @ '')''"

definition print_result ::
  "batch_entry \<Rightarrow> protocol_result \<Rightarrow> bool \<Rightarrow> string option \<Rightarrow> output_line" where
  "print_result entry result json_lines server_error =
     (if json_lines then JsonLine (result_json entry result server_error)
      else (case result of
              Pass tx rx \<Rightarrow> PassLine (result_prefix entry @ '' '' @ transfer_text tx rx)
            | Fail why tx rx \<Rightarrow>
                FailLine (result_prefix entry @ '' '' @ why @ '' '' @ transfer_text tx rx)
            | Error why \<Rightarrow> ErrLine (result_prefix entry @ '' '' @ why)))"

section \<open>The summary for people\<close>

definition format_merged_entry :: "merged_entry \<Rightarrow> string" where
  "format_merged_entry m =
     me_protocol m @ '' '' @ me_transport m @ '' ports '' @
     (case me_ports m of
        Single p \<Rightarrow> show_word p
      | Range s e \<Rightarrow> show_word s @ ''-'' @ show_word e) @
     '' '' @ direction_as_str (me_direction m)"

definition payload_mismatch :: string where
  "payload_mismatch = ''mismatch: received payload differs''"

definition is_observed_rule :: "merged_entry \<Rightarrow> bool" where
  "is_observed_rule m \<longleftrightarrow> me_status m = ''pass''"

definition is_changed_payload :: "merged_entry \<Rightarrow> bool" where
  "is_changed_payload m \<longleftrightarrow> me_status m = ''fail'' \<and> contains_str payload_mismatch (me_reason m)"

definition blank_line :: "string \<Rightarrow> string" where
  "blank_line s = CHR 0x0A # s"

definition print_user_summary ::
  "test_entry list \<Rightarrow> u32 \<Rightarrow> u32 \<Rightarrow> u32 \<Rightarrow> output_line list" where
  "print_user_summary results passed failed errors =
     (let merged = merge_into_ranges results;
          observed_rules = filter is_observed_rule merged;
          changed_payloads = filter is_changed_payload merged
      in [PlainLine (blank_line ''Scan summary''),
          PlainLine (''  '' @ show_word passed @ '' passed, '' @ show_word failed @ '' failed, '' @
                     show_word errors @ '' errors'')] @
         (if observed_rules = [] then [PlainLine (blank_line ''No successful paths observed.'')]
          else SummaryLine (blank_line ''Candidate allow rules (successful tests only):'') #
               map (\<lambda>m. PlainLine (''  '' @ format_merged_entry m)) observed_rules) @
         (if changed_payloads = []
          then [PlainLine (blank_line ''No payload differences reported by the selected tests.'')]
          else SummaryLine (blank_line ''Observed payload differences:'') #
               map (\<lambda>m. PlainLine (''  '' @ format_merged_entry m)) changed_payloads) @
         (if failed > 0 \<or> errors > 0
          then [PlainLine (blank_line
                 ''Failed exchanges do not by themselves prove that traffic was blocked.'')]
          else []))"

section \<open>The JSON report\<close>

definition ports_json :: "port_range \<Rightarrow> json" where
  "ports_json r =
     (case r of
        Single p \<Rightarrow> JObj [''port'' \<mapsto> word_to_json p]
      | Range s e \<Rightarrow> JObj [''start'' \<mapsto> word_to_json s, ''end'' \<mapsto> word_to_json e])"

definition merged_json :: "merged_entry \<Rightarrow> json_object" where
  "merged_json m =
     (let base = [''protocol'' \<mapsto> JStr (me_protocol m),
                  ''transport'' \<mapsto> JStr (me_transport m),
                  ''direction'' \<mapsto> JStr (direction_as_str (me_direction m)),
                  ''status'' \<mapsto> JStr (me_status m)];
          with_reason = (if me_status m = ''fail'' \<or> me_status m = ''error''
                         then base(''reason'' \<mapsto> JStr (me_reason m)) else base);
          with_ports = (case me_ports m of
                          Single p \<Rightarrow> with_reason(''port'' \<mapsto> word_to_json p)
                        | Range s e \<Rightarrow> with_reason(''port_start'' \<mapsto> word_to_json s,
                                                  ''port_end'' \<mapsto> word_to_json e,
                                                  ''count'' \<mapsto> word_to_json (me_count m)))
      in put_some ''server_error'' JStr (me_server_error m) with_ports)"

definition rule_json :: "merged_entry \<Rightarrow> json_object" where
  "rule_json m =
     [''protocol'' \<mapsto> JStr (me_protocol m),
      ''transport'' \<mapsto> JStr (me_transport m),
      ''direction'' \<mapsto> JStr (direction_as_str (me_direction m)),
      ''ports'' \<mapsto> ports_json (me_ports m)]"

definition transformation_json :: "merged_entry \<Rightarrow> json_object" where
  "transformation_json m =
     [''kind'' \<mapsto> JStr ''payload_difference'',
      ''protocol'' \<mapsto> JStr (me_protocol m),
      ''transport'' \<mapsto> JStr (me_transport m),
      ''direction'' \<mapsto> JStr (direction_as_str (me_direction m)),
      ''reason'' \<mapsto> JStr (me_reason m),
      ''ports'' \<mapsto> ports_json (me_ports m)]"

text \<open>The version is the package version of \<open>Cargo.toml\<close>.\<close>

definition print_json_export :: "merged_entry list \<Rightarrow> u32 \<Rightarrow> u32 \<Rightarrow> u32 \<Rightarrow> output_line" where
  "print_json_export merged passed failed errors = JsonExport
     [''bimap'' \<mapsto> JObj [''version'' \<mapsto> JStr ''0.4.0'', ''mode'' \<mapsto> JStr ''client''],
      ''summary'' \<mapsto> JObj [''passed'' \<mapsto> word_to_json passed, ''failed'' \<mapsto> word_to_json failed,
                           ''errors'' \<mapsto> word_to_json errors],
      ''observed_rules'' \<mapsto> JArr (map (JObj \<circ> rule_json) (filter is_observed_rule merged)),
      ''observed_transformations'' \<mapsto>
        JArr (map (JObj \<circ> transformation_json) (filter is_changed_payload merged)),
      ''results'' \<mapsto> JArr (map (JObj \<circ> merged_json) merged)]"

section \<open>Lemmas\<close>

text \<open>The paths a list of merged entries names.\<close>

type_synonym path = "string \<times> string \<times> direction \<times> u16"

definition entry_paths :: "merged_entry \<Rightarrow> path set" where
  "entry_paths m =
     (\<lambda>p. (me_protocol m, me_transport m, me_direction m, p)) ` set (range_ports (me_ports m))"

definition result_path :: "test_entry \<Rightarrow> path" where
  "result_path e = (te_protocol e, te_transport e, te_direction e, te_port e)"

lemma Collect_image_filter: "{x \<in> f ` A. Q x} = f ` {a \<in> A. Q (f a)}"
  by blast

text \<open>
  A test of the merged entries by status and reason selects exactly the paths of the results with
  that status and reason.
\<close>

lemma selected_paths:
  "(\<Union>m \<in> set (filter (\<lambda>m. P (me_status m) (me_reason m)) (merge_into_ranges results)). entry_paths m) =
   result_path ` {e \<in> set results. P (result_status (te_result e)) (result_reason (te_result e))}"
    (is "?l = ?r")
proof -
  let ?Q = "\<lambda>(a, t, d, p, s, r, x). P s r"
  let ?path = "\<lambda>(a, t, d, p, s, r, x). (a, t, d, p)"
  have m: "(if P (me_status m) (me_reason m) then entry_paths m else {}) =
      ?path ` {x \<in> set (expand m). ?Q x}" for m
    by (auto simp: entry_paths_def expand_def image_iff)
  have "?l = (\<Union>m \<in> set (merge_into_ranges results).
      if P (me_status m) (me_reason m) then entry_paths m else {})"
    by auto
  also have "\<dots> = ?path ` {x \<in> (\<Union>m \<in> set (merge_into_ranges results). set (expand m)). ?Q x}"
    unfolding m by blast
  also have "\<dots> = ?path ` {x \<in> observe ` set results. ?Q x}"
    by (simp only: set_merge_observations)
  also have "{x \<in> observe ` set results. ?Q x} = observe ` {e \<in> set results. ?Q (observe e)}"
    by (rule Collect_image_filter)
  also have "?path ` (observe ` {e \<in> set results. ?Q (observe e)}) = ?r"
    by (simp only: image_image observe_def result_path_def [abs_def] prod.case)
  finally show ?thesis .
qed

lemma observed_rule_paths:
  "(\<Union>m \<in> set (filter is_observed_rule (merge_into_ranges results)). entry_paths m) =
   result_path ` {e \<in> set results. is_pass (te_result e)}"
  using selected_paths [of "\<lambda>s r. s = ''pass''" results]
  by (simp add: is_observed_rule_def)

lemma changed_payload_paths:
  "(\<Union>m \<in> set (filter is_changed_payload (merge_into_ranges results)). entry_paths m) =
   result_path ` {e \<in> set results. is_fail (te_result e) \<and>
                    contains_str payload_mismatch (result_reason (te_result e))}"
  using selected_paths [of "\<lambda>s r. s = ''fail'' \<and> contains_str payload_mismatch r" results]
  by (simp add: is_changed_payload_def)


section \<open>Properties\<close>

text \<open>
  Property C16: the candidate allow rules cover exactly the paths whose test passed, and the payload
  differences exactly the failed ones whose reason says so.
\<close>

theorem report_selects_exactly:
  "(\<Union>m \<in> set (filter is_observed_rule (merge_into_ranges results)). entry_paths m) =
     result_path ` {e \<in> set results. is_pass (te_result e)} \<and>
   (\<Union>m \<in> set (filter is_changed_payload (merge_into_ranges results)). entry_paths m) =
     result_path ` {e \<in> set results. is_fail (te_result e) \<and>
                      contains_str payload_mismatch (result_reason (te_result e))}"
  by (simp only: observed_rule_paths changed_payload_paths simp_thms)

end
