(* ===== verification/Terminal_Output.thy ===== *)
theory Terminal_Output
  imports Result_Report
begin

text \<open>
  The text the printing functions of \<open>src/output.rs\<close> write for each line of output, with or without
  colours. The colour codes (owo-colors) and the texts of JSON values (serde_json) are parameters.
\<close>

section \<open>Parameters\<close>

record style =
  green_bold :: "string \<Rightarrow> string"
  red_bold :: "string \<Rightarrow> string"
  yellow_bold :: "string \<Rightarrow> string"
  cyan :: "string \<Rightarrow> string"

definition wants_color :: "bool \<Rightarrow> bool \<Rightarrow> bool" where
  "wants_color no_color stdout_is_tty \<longleftrightarrow> (if no_color then False else stdout_is_tty)"

text \<open>On Unix \<open>isatty\<close> of the standard output says 1 for a terminal; elsewhere it is not asked.\<close>

definition is_interactive :: "bool \<Rightarrow> int \<Rightarrow> bool" where
  "is_interactive unix isatty = (if unix then isatty = 1 else True)"

definition line_end :: string where
  "line_end = [CHR 0x0A]"

section \<open>The printing functions\<close>

definition print_pass :: "style \<Rightarrow> bool \<Rightarrow> string \<Rightarrow> string" where
  "print_pass sty color msg =
     (if color then green_bold sty ''PASS'' @ '' '' @ msg else ''PASS '' @ msg) @ line_end"

definition print_fail :: "style \<Rightarrow> bool \<Rightarrow> string \<Rightarrow> string" where
  "print_fail sty color msg =
     (if color then red_bold sty ''FAIL'' @ '' '' @ msg else ''FAIL '' @ msg) @ line_end"

definition print_err :: "style \<Rightarrow> bool \<Rightarrow> string \<Rightarrow> string" where
  "print_err sty color msg =
     (if color then yellow_bold sty ''ERR '' @ '' '' @ msg else ''ERR  '' @ msg) @ line_end"

definition print_summary :: "style \<Rightarrow> bool \<Rightarrow> string \<Rightarrow> string" where
  "print_summary sty color msg = (if color then cyan sty msg else msg) @ line_end"

definition print_fail_live :: "style \<Rightarrow> bool \<Rightarrow> string \<Rightarrow> string" where
  "print_fail_live sty color msg =
     CHR 0x0D # (if color then red_bold sty ''FAIL'' @ '' '' @ msg else ''FAIL '' @ msg)"

definition finish_fail_line :: string where
  "finish_fail_line = line_end"

section \<open>The writer of the log\<close>

text \<open>
  \<open>FlushStderr\<close>: every write to standard error is followed by a flush. \<open>write\<close> and \<open>flush\<close> are those of
  standard error, over its state.
\<close>

definition flush_stderr_write ::
  "(bytes \<Rightarrow> 's \<Rightarrow> ('e + nat) \<times> 's) \<Rightarrow> ('s \<Rightarrow> ('e + unit) \<times> 's) \<Rightarrow> bytes \<Rightarrow> 's \<Rightarrow> ('e + nat) \<times> 's" where
  "flush_stderr_write write flush buf s =
     try_then (write buf s) (\<lambda>n s1. try_then (flush s1) (\<lambda>_ s2. (Inr n, s2)))"

definition flush_stderr_flush :: "('s \<Rightarrow> ('e + unit) \<times> 's) \<Rightarrow> 's \<Rightarrow> ('e + unit) \<times> 's" where
  "flush_stderr_flush flush s = flush s"

section \<open>Lines of output as text\<close>

text \<open>
  The live line joins the entries of the hash map; \<open>order\<close> is the order its iterator gives them in.
  \<open>None\<close> is the panic of the port formatter.
\<close>

definition live_entry :: "bool \<Rightarrow> fail_map \<Rightarrow> live_key \<Rightarrow> string option" where
  "live_entry checks fails key =
     (case key of (protocol, transport, dir, why) \<Rightarrow>
        map_option
          (\<lambda>ports. protocol @ '' '' @ transport @ '' '' @ ports @ '' '' @ dir @ '' '' @ why)
          (format_port_ranges checks (case fails key of Some ps \<Rightarrow> ps | None \<Rightarrow> [])))"

definition live_text :: "bool \<Rightarrow> live_key list \<Rightarrow> fail_map \<Rightarrow> string option" where
  "live_text checks order fails =
     map_option (join_strings ''  '') (those (map (live_entry checks fails) order))"

definition line_text ::
  "style \<Rightarrow> bool \<Rightarrow> (json_object \<Rightarrow> string) \<Rightarrow> (json_object \<Rightarrow> string) \<Rightarrow> bool \<Rightarrow> live_key list \<Rightarrow>
   output_line \<Rightarrow> string option" where
  "line_text sty color compact pretty checks order line =
     (case line of
        JsonLine obj \<Rightarrow> Some (compact obj @ line_end)
      | PassLine msg \<Rightarrow> Some (print_pass sty color msg)
      | FailLine msg \<Rightarrow> Some (print_fail sty color msg)
      | ErrLine msg \<Rightarrow> Some (print_err sty color msg)
      | SummaryLine msg \<Rightarrow> Some (print_summary sty color msg)
      | PlainLine msg \<Rightarrow> Some (msg @ line_end)
      | LiveFail fails \<Rightarrow> map_option (print_fail_live sty color) (live_text checks order fails)
      | EndLive \<Rightarrow> Some finish_fail_line
      | JsonExport obj \<Rightarrow> Some (pretty obj @ line_end))"

section \<open>Lemmas\<close>

text \<open>A line can be printed unless it is a live line one of whose port lists panics.\<close>

lemma those_None_iff: "those xs = None \<longleftrightarrow> None \<in> set xs"
  by (induction xs) (auto split: option.splits)

lemma line_text_None_iff:
  "line_text sty color compact pretty checks order line = None \<longleftrightarrow>
     (\<exists>fails key. line = LiveFail fails \<and> key \<in> set order \<and> live_entry checks fails key = None)"
proof (cases line)
  case (LiveFail fails)
  have "None \<in> live_entry checks fails ` set order \<longleftrightarrow>
      (\<exists>key \<in> set order. live_entry checks fails key = None)"
    by (simp only: image_iff eq_commute [of None])
  with LiveFail show ?thesis by (simp add: line_text_def live_text_def those_None_iff Bex_def)
qed (simp_all add: line_text_def)

text \<open>A write that succeeds leaves the state a successful flush left.\<close>

lemma flush_stderr_write_flushed:
  "flush_stderr_write write flush buf s = (Inr n, s') \<Longrightarrow>
     \<exists>s1. write buf s = (Inr n, s1) \<and> flush_stderr_flush flush s1 = (Inr (), s')"
  by (auto simp: flush_stderr_write_def flush_stderr_flush_def try_then_Inr_iff)

end
