(* ===== verification/Client_Batch.thy ===== *)
theory Client_Batch
  imports Session_Link Probe_Registry Terminal_Output
begin

text \<open>
  One batch of the client (\<open>execute_batch\<close> of \<open>src/orchestrator.rs\<close>): the requests are sent, the
  probes run, the server's reports are collected under a timeout and combined with the local
  results, and every result is counted, printed and kept.
\<close>

section \<open>State and parameters\<close>

record client_config =
  cfg_tests :: "string list"
  cfg_port_ranges :: "(string \<times> u16 \<times> u16) list"
  cfg_bidir :: bool
  cfg_timeout_ms :: u64
  cfg_parallel :: usize
  cfg_target_addr :: socket_addr
  cfg_json :: bool
  cfg_json_export :: bool
  cfg_quiet :: bool

text \<open>
  \<open>ce_envs\<close> is what the probes meet, \<open>ce_terminal\<close> whether standard output is a terminal,
  \<open>ce_debug\<close> the derived \<open>Debug\<close> text of a message.
\<close>

record 'e client_env =
  ce_text :: addr_text
  ce_envs :: "'e session_envs"
  ce_terminal :: bool
  ce_debug :: "message \<Rightarrow> string"

record client_state =
  cl_link :: link
  cl_passed :: u32
  cl_failed :: u32
  cl_errors :: u32
  cl_next_id :: u32
  cl_batch :: "batch_entry list"
  cl_results :: "test_entry list"
  cl_stdout :: "output_line list"

definition client_send :: "message \<Rightarrow> client_state \<Rightarrow> (string + unit) \<times> client_state" where
  "client_send m st = (case link_send m (cl_link st) of (r, l) \<Rightarrow> (r, st\<lparr>cl_link := l\<rparr>))"

definition print_line :: "output_line \<Rightarrow> client_state \<Rightarrow> client_state" where
  "print_line line st = st\<lparr>cl_stdout := cl_stdout st @ [line]\<rparr>"

definition should_render_interactive :: "bool \<Rightarrow> bool \<Rightarrow> bool \<Rightarrow> bool \<Rightarrow> bool" where
  "should_render_interactive terminal quiet json_lines json_export \<longleftrightarrow>
     terminal \<and> \<not> quiet \<and> \<not> json_lines \<and> \<not> json_export"

section \<open>Requests and local probes\<close>

definition test_message :: "batch_entry \<Rightarrow> message" where
  "test_message e =
     Test (be_id e) (be_test_name e) (be_transport_str e) (be_port e)
          (direction_as_str (be_direction e))"

definition client_context :: "client_config \<Rightarrow> socket_addr \<Rightarrow> batch_entry \<Rightarrow> test_context" where
  "client_context cfg local_address e =
     \<lparr>ctx_direction = be_direction e, ctx_transport = be_transport e,
      ctx_target_addr =
        set_port (be_port e)
          (if be_direction e = ServerToClient then local_address else cfg_target_addr cfg),
      ctx_timeout = from_millis (unat (cfg_timeout_ms cfg))\<rparr>"

definition run_client_batch ::
  "client_config \<Rightarrow> 'e test_protocol \<Rightarrow> socket_addr \<Rightarrow> (nat \<Rightarrow> 'e probe_env) \<Rightarrow> batch_entry list \<Rightarrow>
   (u32 \<times> protocol_result) list" where
  "run_client_batch cfg proto local_address env batch =
     run_concurrently env (map (\<lambda>e. (be_id e, proto, client_context cfg local_address e)) batch)"

text \<open>The hash map \<open>completed\<close>: results are inserted as they arrive.\<close>

definition insert_results :: "(u32 \<times> protocol_result) list \<Rightarrow> u32 \<Rightarrow> protocol_result option" where
  "insert_results rs = foldl (\<lambda>m (tid, result). m(tid \<mapsto> result)) Map.empty rs"

section \<open>Reports of the server\<close>

record report_state =
  rs_expected :: "u32 set"
  rs_completed :: "u32 \<Rightarrow> protocol_result option"
  rs_errors :: "u32 \<Rightarrow> string option"

text \<open>A local pass that the server does not confirm is a failure or an error of the server.\<close>

fun override_result ::
  "string \<Rightarrow> transfer_report option \<Rightarrow> transfer_report option \<Rightarrow> protocol_result \<Rightarrow> protocol_result"
  where
  "override_result why sent received (Pass tx rx) =
     (if sent = None \<and> received = None then Error (''server: '' @ why)
      else Fail (''server: '' @ why) tx rx)"
| "override_result why sent received (Fail e tx rx) = Fail e tx rx"
| "override_result why sent received (Error e) = Error e"

definition accept_report ::
  "u32 \<Rightarrow> transfer_report option \<Rightarrow> transfer_report option \<Rightarrow> string option \<Rightarrow> report_state \<Rightarrow>
   string + report_state" where
  "accept_report tid sent received err rs =
     (if tid \<notin> rs_expected rs
      then Inl (''unexpected or duplicate report ID: '' @ show_word tid)
      else let rs1 = rs\<lparr>rs_expected := rs_expected rs - {tid}\<rparr> in
           (case err of
              None \<Rightarrow> Inr rs1
            | Some why \<Rightarrow>
                (case rs_completed rs1 tid of
                   None \<Rightarrow> Inl (''missing local result for test '' @ show_word tid)
                 | Some local_result \<Rightarrow>
                     Inr (rs1\<lparr>rs_completed := (rs_completed rs1)
                                (tid \<mapsto> override_result why sent received local_result),
                              rs_errors := (rs_errors rs1)(tid \<mapsto> why)\<rparr>))))"

function collect_reports ::
  "(message \<Rightarrow> string) \<Rightarrow> duration \<Rightarrow> report_state \<Rightarrow> link \<Rightarrow> (string + report_state) \<times> link" where
  "collect_reports debug limit rs l =
     (if rs_expected rs = {} then (Inr rs, l)
      else (case link_recv_within limit l of
              (Some (Inr (Report tid sent received err)), l') \<Rightarrow>
                (case accept_report tid sent received err rs of
                   Inl e \<Rightarrow> (Inl e, l')
                 | Inr rs' \<Rightarrow> collect_reports debug limit rs' l')
            | (Some (Inr m), l') \<Rightarrow> (Inl (''expected Report, got '' @ debug m), l')
            | (Some (Inl e), l') \<Rightarrow> (Inl (''receive report: '' @ e), l')
            | (None, l') \<Rightarrow> (Inl ''timeout waiting for server reports'', l')))"
  by pat_completeness auto
termination
  by (relation "measure (\<lambda>(d, t, rs, l). length (inbox l))")
     (auto dest: link_recv_within_shorter [OF sym])

declare collect_reports.simps [simp del]

definition receive_timeout :: "client_config \<Rightarrow> duration" where
  "receive_timeout cfg = from_millis (unat (u64_saturating_add (cfg_timeout_ms cfg) 2100))"

section \<open>Counting, printing and keeping the results\<close>

record batch_progress =
  bp_completed :: "u32 \<Rightarrow> protocol_result option"
  bp_errors :: "u32 \<Rightarrow> string option"
  bp_fails :: fail_map
  bp_client :: client_state

definition tally :: "protocol_result \<Rightarrow> client_state \<Rightarrow> client_state" where
  "tally result st =
     (case result of
        Pass s r \<Rightarrow> st\<lparr>cl_passed := cl_passed st + 1\<rparr>
      | Fail e s r \<Rightarrow> st\<lparr>cl_failed := cl_failed st + 1\<rparr>
      | Error e \<Rightarrow> st\<lparr>cl_errors := cl_errors st + 1\<rparr>)"

definition push_fail :: "batch_entry \<Rightarrow> string \<Rightarrow> fail_map \<Rightarrow> fail_map" where
  "push_fail e why fails =
     (let key = (be_test_name e, be_transport_str e, direction_as_str (be_direction e), why)
      in fails(key \<mapsto> (case fails key of Some ports \<Rightarrow> ports | None \<Rightarrow> []) @ [be_port e]))"

definition show_result ::
  "client_config \<Rightarrow> bool \<Rightarrow> batch_entry \<Rightarrow> protocol_result \<Rightarrow> string option \<Rightarrow>
   fail_map \<times> client_state \<Rightarrow> fail_map \<times> client_state" where
  "show_result cfg interactive e result server_error fs =
     (case fs of (fails, st) \<Rightarrow>
        if cfg_json_export cfg then (fails, st)
        else if interactive then
          (if is_pass result then (fails, st)
           else let fails' = push_fail e (result_reason result) fails
                in (fails', print_line (LiveFail fails') st))
        else if cfg_json cfg \<or> \<not> cfg_quiet cfg \<or> \<not> is_pass result then
          (fails, print_line (print_result e result (cfg_json cfg) server_error) st)
        else (fails, st))"

definition keep_result ::
  "client_config \<Rightarrow> batch_entry \<Rightarrow> protocol_result \<Rightarrow> string option \<Rightarrow> client_state \<Rightarrow> client_state" where
  "keep_result cfg e result server_error st =
     (if \<not> cfg_json cfg \<or> cfg_json_export cfg then
        st\<lparr>cl_results := cl_results st @
             [\<lparr>te_protocol = be_test_name e, te_transport = be_transport_str e,
               te_port = be_port e, te_direction = be_direction e, te_result = result,
               te_server_error = server_error\<rparr>]\<rparr>
      else st)"

definition record_entry ::
  "client_config \<Rightarrow> bool \<Rightarrow> batch_entry \<Rightarrow> batch_progress \<Rightarrow> (string + unit) \<times> batch_progress" where
  "record_entry cfg interactive e bp =
     (case bp_completed bp (be_id e) of
        None \<Rightarrow> (Inl (''missing local result for test '' @ show_word (be_id e)), bp)
      | Some result \<Rightarrow>
          let server_error = bp_errors bp (be_id e)
          in (case show_result cfg interactive e result server_error
                     (bp_fails bp, tally result (bp_client bp)) of
                (fails, st) \<Rightarrow>
                  (Inr (),
                   \<lparr>bp_completed = (bp_completed bp)(be_id e := None),
                    bp_errors = (bp_errors bp)(be_id e := None),
                    bp_fails = fails,
                    bp_client = keep_result cfg e result server_error st\<rparr>)))"

definition record_batch ::
  "client_config \<Rightarrow> bool \<Rightarrow> batch_entry list \<Rightarrow> report_state \<Rightarrow> client_state \<Rightarrow>
   (string + unit) \<times> client_state" where
  "record_batch cfg interactive batch rs st =
     (case for_each (record_entry cfg interactive) batch
             \<lparr>bp_completed = rs_completed rs, bp_errors = rs_errors rs, bp_fails = Map.empty,
              bp_client = st\<rparr> of
        (Inl e, bp) \<Rightarrow> (Inl e, bp_client bp)
      | (Inr _, bp) \<Rightarrow>
          (Inr (), if interactive then print_line EndLive (bp_client bp) else bp_client bp))"

section \<open>The batch\<close>

definition execute_batch ::
  "client_config \<Rightarrow> 'e client_env \<Rightarrow> 'e test_protocol \<Rightarrow> batch_entry list \<Rightarrow> client_state \<Rightarrow>
   (string + unit) \<times> client_state" where
  "execute_batch cfg ce proto batch st0 =
     try_then (for_each (\<lambda>e. client_send (test_message e)) batch st0) (\<lambda>_ st1.
       try_then (client_send BatchEnd st1) (\<lambda>_ st2.
         case link_local (cl_link st2) of
           Inl e \<Rightarrow> (Inl e, st2)
         | Inr local_address \<Rightarrow>
             let env = ce_envs ce (length (outbox (cl_link st2)));
                 completed = insert_results (run_client_batch cfg proto local_address env batch);
                 rs0 = \<lparr>rs_expected = set (map be_id batch), rs_completed = completed,
                        rs_errors = Map.empty\<rparr>;
                 interactive = should_render_interactive (ce_terminal ce) (cfg_quiet cfg)
                                 (cfg_json cfg) (cfg_json_export cfg)
             in (case collect_reports (ce_debug ce) (receive_timeout cfg) rs0 (cl_link st2) of
                   (Inl e, l) \<Rightarrow> (Inl e, st2\<lparr>cl_link := l\<rparr>)
                 | (Inr rs, l) \<Rightarrow> record_batch cfg interactive batch rs (st2\<lparr>cl_link := l\<rparr>))))"

section \<open>Local results\<close>

lemma insert_results_map_of: "insert_results rs = map_of (rev rs)"
proof -
  have "foldl (\<lambda>m (tid, result). m(tid \<mapsto> result)) m rs = m ++ map_of (rev rs)" for m
    by (induction rs arbitrary: m) (auto simp: map_add_def fun_eq_iff split: option.splits)
  then show ?thesis by (simp add: insert_results_def)
qed

lemma dom_insert_results: "dom (insert_results rs) = set (map fst rs)"
  by (simp add: insert_results_map_of dom_map_of_conv_image_fst)

lemma insert_results_lookup:
  "distinct (map fst rs) \<Longrightarrow> (i, r) \<in> set rs \<Longrightarrow> insert_results rs i = Some r"
  by (simp add: insert_results_map_of map_of_is_SomeI rev_map [symmetric])

lemma mset_ids_run_client_batch:
  "mset (map fst (run_client_batch cfg proto a env batch)) = mset (map be_id batch)"
  by (simp only: run_client_batch_def mset_ids_run_concurrently map_map o_def fst_conv)

text \<open>After the probes ran, every test of the batch has its result, and no other has one.\<close>

lemma completed_dom:
  "dom (insert_results (run_client_batch cfg proto a env batch)) = set (map be_id batch)"
  using mset_ids_run_client_batch [of cfg proto a env batch]
  by (metis dom_insert_results mset_eq_setD)

lemma run_client_batch_nth:
  assumes "k < length batch"
  shows "(be_id (batch ! k), run_protocol proto (env k) (client_context cfg a (batch ! k)))
           \<in> set (run_client_batch cfg proto a env batch)"
proof -
  let ?jobs = "map (\<lambda>e. (be_id e, proto, client_context cfg a e)) batch"
  have "(k, ?jobs ! k) \<in> set (enumerate 0 ?jobs)"
    using assms by (auto simp: in_set_enumerate_eq)
  then have "run_job env (k, ?jobs ! k) \<in> set (run_client_batch cfg proto a env batch)"
    by (simp add: run_client_batch_def set_run_concurrently)
  with assms show ?thesis by (simp add: run_job_def)
qed

lemma completed_nth:
  assumes "distinct (map be_id batch)" and "k < length batch"
  shows "insert_results (run_client_batch cfg proto a env batch) (be_id (batch ! k)) =
           Some (run_protocol proto (env k) (client_context cfg a (batch ! k)))"
proof (rule insert_results_lookup)
  show "distinct (map fst (run_client_batch cfg proto a env batch))"
    using assms(1) mset_ids_run_client_batch [of cfg proto a env batch]
    by (metis mset_eq_imp_distinct_iff)
qed (rule run_client_batch_nth [OF assms(2)])

section \<open>Collecting the reports\<close>

lemma override_result_not_pass: "\<not> is_pass (override_result why sent received r)"
  by (cases r) simp_all

text \<open>
  What holds between the local results \<open>done0\<close> and the state of the loop: a result without a server
  error is the local one, a result with one is the local one overridden.
\<close>

definition reports_inv :: "u32 set \<Rightarrow> (u32 \<Rightarrow> protocol_result option) \<Rightarrow> report_state \<Rightarrow> bool" where
  "reports_inv ids done0 rs \<longleftrightarrow>
     rs_expected rs \<subseteq> ids \<and> dom (rs_completed rs) = dom done0 \<and>
     (\<forall>i. rs_errors rs i = None \<longrightarrow> rs_completed rs i = done0 i) \<and>
     (\<forall>i why. rs_errors rs i = Some why \<longrightarrow>
        i \<notin> rs_expected rs \<and>
        (\<exists>sent received. rs_completed rs i = map_option (override_result why sent received) (done0 i)))"

lemma reports_inv_init:
  "reports_inv ids done0 \<lparr>rs_expected = ids, rs_completed = done0, rs_errors = Map.empty\<rparr>"
  by (simp add: reports_inv_def)

lemma reports_invD:
  assumes "reports_inv ids done0 rs"
  shows "rs_expected rs \<subseteq> ids"
    and "dom (rs_completed rs) = dom done0"
    and "rs_errors rs i = None \<Longrightarrow> rs_completed rs i = done0 i"
    and "rs_errors rs i = Some why \<Longrightarrow> i \<notin> rs_expected rs"
    and "rs_errors rs i = Some why \<Longrightarrow>
          \<exists>sent received. rs_completed rs i = map_option (override_result why sent received) (done0 i)"
  using assms unfolding reports_inv_def by (simp, simp, simp, simp, blast)

lemma reports_invI:
  assumes "rs_expected rs \<subseteq> ids" and "dom (rs_completed rs) = dom done0"
    and "\<And>i. rs_errors rs i = None \<Longrightarrow> rs_completed rs i = done0 i"
    and "\<And>i why. rs_errors rs i = Some why \<Longrightarrow> i \<notin> rs_expected rs \<and>
           (\<exists>s v. rs_completed rs i = map_option (override_result why s v) (done0 i))"
  shows "reports_inv ids done0 rs"
  using assms by (simp add: reports_inv_def)

lemma accept_report_inv:
  assumes "reports_inv ids done0 rs" and "accept_report tid sent received err rs = Inr rs'"
  shows "reports_inv ids done0 rs' \<and> tid \<in> rs_expected rs \<and> rs_expected rs' = rs_expected rs - {tid}"
proof -
  from assms(2) have tid: "tid \<in> rs_expected rs"
    by (auto simp: accept_report_def split: if_splits)
  note inv = reports_invD [OF assms(1)]
  from tid inv(4) have none: "rs_errors rs tid = None" by (cases "rs_errors rs tid") auto
  show ?thesis
  proof (cases err)
    case None
    with assms(2) tid have "rs' = rs\<lparr>rs_expected := rs_expected rs - {tid}\<rparr>"
      by (simp add: accept_report_def)
    with assms(1) tid show ?thesis
      unfolding reports_inv_def by (simp, blast)
  next
    case (Some why)
    with assms(2) tid obtain r where r: "rs_completed rs tid = Some r"
      and rs': "rs' = rs\<lparr>rs_expected := rs_expected rs - {tid},
                 rs_completed := (rs_completed rs)(tid \<mapsto> override_result why sent received r),
                 rs_errors := (rs_errors rs)(tid \<mapsto> why)\<rparr>"
      by (auto simp: accept_report_def Let_def split: option.splits)
    have d: "done0 tid = Some r" using inv(3) [OF none] r by simp
    have dom': "dom (rs_completed rs') = dom done0" using rs' inv(2) d by auto
    have none': "rs_errors rs' i = None \<Longrightarrow> rs_completed rs' i = done0 i" for i
      using rs' inv(3) [of i] by (simp split: if_splits)
    have some': "i \<notin> rs_expected rs' \<and>
        (\<exists>s v. rs_completed rs' i = map_option (override_result w s v) (done0 i))"
      if "rs_errors rs' i = Some w" for i w
    proof (cases "i = tid")
      case True
      with that rs' d show ?thesis by auto
    next
      case False
      with that rs' have "rs_errors rs i = Some w" by simp
      with False rs' inv(4,5) show ?thesis by simp
    qed
    have "rs_expected rs' \<subseteq> ids" using inv(1) rs' by auto
    then have "reports_inv ids done0 rs'"
      by (rule reports_invI [OF _ dom' none' some'])
    with rs' tid show ?thesis by simp
  qed
qed

lemma collect_reports_inv:
  assumes "reports_inv ids done0 rs" and "collect_reports debug limit rs l = (Inr rs', l')"
  shows "reports_inv ids done0 rs' \<and> rs_expected rs' = {}"
  using assms
proof (induction debug limit rs l rule: collect_reports.induct)
  case (1 debug limit rs l)
  show ?case
  proof (cases "rs_expected rs = {}")
    case True
    with 1(2,3) show ?thesis by (simp add: collect_reports.simps [of debug limit rs l])
  next
    case False
    with 1(3) obtain tid sent received err l1 rs1
      where recv: "link_recv_within limit l = (Some (Inr (Report tid sent received err)), l1)"
        and acc: "accept_report tid sent received err rs = Inr rs1"
        and rest: "collect_reports debug limit rs1 l1 = (Inr rs', l')"
      by (auto simp: collect_reports.simps [of debug limit rs l]
          split: prod.splits option.splits sum.splits message.splits)
    from accept_report_inv [OF 1(2) acc] have "reports_inv ids done0 rs1" by blast
    from 1(1) [OF False recv [symmetric] refl refl refl acc this rest] show ?thesis .
  qed
qed

text \<open>
  The reports the loop received when it ended well: one for each test it waited for, and what it
  recorded of a test is what the report of this test says.
\<close>

fun report_id :: "message \<Rightarrow> u32 option" where
  "report_id (Report tid sent received err) = Some tid"
| "report_id _ = None"

lemma accept_report_effect:
  assumes "accept_report tid sent received err rs = Inr rs'"
  shows "tid \<in> rs_expected rs \<and> rs_expected rs' = rs_expected rs - {tid} \<and>
         rs_errors rs' = (rs_errors rs)(tid := case err of None \<Rightarrow> rs_errors rs tid | Some why \<Rightarrow> Some why) \<and>
         rs_completed rs' = (rs_completed rs)(tid := case err of None \<Rightarrow> rs_completed rs tid
           | Some why \<Rightarrow> map_option (override_result why sent received) (rs_completed rs tid))"
  using assms by (auto simp: accept_report_def Let_def split: if_splits option.splits)

lemma collect_reports_heard:
  "collect_reports debug limit rs l = (Inr rs', l') \<Longrightarrow>
   \<exists>heard. inbox l = heard @ inbox l' \<and> distinct (map report_id (arrivals heard)) \<and>
     set (map report_id (arrivals heard)) = Some ` rs_expected rs \<and>
     (\<forall>i. i \<notin> rs_expected rs \<longrightarrow> rs_errors rs' i = rs_errors rs i \<and> rs_completed rs' i = rs_completed rs i) \<and>
     (\<forall>tid sent received err. Report tid sent received err \<in> set (arrivals heard) \<longrightarrow>
        rs_errors rs' tid = (case err of None \<Rightarrow> rs_errors rs tid | Some why \<Rightarrow> Some why) \<and>
        rs_completed rs' tid = (case err of None \<Rightarrow> rs_completed rs tid
          | Some why \<Rightarrow> map_option (override_result why sent received) (rs_completed rs tid)))"
proof (induction debug limit rs l rule: collect_reports.induct)
  case (1 debug limit rs l)
  show ?case
  proof (cases "rs_expected rs = {}")
    case True
    with 1(2) show ?thesis
      by (intro exI [of _ "[]"]) (simp add: collect_reports.simps [of debug limit rs l])
  next
    case False
    with 1(2) obtain tid sent received err l1 rs1
      where recv: "link_recv_within limit l = (Some (Inr (Report tid sent received err)), l1)"
        and acc: "accept_report tid sent received err rs = Inr rs1"
        and rest: "collect_reports debug limit rs1 l1 = (Inr rs', l')"
      by (auto simp: collect_reports.simps [of debug limit rs l]
          split: prod.splits option.splits sum.splits message.splits)
    from recv obtain h1 where h1: "inbox l = h1 @ inbox l1" "arrivals h1 = [Report tid sent received err]"
      by (rule link_recv_within_taken)
    note eff = accept_report_effect [OF acc]
    from 1(1) [OF False recv [symmetric] refl refl refl acc rest] obtain h2 where h2: "inbox l1 = h2 @ inbox l'"
      and dist: "distinct (map report_id (arrivals h2))"
      and ids: "set (map report_id (arrivals h2)) = Some ` (rs_expected rs - {tid})"
      and out: "\<And>i. i \<notin> rs_expected rs1 \<Longrightarrow> rs_errors rs' i = rs_errors rs1 i \<and> rs_completed rs' i = rs_completed rs1 i"
      and rep: "\<And>i s v e. Report i s v e \<in> set (arrivals h2) \<Longrightarrow>
        rs_errors rs' i = (case e of None \<Rightarrow> rs_errors rs1 i | Some why \<Rightarrow> Some why) \<and>
        rs_completed rs' i = (case e of None \<Rightarrow> rs_completed rs1 i
          | Some why \<Rightarrow> map_option (override_result why s v) (rs_completed rs1 i))"
      using eff by auto
    have other: "i \<noteq> tid" if "Report i s v e \<in> set (arrivals h2)" for i s v e
    proof -
      from that have "report_id (Report i s v e) \<in> set (map report_id (arrivals h2))" by (simp only: set_map imageI)
      with ids show ?thesis by auto
    qed
    show ?thesis
    proof (intro exI [of _ "h1 @ h2"] conjI allI impI)
      show "inbox l = (h1 @ h2) @ inbox l'" using h1 h2 by simp
      show "distinct (map report_id (arrivals (h1 @ h2)))" using h1 dist ids by auto
      show "set (map report_id (arrivals (h1 @ h2))) = Some ` rs_expected rs"
        using h1 ids eff by auto
    next
      fix i assume "i \<notin> rs_expected rs"
      with out [of i] eff show "rs_errors rs' i = rs_errors rs i" "rs_completed rs' i = rs_completed rs i"
        by auto
    next
      fix i s v e assume "Report i s v e \<in> set (arrivals (h1 @ h2))"
      then consider "i = tid \<and> s = sent \<and> v = received \<and> e = err" | "Report i s v e \<in> set (arrivals h2)"
        using h1 by auto
      then have "rs_errors rs' i = (case e of None \<Rightarrow> rs_errors rs i | Some why \<Rightarrow> Some why) \<and>
        rs_completed rs' i = (case e of None \<Rightarrow> rs_completed rs i
          | Some why \<Rightarrow> map_option (override_result why s v) (rs_completed rs i))"
      proof cases
        case 1
        with out [of tid] eff show ?thesis by (auto split: option.splits)
      next
        case 2
        from rep [OF 2] other [OF 2] eff show ?thesis by (auto split: option.splits)
      qed
      then show "rs_errors rs' i = (case e of None \<Rightarrow> rs_errors rs i | Some why \<Rightarrow> Some why)"
        "rs_completed rs' i = (case e of None \<Rightarrow> rs_completed rs i
          | Some why \<Rightarrow> map_option (override_result why s v) (rs_completed rs i))" by simp_all
    qed
  qed
qed

lemma collect_reports_link:
  "outbox (snd (collect_reports debug limit rs l)) = outbox l \<and>
   send_fault (snd (collect_reports debug limit rs l)) = send_fault l \<and>
   link_local (snd (collect_reports debug limit rs l)) = link_local l"
proof (induction debug limit rs l rule: collect_reports.induct)
  case (1 debug limit rs l)
  obtain ev l1 where recv: "link_recv_within limit l = (ev, l1)" by fastforce
  have same: "outbox l1 = outbox l" "send_fault l1 = send_fault l" "link_local l1 = link_local l"
    using link_recv_within_outbox [of limit l] recv by simp_all
  show ?case
    using 1 recv same
    by (auto simp: collect_reports.simps [of debug limit rs l]
        split: prod.splits option.splits sum.splits message.splits)
qed

section \<open>Recording the results\<close>

text \<open>What the loop does for one test once its result and its server error are known.\<close>

definition note_entry ::
  "client_config \<Rightarrow> bool \<Rightarrow> (u32 \<Rightarrow> protocol_result) \<Rightarrow> (u32 \<Rightarrow> string option) \<Rightarrow> batch_entry \<Rightarrow>
   fail_map \<times> client_state \<Rightarrow> fail_map \<times> client_state" where
  "note_entry cfg interactive res err e fs =
     (case show_result cfg interactive e (res (be_id e)) (err (be_id e))
             (fst fs, tally (res (be_id e)) (snd fs)) of
        (fails, st) \<Rightarrow> (fails, keep_result cfg e (res (be_id e)) (err (be_id e)) st))"

lemma record_entries:
  assumes "distinct (map be_id batch)"
    and "\<And>e. e \<in> set batch \<Longrightarrow>
           bp_completed bp (be_id e) = Some (res (be_id e)) \<and> bp_errors bp (be_id e) = err (be_id e)"
  shows "\<exists>bp'. for_each (record_entry cfg interactive) batch bp = (Inr (), bp') \<and>
           (bp_fails bp', bp_client bp') =
             fold (note_entry cfg interactive res err) batch (bp_fails bp, bp_client bp)"
  using assms
proof (induction batch arbitrary: bp)
  case Nil
  then show ?case by simp
next
  case (Cons e es)
  from Cons.prems(2) [of e] have e: "bp_completed bp (be_id e) = Some (res (be_id e))"
    "bp_errors bp (be_id e) = err (be_id e)" by simp_all
  let ?fs = "show_result cfg interactive e (res (be_id e)) (err (be_id e))
               (bp_fails bp, tally (res (be_id e)) (bp_client bp))"
  define bp1 where "bp1 =
    \<lparr>bp_completed = (bp_completed bp)(be_id e := None),
     bp_errors = (bp_errors bp)(be_id e := None), bp_fails = fst ?fs,
     bp_client = keep_result cfg e (res (be_id e)) (err (be_id e)) (snd ?fs)\<rparr>"
  have step: "record_entry cfg interactive e bp = (Inr (), bp1)"
    and note1: "(bp_fails bp1, bp_client bp1) =
                  note_entry cfg interactive res err e (bp_fails bp, bp_client bp)"
    and maps: "bp_completed bp1 = (bp_completed bp)(be_id e := None)"
              "bp_errors bp1 = (bp_errors bp)(be_id e := None)"
    using e by (simp_all add: bp1_def record_entry_def note_entry_def Let_def case_prod_beta)
  have "\<exists>bp'. for_each (record_entry cfg interactive) es bp1 = (Inr (), bp') \<and>
           (bp_fails bp', bp_client bp') =
             fold (note_entry cfg interactive res err) es (bp_fails bp1, bp_client bp1)"
  proof (rule Cons.IH)
    show "distinct (map be_id es)" using Cons.prems(1) by simp
    fix e' assume e': "e' \<in> set es"
    then have "be_id e' \<in> set (map be_id es)" by simp
    then have "be_id e' \<noteq> be_id e" using Cons.prems(1) by auto
    with e' show "bp_completed bp1 (be_id e') = Some (res (be_id e')) \<and>
        bp_errors bp1 (be_id e') = err (be_id e')"
      using Cons.prems(2) [of e'] maps by simp
  qed
  then show ?case by (simp add: step note1)
qed

lemma tally_fields [simp]:
  "cl_link (tally r st) = cl_link st" "cl_next_id (tally r st) = cl_next_id st"
  "cl_batch (tally r st) = cl_batch st" "cl_results (tally r st) = cl_results st"
  "cl_stdout (tally r st) = cl_stdout st"
  "cl_passed (tally r st) = cl_passed st + (if is_pass r then 1 else 0)"
  "cl_failed (tally r st) = cl_failed st + (if is_fail r then 1 else 0)"
  "cl_errors (tally r st) = cl_errors st + (if is_error r then 1 else 0)"
  by (cases r; simp add: tally_def)+

lemma show_result_fields [simp]:
  "cl_link (snd (show_result cfg i e r se fs)) = cl_link (snd fs)"
  "cl_next_id (snd (show_result cfg i e r se fs)) = cl_next_id (snd fs)"
  "cl_batch (snd (show_result cfg i e r se fs)) = cl_batch (snd fs)"
  "cl_results (snd (show_result cfg i e r se fs)) = cl_results (snd fs)"
  "cl_passed (snd (show_result cfg i e r se fs)) = cl_passed (snd fs)"
  "cl_failed (snd (show_result cfg i e r se fs)) = cl_failed (snd fs)"
  "cl_errors (snd (show_result cfg i e r se fs)) = cl_errors (snd fs)"
  by (cases fs; simp add: show_result_def print_line_def Let_def)+

lemma keep_result_fields [simp]:
  "cl_link (keep_result cfg e r se st) = cl_link st"
  "cl_next_id (keep_result cfg e r se st) = cl_next_id st"
  "cl_batch (keep_result cfg e r se st) = cl_batch st"
  "cl_stdout (keep_result cfg e r se st) = cl_stdout st"
  "cl_passed (keep_result cfg e r se st) = cl_passed st"
  "cl_failed (keep_result cfg e r se st) = cl_failed st"
  "cl_errors (keep_result cfg e r se st) = cl_errors st"
  by (simp_all add: keep_result_def)

definition kept_entry :: "(u32 \<Rightarrow> protocol_result) \<Rightarrow> (u32 \<Rightarrow> string option) \<Rightarrow> batch_entry \<Rightarrow> test_entry"
  where "kept_entry res err e =
     \<lparr>te_protocol = be_test_name e, te_transport = be_transport_str e, te_port = be_port e,
      te_direction = be_direction e, te_result = res (be_id e), te_server_error = err (be_id e)\<rparr>"

definition keeps_results :: "client_config \<Rightarrow> bool" where
  "keeps_results cfg \<longleftrightarrow> \<not> cfg_json cfg \<or> cfg_json_export cfg"

definition count_where :: "(protocol_result \<Rightarrow> bool) \<Rightarrow> (u32 \<Rightarrow> protocol_result) \<Rightarrow> batch_entry list \<Rightarrow> nat" where
  "count_where p res batch = length (filter (\<lambda>e. p (res (be_id e))) batch)"

lemma note_entry_fields:
  "cl_link (snd (note_entry cfg i res err e fs)) = cl_link (snd fs)"
  "cl_next_id (snd (note_entry cfg i res err e fs)) = cl_next_id (snd fs)"
  "cl_batch (snd (note_entry cfg i res err e fs)) = cl_batch (snd fs)"
  "cl_results (snd (note_entry cfg i res err e fs)) =
     cl_results (snd fs) @ (if keeps_results cfg then [kept_entry res err e] else [])"
  "cl_passed (snd (note_entry cfg i res err e fs)) = cl_passed (snd fs) + of_nat (count_where is_pass res [e])"
  "cl_failed (snd (note_entry cfg i res err e fs)) = cl_failed (snd fs) + of_nat (count_where is_fail res [e])"
  "cl_errors (snd (note_entry cfg i res err e fs)) = cl_errors (snd fs) + of_nat (count_where is_error res [e])"
proof -
  let ?s = "show_result cfg i e (res (be_id e)) (err (be_id e)) (fst fs, tally (res (be_id e)) (snd fs))"
  have note_eq: "snd (note_entry cfg i res err e fs) = keep_result cfg e (res (be_id e)) (err (be_id e)) (snd ?s)"
    by (simp add: note_entry_def case_prod_beta)
  show "cl_results (snd (note_entry cfg i res err e fs)) =
     cl_results (snd fs) @ (if keeps_results cfg then [kept_entry res err e] else [])"
    unfolding note_eq by (simp add: keep_result_def keeps_results_def kept_entry_def)
qed (simp_all add: note_entry_def case_prod_beta count_where_def)

lemma note_entries_fields:
  "cl_link (snd (fold (note_entry cfg i res err) batch fs)) = cl_link (snd fs)"
  "cl_next_id (snd (fold (note_entry cfg i res err) batch fs)) = cl_next_id (snd fs)"
  "cl_batch (snd (fold (note_entry cfg i res err) batch fs)) = cl_batch (snd fs)"
  "cl_results (snd (fold (note_entry cfg i res err) batch fs)) =
     cl_results (snd fs) @ (if keeps_results cfg then map (kept_entry res err) batch else [])"
  "cl_passed (snd (fold (note_entry cfg i res err) batch fs)) =
     cl_passed (snd fs) + of_nat (count_where is_pass res batch)"
  "cl_failed (snd (fold (note_entry cfg i res err) batch fs)) =
     cl_failed (snd fs) + of_nat (count_where is_fail res batch)"
  "cl_errors (snd (fold (note_entry cfg i res err) batch fs)) =
     cl_errors (snd fs) + of_nat (count_where is_error res batch)"
  by (induction batch arbitrary: fs) (simp_all add: note_entry_fields count_where_def)

text \<open>The lines printed for a batch when the output is not a live terminal.\<close>

definition printed ::
  "client_config \<Rightarrow> (u32 \<Rightarrow> protocol_result) \<Rightarrow> (u32 \<Rightarrow> string option) \<Rightarrow> batch_entry list \<Rightarrow>
   output_line list" where
  "printed cfg res err batch =
     (if cfg_json_export cfg then []
      else map (\<lambda>e. print_result e (res (be_id e)) (cfg_json cfg) (err (be_id e)))
             (filter (\<lambda>e. cfg_json cfg \<or> \<not> cfg_quiet cfg \<or> \<not> is_pass (res (be_id e))) batch))"

lemma note_entries_stdout:
  "cl_stdout (snd (fold (note_entry cfg False res err) batch fs)) =
     cl_stdout (snd fs) @ printed cfg res err batch"
proof (induction batch arbitrary: fs)
  case (Cons e es)
  have "cl_stdout (snd (note_entry cfg False res err e fs)) = cl_stdout (snd fs) @ printed cfg res err [e]"
    by (simp add: note_entry_def show_result_def printed_def print_line_def)
  then show ?case by (simp add: Cons.IH) (simp add: printed_def)
qed (simp add: printed_def)

lemma record_batch_spec:
  assumes "distinct (map be_id batch)"
    and "\<And>e. e \<in> set batch \<Longrightarrow>
           rs_completed rs (be_id e) = Some (res (be_id e)) \<and> rs_errors rs (be_id e) = err (be_id e)"
  shows "record_batch cfg interactive batch rs st =
           (Inr (), (if interactive then print_line EndLive else id)
                      (snd (fold (note_entry cfg interactive res err) batch (Map.empty, st))))"
proof -
  let ?bp = "\<lparr>bp_completed = rs_completed rs, bp_errors = rs_errors rs, bp_fails = Map.empty,
              bp_client = st\<rparr>"
  obtain bp' where "for_each (record_entry cfg interactive) batch ?bp = (Inr (), bp')"
    and "(bp_fails bp', bp_client bp') =
           fold (note_entry cfg interactive res err) batch (bp_fails ?bp, bp_client ?bp)"
    using record_entries [OF assms(1), of ?bp res err cfg interactive] assms(2) by auto
  moreover from this(2) have
    "bp_client bp' = snd (fold (note_entry cfg interactive res err) batch (Map.empty, st))"
    by (metis snd_conv batch_progress.select_convs(3,4))
  ultimately show ?thesis by (simp add: record_batch_def)
qed

section \<open>Sending\<close>

definition sent_to :: "client_state \<Rightarrow> message list \<Rightarrow> client_state" where
  "sent_to st ms = st\<lparr>cl_link := (cl_link st)\<lparr>outbox := outbox (cl_link st) @ ms\<rparr>\<rparr>"

lemma sent_to_Nil [simp]: "sent_to st [] = st"
  by (simp add: sent_to_def)

lemma sent_to_sent_to [simp]: "sent_to (sent_to st ms) ns = sent_to st (ms @ ns)"
  by (simp add: sent_to_def)

lemma sent_to_fields [simp]:
  "outbox (cl_link (sent_to st ms)) = outbox (cl_link st) @ ms"
  "inbox (cl_link (sent_to st ms)) = inbox (cl_link st)"
  "send_fault (cl_link (sent_to st ms)) = send_fault (cl_link st)"
  "link_local (cl_link (sent_to st ms)) = link_local (cl_link st)"
  "cl_passed (sent_to st ms) = cl_passed st" "cl_failed (sent_to st ms) = cl_failed st"
  "cl_errors (sent_to st ms) = cl_errors st" "cl_next_id (sent_to st ms) = cl_next_id st"
  "cl_batch (sent_to st ms) = cl_batch st" "cl_results (sent_to st ms) = cl_results st"
  "cl_stdout (sent_to st ms) = cl_stdout st"
  by (simp_all add: sent_to_def)

lemma client_send_success: "client_send m st = (Inr (), st') \<Longrightarrow> st' = sent_to st [m]"
  by (auto simp: client_send_def link_send_def sent_to_def split: option.splits)

lemma client_sends_success:
  "for_each (\<lambda>e. client_send (f e)) es st = (Inr (), st') \<Longrightarrow> st' = sent_to st (map f es)"
proof (induction es arbitrary: st)
  case (Cons e es)
  then obtain st1 where "client_send (f e) st = (Inr (), st1)"
    and "for_each (\<lambda>e. client_send (f e)) es st1 = (Inr (), st')"
    by (auto simp: try_then_Inr_iff)
  from Cons.IH [OF this(2)] client_send_success [OF this(1)] show ?case by simp
qed simp

lemma client_send_healthy:
  "send_fault (cl_link st) = (\<lambda>_. None) \<Longrightarrow> client_send m st = (Inr (), sent_to st [m])"
  by (simp add: client_send_def sent_to_def)

lemma client_sends_healthy:
  "send_fault (cl_link st) = (\<lambda>_. None) \<Longrightarrow>
   for_each (\<lambda>e. client_send (f e)) es st = (Inr (), sent_to st (map f es))"
  by (induction es arbitrary: st) (simp_all add: client_send_healthy)

section \<open>The batch as a whole\<close>

text \<open>The result of the \<open>k\<close>-th local probe, run after \<open>sent\<close> messages were sent.\<close>

definition local_result ::
  "client_config \<Rightarrow> 'e client_env \<Rightarrow> 'e test_protocol \<Rightarrow> socket_addr \<Rightarrow> nat \<Rightarrow> batch_entry list \<Rightarrow> nat \<Rightarrow>
   protocol_result" where
  "local_result cfg ce proto a sent batch k =
     run_protocol proto (ce_envs ce sent k) (client_context cfg a (batch ! k))"

definition batch_messages :: "batch_entry list \<Rightarrow> message list" where
  "batch_messages batch = map test_message batch @ [BatchEnd]"

text \<open>How a batch that returned \<open>Ok\<close> changed the state, with \<open>res\<close> and \<open>err\<close> what it recorded.\<close>

definition batch_recorded ::
  "client_config \<Rightarrow> batch_entry list \<Rightarrow> (u32 \<Rightarrow> protocol_result) \<Rightarrow> (u32 \<Rightarrow> string option) \<Rightarrow>
   client_state \<Rightarrow> client_state \<Rightarrow> bool" where
  "batch_recorded cfg batch res err st st' \<longleftrightarrow>
     outbox (cl_link st') = outbox (cl_link st) @ batch_messages batch \<and>
     send_fault (cl_link st') = send_fault (cl_link st) \<and>
     link_local (cl_link st') = link_local (cl_link st) \<and>
     cl_next_id st' = cl_next_id st \<and> cl_batch st' = cl_batch st \<and>
     cl_results st' = cl_results st @ (if keeps_results cfg then map (kept_entry res err) batch else []) \<and>
     cl_passed st' = cl_passed st + of_nat (count_where is_pass res batch) \<and>
     cl_failed st' = cl_failed st + of_nat (count_where is_fail res batch) \<and>
     cl_errors st' = cl_errors st + of_nat (count_where is_error res batch)"

text \<open>What a batch that returned \<open>Ok\<close> did after sending: the reports were collected, the results noted.\<close>

lemma execute_batch_collected:
  assumes "distinct (map be_id batch)" and "execute_batch cfg ce proto batch st = (Inr (), st')"
  obtains a rs l i where "link_local (cl_link st) = Inr a"
    and "collect_reports (ce_debug ce) (receive_timeout cfg)
       \<lparr>rs_expected = set (map be_id batch),
        rs_completed = insert_results (run_client_batch cfg proto a
          (ce_envs ce (length (outbox (cl_link (sent_to st (batch_messages batch)))))) batch),
        rs_errors = Map.empty\<rparr> (cl_link (sent_to st (batch_messages batch))) = (Inr rs, l)"
    and "i = should_render_interactive (ce_terminal ce) (cfg_quiet cfg) (cfg_json cfg) (cfg_json_export cfg)"
    and "st' = (if i then print_line EndLive else id)
           (snd (fold (note_entry cfg i (the \<circ> rs_completed rs) (rs_errors rs)) batch
              (Map.empty, (sent_to st (batch_messages batch))\<lparr>cl_link := l\<rparr>)))"
proof -
  let ?st2 = "sent_to st (batch_messages batch)"
  let ?n = "length (outbox (cl_link ?st2))"
  let ?i = "should_render_interactive (ce_terminal ce) (cfg_quiet cfg) (cfg_json cfg) (cfg_json_export cfg)"
  obtain st1 st2 where s1: "for_each (\<lambda>e. client_send (test_message e)) batch st = (Inr (), st1)"
    and s2: "client_send BatchEnd st1 = (Inr (), st2)"
    using assms(2) by (auto simp: execute_batch_def try_then_Inr_iff)
  have st2: "st2 = ?st2"
    using client_send_success [OF s2] client_sends_success [OF s1] by (simp add: batch_messages_def)
  from assms(2) obtain a rs l where a: "link_local (cl_link st) = Inr a"
    and coll: "collect_reports (ce_debug ce) (receive_timeout cfg)
       \<lparr>rs_expected = set (map be_id batch),
        rs_completed = insert_results (run_client_batch cfg proto a (ce_envs ce ?n) batch),
        rs_errors = Map.empty\<rparr> (cl_link ?st2) = (Inr rs, l)"
    and rec: "record_batch cfg ?i batch rs (?st2\<lparr>cl_link := l\<rparr>) = (Inr (), st')"
    by (auto simp: execute_batch_def s1 s2 st2 Let_def split: sum.splits prod.splits)
  from collect_reports_inv [OF reports_inv_init coll]
  have inv: "reports_inv (set (map be_id batch)) (insert_results (run_client_batch cfg proto a (ce_envs ce ?n) batch)) rs"
    by blast
  have found: "rs_completed rs (be_id e) = Some ((the \<circ> rs_completed rs) (be_id e)) \<and>
      rs_errors rs (be_id e) = rs_errors rs (be_id e)" if "e \<in> set batch" for e
  proof -
    from that have "be_id e \<in> dom (rs_completed rs)"
      using reports_invD(2) [OF inv] completed_dom [of cfg proto a] by auto
    then show ?thesis by auto
  qed
  from record_batch_spec [OF assms(1) found] rec
  have "st' = (if ?i then print_line EndLive else id)
      (snd (fold (note_entry cfg ?i (the \<circ> rs_completed rs) (rs_errors rs)) batch
         (Map.empty, ?st2\<lparr>cl_link := l\<rparr>)))" by (simp add: comp_def)
  from that [OF a coll refl this] show ?thesis .
qed

lemma execute_batch_success:
  assumes "distinct (map be_id batch)" and "execute_batch cfg ce proto batch st = (Inr (), st')"
  obtains a res err where "link_local (cl_link st) = Inr a"
    and "batch_recorded cfg batch res err st st'"
    and "\<not> should_render_interactive (ce_terminal ce) (cfg_quiet cfg) (cfg_json cfg) (cfg_json_export cfg) \<Longrightarrow>
           cl_stdout st' = cl_stdout st @ printed cfg res err batch"
    and "\<exists>i l. st' = (if i then print_line EndLive else id)
           (snd (fold (note_entry cfg i res err) batch
              (Map.empty, (sent_to st (batch_messages batch))\<lparr>cl_link := l\<rparr>)))"
    and "\<And>k. k < length batch \<Longrightarrow> err (be_id (batch ! k)) = None \<Longrightarrow>
           res (be_id (batch ! k)) = local_result cfg ce proto a (length (outbox (cl_link st'))) batch k"
    and "\<And>k why. k < length batch \<Longrightarrow> err (be_id (batch ! k)) = Some why \<Longrightarrow>
           \<exists>sent received. res (be_id (batch ! k)) = override_result why sent received
             (local_result cfg ce proto a (length (outbox (cl_link st'))) batch k)"
proof -
  let ?st2 = "sent_to st (batch_messages batch)"
  let ?n = "length (outbox (cl_link ?st2))"
  obtain a rs l i where a: "link_local (cl_link st) = Inr a"
    and coll: "collect_reports (ce_debug ce) (receive_timeout cfg)
       \<lparr>rs_expected = set (map be_id batch),
        rs_completed = insert_results (run_client_batch cfg proto a (ce_envs ce ?n) batch),
        rs_errors = Map.empty\<rparr> (cl_link ?st2) = (Inr rs, l)"
    and i: "i = should_render_interactive (ce_terminal ce) (cfg_quiet cfg) (cfg_json cfg) (cfg_json_export cfg)"
    and st': "st' = (if i then print_line EndLive else id)
      (snd (fold (note_entry cfg i (the \<circ> rs_completed rs) (rs_errors rs)) batch (Map.empty, ?st2\<lparr>cl_link := l\<rparr>)))"
    by (rule execute_batch_collected [OF assms])
  define res where "res = the \<circ> rs_completed rs"
  define err where "err = rs_errors rs"
  note st' = st' [folded res_def err_def]
  let ?done0 = "insert_results (run_client_batch cfg proto a (ce_envs ce ?n) batch)"
  from collect_reports_inv [OF reports_inv_init coll]
  have inv: "reports_inv (set (map be_id batch)) ?done0 rs" by blast
  have done0: "?done0 (be_id (batch ! k)) = Some (local_result cfg ce proto a ?n batch k)"
    if "k < length batch" for k
    using completed_nth [OF assms(1) that, of cfg proto a] by (simp add: local_result_def)
  have link: "outbox l = outbox (cl_link ?st2)" "send_fault l = send_fault (cl_link st)"
    "link_local l = link_local (cl_link st)"
    using collect_reports_link [of "ce_debug ce" "receive_timeout cfg" _ "cl_link ?st2"] coll
    by (metis snd_conv sent_to_fields)+
  have recorded: "batch_recorded cfg batch res err st st'"
    unfolding st' batch_recorded_def
    by (simp add: note_entries_fields link print_line_def)
  then have n: "length (outbox (cl_link st')) = ?n" by (simp add: batch_recorded_def)
  have stdout: "cl_stdout st' = cl_stdout st @ printed cfg res err batch" if "\<not> i"
    using that by (simp add: st' note_entries_stdout)
  show ?thesis
  proof (rule that [OF a recorded stdout [unfolded i]])
    show "\<exists>i l. st' = (if i then print_line EndLive else id)
        (snd (fold (note_entry cfg i res err) batch (Map.empty, ?st2\<lparr>cl_link := l\<rparr>)))"
      using st' by blast
    fix k assume k: "k < length batch"
    { assume "err (be_id (batch ! k)) = None"
      then show "res (be_id (batch ! k)) =
          local_result cfg ce proto a (length (outbox (cl_link st'))) batch k"
        using reports_invD(3) [OF inv, of "be_id (batch ! k)"] done0 [OF k] n
        by (simp add: err_def res_def) }
    { fix why assume "err (be_id (batch ! k)) = Some why"
      then show "\<exists>sent received. res (be_id (batch ! k)) = override_result why sent received
          (local_result cfg ce proto a (length (outbox (cl_link st'))) batch k)"
        using reports_invD(5) [OF inv, of "be_id (batch ! k)" why] done0 [OF k] n
        by (auto simp: err_def res_def) blast }
  qed
qed

section \<open>What was sent when a call returns\<close>

text \<open>Between two states, nothing but a first part of the messages \<open>ms\<close> was sent.\<close>

definition sent_within :: "message list \<Rightarrow> client_state \<Rightarrow> client_state \<Rightarrow> bool" where
  "sent_within ms st st' \<longleftrightarrow> (\<exists>unsent. outbox (cl_link st') @ unsent = outbox (cl_link st) @ ms)"

lemma sent_withinI: "outbox (cl_link st') @ unsent = outbox (cl_link st) @ ms \<Longrightarrow> sent_within ms st st'"
  by (auto simp: sent_within_def)

lemma sent_within_none [intro]: "outbox (cl_link st') = outbox (cl_link st) \<Longrightarrow> sent_within ms st st'"
  by (rule sent_withinI [where unsent = ms]) simp

lemma sent_within_all: "outbox (cl_link st') = outbox (cl_link st) @ ms \<Longrightarrow> sent_within ms st st'"
  by (rule sent_withinI [where unsent = "[]"]) simp

lemma sent_within_then:
  assumes "sent_within ms st (snd r)"
    and "\<And>x s. r = (Inr x, s) \<Longrightarrow> outbox (cl_link s) = outbox (cl_link st) @ ms \<and> sent_within ns s (snd (f x s))"
  shows "sent_within (ms @ ns) st (snd (try_then r f))"
proof (cases "fst r")
  case (Inl e)
  with assms(1) obtain unsent where "outbox (cl_link (snd r)) @ unsent = outbox (cl_link st) @ ms"
    by (auto simp: sent_within_def)
  with Inl show ?thesis
    by (intro sent_withinI [where unsent = "unsent @ ns"]) (auto simp: try_then_def split: prod.splits)
next
  case (Inr x)
  then have r: "r = (Inr x, snd r)" by (cases r) simp
  with assms(2) have s: "outbox (cl_link (snd r)) = outbox (cl_link st) @ ms"
    "sent_within ns (snd r) (snd (f x (snd r)))" by blast+
  then obtain unsent where "outbox (cl_link (snd (f x (snd r)))) @ unsent = outbox (cl_link (snd r)) @ ns"
    by (auto simp: sent_within_def)
  with s(1) r show ?thesis
    by (intro sent_withinI [where unsent = unsent]) (metis append.assoc try_then_simps(2))
qed

lemma client_send_within: "sent_within [m] st (snd (client_send m st))"
  by (rule sent_withinI [where unsent = "if fst (client_send m st) = Inr () then [] else [m]"])
     (auto simp: client_send_def link_send_def split: option.splits)

lemma client_sends_within: "sent_within (map f es) st (snd (for_each (\<lambda>e. client_send (f e)) es st))"
proof (induction es arbitrary: st)
  case (Cons e es)
  have "sent_within ([f e] @ map f es) st
      (snd (try_then (client_send (f e) st) (\<lambda>_. for_each (\<lambda>e. client_send (f e)) es)))"
    by (rule sent_within_then [OF client_send_within]) (auto simp: Cons.IH dest: client_send_success)
  then show ?case by simp
qed auto

lemma record_batch_link: "cl_link (snd (record_batch cfg i batch rs st)) = cl_link st"
proof -
  let ?bp = "\<lparr>bp_completed = rs_completed rs, bp_errors = rs_errors rs, bp_fails = Map.empty, bp_client = st\<rparr>"
  have "cl_link (bp_client (snd (for_each (record_entry cfg i) batch ?bp))) = cl_link st"
    by (rule for_each_snd_inv [where P = "\<lambda>bp. cl_link (bp_client bp) = cl_link st"])
       (auto simp: record_entry_def Let_def case_prod_beta split: option.splits)
  then show ?thesis
    by (auto simp: record_batch_def print_line_def split: prod.splits sum.splits)
qed

text \<open>However a batch ends, it sent its messages or a first part of them.\<close>

lemma execute_batch_within: "sent_within (batch_messages batch) st (snd (execute_batch cfg ce proto batch st))"
  unfolding batch_messages_def execute_batch_def
proof (rule sent_within_then [OF client_sends_within], rule conjI)
  fix x st1 assume "for_each (\<lambda>e. client_send (test_message e)) batch st = (Inr x, st1)"
  then show "outbox (cl_link st1) = outbox (cl_link st) @ map test_message batch"
    by (auto dest: client_sends_success)
  let ?rest = "\<lambda>st2. case link_local (cl_link st2) of
      Inl e \<Rightarrow> (Inl e, st2)
    | Inr a \<Rightarrow>
        let env = ce_envs ce (length (outbox (cl_link st2)));
            completed = insert_results (run_client_batch cfg proto a env batch);
            rs0 = \<lparr>rs_expected = set (map be_id batch), rs_completed = completed, rs_errors = Map.empty\<rparr>;
            interactive = should_render_interactive (ce_terminal ce) (cfg_quiet cfg) (cfg_json cfg) (cfg_json_export cfg)
        in (case collect_reports (ce_debug ce) (receive_timeout cfg) rs0 (cl_link st2) of
              (Inl e, l) \<Rightarrow> (Inl e, st2\<lparr>cl_link := l\<rparr>)
            | (Inr rs, l) \<Rightarrow> record_batch cfg interactive batch rs (st2\<lparr>cl_link := l\<rparr>))"
  have rest: "outbox (cl_link (snd (?rest st2))) = outbox (cl_link st2)" for st2
    using collect_reports_link [of "ce_debug ce" "receive_timeout cfg" _ "cl_link st2"]
    by (auto simp: Let_def record_batch_link split: sum.splits prod.splits) (metis snd_conv)+
  have "sent_within ([BatchEnd] @ []) st1 (snd (try_then (client_send BatchEnd st1) (\<lambda>_. ?rest)))"
    by (rule sent_within_then [OF client_send_within])
       (use rest in \<open>auto dest: client_send_success\<close>)
  then show "sent_within [BatchEnd] st1 (snd (try_then (client_send BatchEnd st1) (\<lambda>_. ?rest)))" by simp
qed

section \<open>The live line\<close>

text \<open>
  The line that overwrites itself formats every port list of the hash map. That cannot panic in a
  build with overflow checks, since the ports of a batch go up.
\<close>

definition live_ok :: "output_line \<Rightarrow> bool" where
  "live_ok line =
     (case line of
        LiveFail fails \<Rightarrow> (\<forall>key ports. fails key = Some ports \<longrightarrow> format_port_ranges True ports \<noteq> None)
      | _ \<Rightarrow> True)"

lemma live_ok_line_text:
  assumes "live_ok line"
  shows "line_text sty color compact pretty True order line \<noteq> None"
proof -
  have "format_port_ranges True [] \<noteq> None" by (simp add: format_port_ranges_def)
  with assms show ?thesis
    by (auto simp: line_text_None_iff live_ok_def live_entry_def split: option.splits)
qed

lemma format_port_ranges_ascending: "sorted_wrt (<) ports \<Longrightarrow> format_port_ranges checks ports \<noteq> None"
  using port_runs_spec [OF ascending_max_port_last, of ports checks]
  by (auto simp: format_port_ranges_def)

definition fails_below :: "fail_map \<Rightarrow> batch_entry list \<Rightarrow> bool" where
  "fails_below fails batch \<longleftrightarrow>
     (\<forall>key ports. fails key = Some ports \<longrightarrow>
        sorted_wrt (<) ports \<and> (\<forall>p \<in> set ports. \<forall>e \<in> set batch. p < be_port e))"

lemma fails_below_Cons: "fails_below fails (e # es) \<Longrightarrow> fails_below fails es"
  by (simp add: fails_below_def)

lemma fails_below_push:
  assumes "fails_below fails (e # es)" and "\<forall>e' \<in> set es. be_port e < be_port e'"
  shows "fails_below (push_fail e why fails) es"
proof -
  have "sorted_wrt (<) ports \<and> (\<forall>p \<in> set ports. \<forall>e' \<in> set es. p < be_port e')"
    if "push_fail e why fails key = Some ports" for key ports
  proof (cases "key = (be_test_name e, be_transport_str e, direction_as_str (be_direction e), why)")
    case False
    with that have "fails key = Some ports" by (simp add: push_fail_def Let_def)
    with assms(1) show ?thesis unfolding fails_below_def by (metis list.set_intros(2))
  next
    case True
    show ?thesis
    proof (cases "fails key")
      case None
      with that True assms(2) show ?thesis by (auto simp: push_fail_def Let_def)
    next
      case (Some ps)
      with assms(1) have "sorted_wrt (<) ps" "\<forall>p \<in> set ps. \<forall>e' \<in> set (e # es). p < be_port e'"
        unfolding fails_below_def by blast+
      moreover have "ports = ps @ [be_port e]"
        using that True Some by (simp add: push_fail_def Let_def)
      ultimately show ?thesis using assms(2) by (auto simp: sorted_wrt_append)
    qed
  qed
  then show ?thesis unfolding fails_below_def by blast
qed

lemma fails_below_live_ok: "fails_below fails batch \<Longrightarrow> live_ok (LiveFail fails)"
  using format_port_ranges_ascending [of _ True]
  unfolding fails_below_def live_ok_def output_line.case by blast

lemma note_entries_live:
  "sorted_wrt (\<lambda>a b. be_port a < be_port b) batch \<Longrightarrow> fails_below (fst fs) batch \<Longrightarrow>
   list_all live_ok (cl_stdout (snd fs)) \<Longrightarrow>
   list_all live_ok (cl_stdout (snd (fold (note_entry cfg i res err) batch fs)))"
proof (induction batch arbitrary: fs)
  case (Cons e es)
  let ?why = "result_reason (res (be_id e))"
  let ?fs = "note_entry cfg i res err e fs"
  have push: "fails_below (push_fail e ?why (fst fs)) es"
    using Cons.prems(1,2) by (intro fails_below_push) auto
  have shown: "live_ok (print_result e r j se)" for r j se
    by (cases r) (simp_all add: print_result_def live_ok_def)
  have "fails_below (fst ?fs) es \<and> list_all live_ok (cl_stdout (snd ?fs))"
    using Cons.prems(3) fails_below_Cons [OF Cons.prems(2)] push fails_below_live_ok [OF push] shown
    by (simp add: note_entry_def show_result_def print_line_def Let_def case_prod_beta)
  then show ?case using Cons.prems(1) by (simp add: Cons.IH)
qed simp


section \<open>A small instance\<close>

definition demo_config :: client_config where
  "demo_config =
     \<lparr>cfg_tests = [''open''], cfg_port_ranges = [(''tcp'', 80, 81)], cfg_bidir = False,
      cfg_timeout_ms = 500, cfg_parallel = 1, cfg_target_addr = demo_addr, cfg_json = False,
      cfg_json_export = False, cfg_quiet = False\<rparr>"

definition demo_client :: "unit client_env" where
  "demo_client =
     \<lparr>ce_text = demo_text, ce_envs = demo_envs, ce_terminal = False, ce_debug = (\<lambda>_. ''message'')\<rparr>"

definition demo_state :: "message list \<Rightarrow> client_state" where
  "demo_state ms =
     \<lparr>cl_link = demo_link ms, cl_passed = 0, cl_failed = 0, cl_errors = 0, cl_next_id = 0,
      cl_batch = [], cl_results = [], cl_stdout = []\<rparr>"

definition demo_entry :: batch_entry where
  "demo_entry =
     \<lparr>be_id = 7, be_test_name = ''open'', be_transport = Tcp, be_transport_str = ''tcp'', be_port = 80,
      be_direction = ClientToServer\<rparr>"

text \<open>One test that passes here and that the server reports as failed.\<close>

definition demo_after :: client_state where
  "demo_after =
     (demo_state [])\<lparr>cl_link := (demo_link [])\<lparr>outbox := [test_message demo_entry, BatchEnd]\<rparr>,
        cl_failed := 1,
        cl_results := [\<lparr>te_protocol = ''open'', te_transport = ''tcp'', te_port = 80,
           te_direction = ClientToServer, te_result = Fail ''server: mismatch'' 1 1,
           te_server_error = Some ''mismatch''\<rparr>],
        cl_stdout := [print_result demo_entry (Fail ''server: mismatch'' 1 1) False (Some ''mismatch'')]\<rparr>"

lemma demo_batch:
  "execute_batch demo_config demo_client demo_proto [demo_entry]
     (demo_state [Report 7 (Some \<lparr>report_bytes = 1\<rparr>) (Some \<lparr>report_bytes = 0\<rparr>) (Some ''mismatch'')]) =
   (Inr (), demo_after)"
proof -
  have local: "run_client_batch demo_config demo_proto demo_addr (demo_envs n) [demo_entry] = [(7, Pass 1 1)]" for n
    by (simp add: run_client_batch_def run_concurrently_def unordered_results_def run_job_def
        demo_entry_def)
  show ?thesis
    by (simp add: execute_batch_def client_send_def demo_state_def demo_client_def demo_config_def
        local [unfolded demo_config_def] insert_results_def collect_reports.simps accept_report_def
        record_batch_def record_entry_def show_result_def tally_def keep_result_def print_line_def
        should_render_interactive_def demo_after_def Let_def)
       (simp add: demo_entry_def demo_link_def)
qed

section \<open>Properties\<close>

text \<open>
  Property C7: a batch that ends well received exactly one report for each of its tests and nothing else;
  every test has one result, in order, whose server error is the one of the report received for this
  test, and the result is a pass exactly when the local probe passed and this report has no error.
\<close>

theorem batch_pass_needs_both_sides:
  assumes "distinct (map be_id batch)" and "keeps_results cfg"
    and "execute_batch cfg ce proto batch st = (Inr (), st')"
  shows "\<exists>a rs heard. link_local (cl_link st) = Inr a \<and> cl_results st' = cl_results st @ rs \<and>
           length rs = length batch \<and>
           inbox (cl_link st) = heard @ inbox (cl_link st') \<and> length (arrivals heard) = length batch \<and>
           (\<forall>k < length batch. \<exists>sent received err.
              Report (be_id (batch ! k)) sent received err \<in> set (arrivals heard) \<and>
              te_server_error (rs ! k) = err \<and>
              (is_pass (te_result (rs ! k)) \<longleftrightarrow>
                 is_pass (local_result cfg ce proto a (length (outbox (cl_link st'))) batch k) \<and> err = None))"
proof -
  let ?st2 = "sent_to st (batch_messages batch)"
  let ?n = "length (outbox (cl_link ?st2))"
  obtain a rs l i where a: "link_local (cl_link st) = Inr a"
    and coll: "collect_reports (ce_debug ce) (receive_timeout cfg)
       \<lparr>rs_expected = set (map be_id batch),
        rs_completed = insert_results (run_client_batch cfg proto a (ce_envs ce ?n) batch),
        rs_errors = Map.empty\<rparr> (cl_link ?st2) = (Inr rs, l)"
    and st': "st' = (if i then print_line EndLive else id)
      (snd (fold (note_entry cfg i (the \<circ> rs_completed rs) (rs_errors rs)) batch (Map.empty, ?st2\<lparr>cl_link := l\<rparr>)))"
    by (rule execute_batch_collected [OF assms(1,3)])
  have fields: "cl_results st' = cl_results st @ map (kept_entry (the \<circ> rs_completed rs) (rs_errors rs)) batch"
    "cl_link st' = l"
    using assms(2) by (simp_all add: st' note_entries_fields print_line_def)
  have n: "length (outbox (cl_link st')) = ?n"
    using collect_reports_link [of "ce_debug ce" "receive_timeout cfg" _ "cl_link ?st2"] coll fields(2)
    by (metis snd_conv)
  from collect_reports_heard [OF coll, unfolded report_state.select_convs sent_to_fields(2)]
  obtain heard where heard: "inbox (cl_link st) = heard @ inbox l"
    and dist: "distinct (map report_id (arrivals heard))"
    and ids: "set (map report_id (arrivals heard)) = Some ` set (map be_id batch)"
    and says: "\<And>tid s v e. Report tid s v e \<in> set (arrivals heard) \<Longrightarrow>
      rs_errors rs tid = (case e of None \<Rightarrow> None | Some why \<Rightarrow> Some why) \<and>
      rs_completed rs tid =
        (case e of
           None \<Rightarrow> insert_results (run_client_batch cfg proto a (ce_envs ce ?n) batch) tid
         | Some why \<Rightarrow> map_option (override_result why s v)
             (insert_results (run_client_batch cfg proto a (ce_envs ce ?n) batch) tid))"
    by blast
  have "length (arrivals heard) = card (Some ` set (map be_id batch))"
    using dist ids distinct_card by (metis length_map)
  also have "\<dots> = length batch"
    using assms(1) using distinct_card [OF assms(1)] by (simp add: card_image del: set_map)
  finally have len: "length (arrivals heard) = length batch" .
  have "\<exists>sent received err. Report (be_id (batch ! k)) sent received err \<in> set (arrivals heard) \<and>
      rs_errors rs (be_id (batch ! k)) = err \<and>
      (is_pass (the (rs_completed rs (be_id (batch ! k)))) \<longleftrightarrow>
         is_pass (local_result cfg ce proto a (length (outbox (cl_link st'))) batch k) \<and> err = None)"
    if k: "k < length batch" for k
  proof -
    from k have "Some (be_id (batch ! k)) \<in> set (map report_id (arrivals heard))"
      unfolding ids by simp
    then obtain m where "m \<in> set (arrivals heard)" "report_id m = Some (be_id (batch ! k))" by auto
    moreover from this(2) obtain s v e where "m = Report (be_id (batch ! k)) s v e" by (cases m) auto
    ultimately have "\<exists>s v e. Report (be_id (batch ! k)) s v e \<in> set (arrivals heard)" by blast
    then obtain s v e where m: "Report (be_id (batch ! k)) s v e \<in> set (arrivals heard)" by blast
    show ?thesis
      using m says [OF m] completed_nth [OF assms(1) k, of cfg proto a] override_result_not_pass
      unfolding n by (intro exI conjI) (auto simp: local_result_def split: option.splits)
  qed
  with a fields heard len show ?thesis
    by (intro exI [of _ a] exI [of _ "map (kept_entry (the \<circ> rs_completed rs) (rs_errors rs)) batch"]
        exI [of _ heard]) (simp add: kept_entry_def)
qed

theorem batch_pass_needs_both_sides_witness:
  "\<exists>rs heard. cl_results demo_after = rs \<and> length rs = 1 \<and>
     map Arrives [Report 7 (Some \<lparr>report_bytes = 1\<rparr>) (Some \<lparr>report_bytes = 0\<rparr>) (Some ''mismatch'')] = heard \<and>
     length (arrivals heard) = 1 \<and> \<not> is_pass (te_result (rs ! 0)) \<and> te_server_error (rs ! 0) = Some ''mismatch''"
  using batch_pass_needs_both_sides [OF _ _ demo_batch]
  by (auto simp: keeps_results_def demo_config_def demo_state_def demo_after_def demo_entry_def)

text \<open>
  Property C37: when the output is no live terminal, a batch prints exactly one line for each test
  in order, except that \<open>--quiet\<close> hides the passes of the text form and \<open>--json-export\<close> hides all.
\<close>

theorem batch_prints_each_result:
  assumes "distinct (map be_id batch)"
    and "execute_batch cfg ce proto batch st = (Inr (), st')"
    and "\<not> should_render_interactive (ce_terminal ce) (cfg_quiet cfg) (cfg_json cfg) (cfg_json_export cfg)"
  shows "\<exists>res err. batch_recorded cfg batch res err st st' \<and>
           cl_stdout st' = cl_stdout st @ printed cfg res err batch"
  using execute_batch_success [OF assms(1,2)] assms(3) by metis

theorem batch_prints_each_result_witness:
  "\<exists>res err. cl_stdout demo_after = printed demo_config res err [demo_entry]"
  using batch_prints_each_result [OF _ demo_batch]
  by (auto simp: demo_client_def should_render_interactive_def demo_state_def)

text \<open>
  Property C38: for a batch whose ports go up, as every planned batch does, each line that is printed
  has a text, in whatever order the hash map lists its entries: the live line never runs into the
  overflow panic of \<open>format_port_ranges\<close>.
\<close>

theorem batch_live_line_safe:
  assumes "distinct (map be_id batch)" and "sorted_wrt (\<lambda>a b. be_port a < be_port b) batch"
    and "execute_batch cfg ce proto batch st = (Inr (), st')" and "list_all live_ok (cl_stdout st)"
  shows "list_all live_ok (cl_stdout st') \<and>
         list_all (\<lambda>line. line_text sty color compact pretty True order line \<noteq> None) (cl_stdout st')"
proof -
  obtain res err i l where st': "st' = (if i then print_line EndLive else id)
      (snd (fold (note_entry cfg i res err) batch
         (Map.empty, (sent_to st (batch_messages batch))\<lparr>cl_link := l\<rparr>)))"
    using execute_batch_success [OF assms(1,3)] by metis
  have "list_all live_ok (cl_stdout (snd (fold (note_entry cfg i res err) batch
      (Map.empty, (sent_to st (batch_messages batch))\<lparr>cl_link := l\<rparr>))))"
    by (rule note_entries_live [OF assms(2)]) (simp_all add: fails_below_def assms(4))
  then have "list_all live_ok (cl_stdout st')"
    by (cases i) (simp_all add: st' print_line_def live_ok_def)
  then show ?thesis using live_ok_line_text by (auto simp: list_all_iff)
qed

theorem batch_live_line_safe_witness: "list_all live_ok (cl_stdout demo_after)"
  by (rule batch_live_line_safe [OF _ _ demo_batch, THEN conjunct1]) (simp_all add: demo_state_def)

text \<open>
  A report for a test that is not waited for, unknown or already reported, ends the
  session with an error that names its number.
\<close>

theorem batch_rejects_foreign_report:
  assumes "rs_expected rs \<noteq> {}" and "tid \<notin> rs_expected rs"
    and "inbox l = Arrives (Report tid sent received err) # es"
  shows "collect_reports debug limit rs l =
           (Inl (''unexpected or duplicate report ID: '' @ show_word tid), l\<lparr>inbox := es\<rparr>)"
  using assms by (subst collect_reports.simps) (simp add: accept_report_def)

theorem batch_rejects_foreign_report_witness:
  "collect_reports (\<lambda>_. []) 10 \<lparr>rs_expected = {1}, rs_completed = [1 \<mapsto> Pass 1 1], rs_errors = Map.empty\<rparr>
     (demo_link [Report 2 None None None]) =
   (Inl (''unexpected or duplicate report ID: '' @ show_word (2 :: u32)),
    (demo_link [Report 2 None None None])\<lparr>inbox := []\<rparr>)"
  by (rule batch_rejects_foreign_report) simp_all

text \<open>
  Property C39: the client waits for reports at least 100 milliseconds longer than the server lets
  any probe of the batch run, for every timeout the addition of 2100 does not saturate.
\<close>

theorem client_outwaits_server:
  assumes "unat (cfg_timeout_ms cfg) + 2100 < 2 ^ 64"
    and "ctx_timeout ctx = from_millis (unat (cfg_timeout_ms cfg))"
  shows "finish_time env ctx + from_millis 100 \<le> receive_timeout cfg"
proof -
  have "unat (2100 :: u64) = 2100" by simp
  then have "receive_timeout cfg = from_millis (unat (cfg_timeout_ms cfg) + 2100)"
    using assms(1) by (simp add: receive_timeout_def unat_u64_saturating_add)
  moreover have "finish_time env ctx \<le> ctx_timeout ctx + from_secs 2"
    using finish_time_bound [of env ctx] by (simp add: run_deadline_def duration_saturating_add_def)
  ultimately show ?thesis by (simp add: assms(2) from_millis_def from_secs_def)
qed

theorem client_outwaits_server_witness:
  "finish_time \<lparr>env_net = (), env_time = duration_max\<rparr> (client_context demo_config demo_addr demo_entry) +
     from_millis 100 \<le> receive_timeout demo_config"
  by (rule client_outwaits_server) (simp_all add: demo_config_def client_context_def)

end
