(* ===== verification/Scan_Plan.thy ===== *)
theory Scan_Plan
  imports Client
begin

text \<open>
  The batches a scan is made of, computed in advance from the configuration, and the proof that the
  loops of \<open>run_client\<close> run exactly these batches in this order. From it follow what the client
  sends, in which order, with which test numbers, and how many results it counts.
\<close>

section \<open>The plan\<close>

function chunks :: "nat \<Rightarrow> 'a list \<Rightarrow> 'a list list" where
  "chunks n xs = (if xs = [] \<or> n = 0 then [] else take n xs # chunks n (drop n xs))"
  by pat_completeness auto
termination
  by (relation "measure (\<lambda>(n, xs). length xs)") auto

declare chunks.simps [simp del]

lemma chunks_Nil [simp]: "chunks n [] = []"
  by (simp add: chunks.simps)

lemma chunks_short: "xs \<noteq> [] \<Longrightarrow> length xs \<le> n \<Longrightarrow> chunks n xs = [xs]"
  by (subst chunks.simps) (cases n; simp)

lemma chunks_append: "length xs = n \<Longrightarrow> n > 0 \<Longrightarrow> chunks n (xs @ ys) = xs # chunks n ys"
  by (subst chunks.simps) auto

lemma concat_chunks: "n > 0 \<Longrightarrow> concat (chunks n xs) = xs"
proof (induction n xs rule: chunks.induct)
  case (1 n xs)
  then show ?case by (subst chunks.simps) auto
qed

lemma chunks_bounds: "ys \<in> set (chunks n xs) \<Longrightarrow> ys \<noteq> [] \<and> length ys \<le> n"
proof (induction n xs rule: chunks.induct)
  case (1 n xs)
  show ?case
  proof (cases "xs = [] \<or> n = 0")
    case True
    with 1(2) show ?thesis by (subst (asm) chunks.simps) auto
  next
    case False
    with 1(2) have "ys = take n xs \<or> ys \<in> set (chunks n (drop n xs))"
      by (subst (asm) chunks.simps) auto
    with False 1(1) [OF False] show ?thesis by auto
  qed
qed

record 'e scan_part =
  sp_proto :: "'e test_protocol"
  sp_name :: string
  sp_transport :: transport
  sp_transport_str :: string
  sp_direction :: direction
  sp_ports :: "u16 list"

definition plan_direction ::
  "client_config \<Rightarrow> 'e test_protocol \<Rightarrow> string \<Rightarrow> transport \<Rightarrow> string \<Rightarrow> u16 \<Rightarrow> u16 \<Rightarrow> direction \<Rightarrow>
   'e scan_part list" where
  "plan_direction cfg proto name t t_str s e dir =
     map (\<lambda>ports. \<lparr>sp_proto = proto, sp_name = name, sp_transport = t, sp_transport_str = t_str,
                   sp_direction = dir, sp_ports = ports\<rparr>)
       (chunks (unat (batch_size cfg)) (port_span s e))"

definition plan_range ::
  "client_config \<Rightarrow> 'e test_protocol \<Rightarrow> string \<Rightarrow> port_spec \<Rightarrow> 'e scan_part list" where
  "plan_range cfg proto name spec =
     (case spec of (t_str, s, e) \<Rightarrow>
        (case transport_from_str t_str of
           None \<Rightarrow> []
         | Some t \<Rightarrow>
             if t \<notin> set (proto_transports proto) then []
             else concat (map (plan_direction cfg proto name t t_str s e) (scan_directions cfg))))"

definition plan_test ::
  "client_config \<Rightarrow> 'e registry \<Rightarrow> port_spec list \<Rightarrow> string \<Rightarrow> 'e scan_part list" where
  "plan_test cfg registry ranges name =
     (case find_protocol registry name of
        None \<Rightarrow> []
      | Some proto \<Rightarrow> concat (map (plan_range cfg proto name) ranges))"

definition scan_plan :: "client_config \<Rightarrow> 'e registry \<Rightarrow> port_spec list \<Rightarrow> 'e scan_part list" where
  "scan_plan cfg registry ranges = concat (map (plan_test cfg registry ranges) (cfg_tests cfg))"

text \<open>The tests of a part get consecutive numbers.\<close>

definition numbered :: "'e scan_part \<Rightarrow> u32 \<Rightarrow> u16 list \<Rightarrow> batch_entry list" where
  "numbered part id0 ports =
     map (\<lambda>(i, port).
            \<lparr>be_id = id0 + of_nat i, be_test_name = sp_name part, be_transport = sp_transport part,
             be_transport_str = sp_transport_str part, be_port = port,
             be_direction = sp_direction part\<rparr>) (enumerate 0 ports)"

definition filled :: "'e scan_part \<Rightarrow> u16 list \<Rightarrow> client_state \<Rightarrow> client_state" where
  "filled part ports st =
     st\<lparr>cl_batch := numbered part (cl_next_id st) ports,
        cl_next_id := cl_next_id st + of_nat (length ports)\<rparr>"

definition run_part ::
  "client_config \<Rightarrow> 'e client_env \<Rightarrow> 'e scan_part \<Rightarrow> client_state \<Rightarrow> (string + unit) \<times> client_state" where
  "run_part cfg ce part st = flush_batch cfg ce (sp_proto part) (filled part (sp_ports part) st)"

section \<open>The loops run the plan\<close>

lemma batch_size_pos: "unat (batch_size cfg) > 0"
proof -
  have "(1::usize) \<le> batch_size cfg" by (simp add: batch_size_def at_least_one_def)
  then have "unat (1::usize) \<le> unat (batch_size cfg)" by (simp only: word_le_nat_alt)
  then show ?thesis by simp
qed

lemma numbered_Nil [simp]: "numbered part n [] = []"
  by (simp add: numbered_def)

lemma length_numbered [simp]: "length (numbered part n ports) = length ports"
  by (simp add: numbered_def)

lemma numbered_eq_Nil [simp]: "numbered part n ports = [] \<longleftrightarrow> ports = []"
  by (cases ports) (simp_all add: numbered_def)

lemma filled_fields [simp]:
  "cl_batch (filled part ports st) = numbered part (cl_next_id st) ports"
  "cl_next_id (filled part ports st) = cl_next_id st + of_nat (length ports)"
  "cl_link (filled part ports st) = cl_link st" "cl_results (filled part ports st) = cl_results st"
  "cl_passed (filled part ports st) = cl_passed st" "cl_failed (filled part ports st) = cl_failed st"
  "cl_errors (filled part ports st) = cl_errors st" "cl_stdout (filled part ports st) = cl_stdout st"
  by (simp_all add: filled_def)

lemma filled_cong:
  "filled (part\<lparr>sp_ports := ps\<rparr>) ports st = filled part ports st"
  by (simp add: filled_def numbered_def)

lemma filled_Nil: "cl_batch st = [] \<Longrightarrow> filled part [] st = st"
  by (simp add: filled_def)

lemma push_filled:
  "push_entry (sp_name part) (sp_transport part) (sp_transport_str part) (sp_direction part) p
     (filled part acc st) = filled part (acc @ [p]) st"
  by (simp add: push_entry_def filled_def numbered_def enumerate_append_eq)

lemma flush_batch_empties: "flush_batch cfg ce proto st = (Inr (), st') \<Longrightarrow> cl_batch st' = []"
  by (auto simp: flush_batch_def try_then_Inr_iff)

lemma scan_ports_chunks:
  assumes "cl_batch st = []" and "length acc < unat (batch_size cfg)"
  shows "try_then
      (for_each (scan_port cfg ce (sp_proto part) (sp_name part) (sp_transport part)
                   (sp_transport_str part) (sp_direction part)) ports (filled part acc st))
      (\<lambda>_ st'. if cl_batch st' \<noteq> [] then flush_batch cfg ce (sp_proto part) st' else (Inr (), st')) =
    for_each (\<lambda>ps. run_part cfg ce (part\<lparr>sp_ports := ps\<rparr>))
      (chunks (unat (batch_size cfg)) (acc @ ports)) st"
  using assms
proof (induction ports arbitrary: acc st)
  case Nil
  show ?case
  proof (cases "acc = []")
    case True
    with Nil show ?thesis by (simp add: filled_Nil)
  next
    case False
    with Nil have "chunks (unat (batch_size cfg)) acc = [acc]" by (simp add: chunks_short)
    with False show ?thesis by (simp add: run_part_def filled_cong)
  qed
next
  case (Cons p ps)
  let ?n = "unat (batch_size cfg)"
  have len: "length (cl_batch (filled part (acc @ [p]) st)) = Suc (length acc)"
    by simp
  show ?case
  proof (cases "Suc (length acc) = ?n")
    case True
    have c: "chunks ?n (acc @ p # ps) = (acc @ [p]) # chunks ?n ps"
      using True chunks_append [of "acc @ [p]" ?n ps] by simp
    let ?ports = "for_each (scan_port cfg ce (sp_proto part) (sp_name part) (sp_transport part)
                   (sp_transport_str part) (sp_direction part))"
    let ?rest = "\<lambda>_ st'. if cl_batch st' \<noteq> [] then flush_batch cfg ce (sp_proto part) st'
                          else (Inr (), st')"
    have IH: "try_then (?ports ps st') ?rest =
        for_each (\<lambda>ps. run_part cfg ce (part\<lparr>sp_ports := ps\<rparr>)) (chunks ?n ps) st'"
      if "flush_batch cfg ce (sp_proto part) (filled part (acc @ [p]) st) = (Inr x, st')" for x st'
      using Cons.IH [of st' "[]"] flush_batch_empties [of cfg ce "sp_proto part" _ st'] that
        batch_size_pos [of cfg]
      by (simp add: filled_Nil)
    have "try_then (?ports (p # ps) (filled part acc st)) ?rest =
        try_then (flush_batch cfg ce (sp_proto part) (filled part (acc @ [p]) st))
          (\<lambda>_ st'. try_then (?ports ps st') ?rest)"
      using True len by (simp add: scan_port_def push_filled Let_def try_then_assoc)
    also have "\<dots> = try_then (flush_batch cfg ce (sp_proto part) (filled part (acc @ [p]) st))
          (\<lambda>_. for_each (\<lambda>ps. run_part cfg ce (part\<lparr>sp_ports := ps\<rparr>)) (chunks ?n ps))"
      by (rule try_then_cong [OF refl]) (rule IH)
    also have "flush_batch cfg ce (sp_proto part) (filled part (acc @ [p]) st) =
        run_part cfg ce (part\<lparr>sp_ports := acc @ [p]\<rparr>) st"
      by (simp add: run_part_def filled_cong)
    finally show ?thesis by (simp only: c for_each.simps)
  next
    case False
    with Cons.prems have less: "length (acc @ [p]) < ?n" by simp
    show ?thesis
      using len less Cons.IH [OF Cons.prems(1) less]
      by (simp add: scan_port_def push_filled Let_def)
  qed
qed

lemma scan_direction_plan:
  assumes "cl_batch st = []"
  shows "scan_direction cfg ce proto name t t_str s e dir st =
           for_each (run_part cfg ce) (plan_direction cfg proto name t t_str s e dir) st"
proof -
  let ?part = "\<lparr>sp_proto = proto, sp_name = name, sp_transport = t, sp_transport_str = t_str,
                sp_direction = dir, sp_ports = []\<rparr>"
  from scan_ports_chunks [of st "[]" cfg ce ?part "port_span s e"] assms batch_size_pos [of cfg]
  show ?thesis
    by (simp add: scan_direction_def plan_direction_def for_each_map filled_Nil comp_def
        cong: if_cong)
qed

lemma run_part_empties: "run_part cfg ce part st = (Inr (), st') \<Longrightarrow> cl_batch st' = []"
  by (simp add: run_part_def flush_batch_empties)

lemma run_parts_empties:
  "for_each (run_part cfg ce) parts st = (Inr (), st') \<Longrightarrow> cl_batch st = [] \<Longrightarrow> cl_batch st' = []"
  by (rule for_each_success_inv [where P = "\<lambda>s. cl_batch s = []"]) (auto dest: run_part_empties)

lemma for_each_plans:
  assumes "cl_batch st = []" and "\<And>x s. x \<in> set xs \<Longrightarrow> cl_batch s = [] \<Longrightarrow>
             f x s = for_each (run_part cfg ce) (plan x) s"
  shows "for_each f xs st = for_each (run_part cfg ce) (concat (map plan xs)) st"
proof -
  have "for_each f xs st = for_each (\<lambda>x. for_each (run_part cfg ce) (plan x)) xs st"
    by (rule for_each_cong_inv [where P = "\<lambda>s. cl_batch s = []"])
       (auto simp: assms dest: run_parts_empties)
  then show ?thesis by (simp add: for_each_concat for_each_map comp_def)
qed

lemma scan_range_plan:
  assumes "cl_batch st = []"
  shows "scan_range cfg ce proto name spec st =
           for_each (run_part cfg ce) (plan_range cfg proto name spec) st"
proof -
  obtain t_str s e where spec: "spec = (t_str, s, e)" by (cases spec)
  have [simp]: "st\<lparr>cl_batch := []\<rparr> = st" using assms by simp
  show ?thesis
    using for_each_plans [of st "scan_directions cfg" _ cfg ce] assms
    by (auto simp: spec scan_range_def plan_range_def scan_direction_plan split: option.split)
qed

lemma scan_test_plan:
  assumes "cl_batch st = []" and "find_protocol registry name = Some proto"
  shows "scan_test cfg ce registry ranges name st =
           for_each (run_part cfg ce) (plan_test cfg registry ranges name) st"
  using for_each_plans [of st ranges _ cfg ce] assms
  by (auto simp: scan_test_def plan_test_def scan_range_plan)

lemma scan_follows_plan:
  assumes "cl_batch st = []" and "\<And>name. name \<in> set (cfg_tests cfg) \<Longrightarrow> find_protocol registry name \<noteq> None"
  shows "for_each (scan_test cfg ce registry ranges) (cfg_tests cfg) st =
           for_each (run_part cfg ce) (scan_plan cfg registry ranges) st"
  unfolding scan_plan_def
  by (rule for_each_plans [OF assms(1)]) (use assms(2) in \<open>auto intro: scan_test_plan\<close>)

section \<open>What the plan covers\<close>

text \<open>The tests of a scan in their order, one for each port.\<close>

type_synonym planned = "string \<times> string \<times> direction \<times> u16"

definition part_tests :: "'e scan_part \<Rightarrow> planned list" where
  "part_tests part = map (\<lambda>p. (sp_name part, sp_transport_str part, sp_direction part, p)) (sp_ports part)"

definition range_applies :: "'e registry \<Rightarrow> string \<Rightarrow> string \<Rightarrow> bool" where
  "range_applies registry name t_str \<longleftrightarrow>
     (case (find_protocol registry name, transport_from_str t_str) of
        (Some proto, Some t) \<Rightarrow> t \<in> set (proto_transports proto)
      | _ \<Rightarrow> False)"

definition all_tests :: "client_config \<Rightarrow> 'e registry \<Rightarrow> port_spec list \<Rightarrow> planned list" where
  "all_tests cfg registry ranges =
     [(name, t_str, dir, port).
        name \<leftarrow> cfg_tests cfg, (t_str, s, e) \<leftarrow> ranges, range_applies registry name t_str,
        dir \<leftarrow> scan_directions cfg, port \<leftarrow> port_span s e]"

lemma plan_direction_tests:
  "concat (map part_tests (plan_direction cfg proto name t t_str s e dir)) =
     map (\<lambda>p. (name, t_str, dir, p)) (port_span s e)"
proof -
  have "concat (map part_tests (plan_direction cfg proto name t t_str s e dir)) =
      map (\<lambda>p. (name, t_str, dir, p)) (concat (chunks (unat (batch_size cfg)) (port_span s e)))"
    by (simp add: plan_direction_def part_tests_def comp_def map_concat)
  then show ?thesis by (simp add: concat_chunks batch_size_pos)
qed

lemma concat_map_concat: "concat (map f (concat xss)) = concat (map (\<lambda>xs. concat (map f xs)) xss)"
  by (induction xss) auto

lemma plan_covers: "concat (map part_tests (scan_plan cfg registry ranges)) = all_tests cfg registry ranges"
proof -
  have range: "concat (map part_tests (plan_range cfg proto name (t_str, s, e))) =
      (if range_applies registry name t_str
       then concat (map (\<lambda>dir. map (\<lambda>p. (name, t_str, dir, p)) (port_span s e)) (scan_directions cfg))
       else [])" if "find_protocol registry name = Some proto" for proto name t_str s e
    using that
    by (auto simp: plan_range_def range_applies_def concat_map_concat comp_def plan_direction_tests
        split: option.split)
  have "concat (map part_tests (plan_test cfg registry ranges name)) =
      concat (map (\<lambda>(t_str, s, e). if range_applies registry name t_str
       then concat (map (\<lambda>dir. map (\<lambda>p. (name, t_str, dir, p)) (port_span s e)) (scan_directions cfg))
       else []) ranges)" for name
  proof (cases "find_protocol registry name")
    case None
    then show ?thesis by (simp add: plan_test_def range_applies_def case_prod_beta)
  next
    case (Some proto)
    then show ?thesis
      by (auto simp: plan_test_def concat_map_concat comp_def range intro!: arg_cong [where f = concat])
  qed
  then show ?thesis
    by (simp add: scan_plan_def all_tests_def concat_map_concat comp_def)
qed

section \<open>What a run of the plan does\<close>

primrec numbered_batches :: "u32 \<Rightarrow> 'e scan_part list \<Rightarrow> batch_entry list list" where
  "numbered_batches n [] = []"
| "numbered_batches n (part # parts) =
     numbered part n (sp_ports part) #
     numbered_batches (n + of_nat (length (sp_ports part))) parts"

definition client_total :: "client_state \<Rightarrow> u32" where
  "client_total st = cl_passed st + cl_failed st + cl_errors st"

definition te_test :: "test_entry \<Rightarrow> planned" where
  "te_test e = (te_protocol e, te_transport e, te_direction e, te_port e)"

text \<open>The counters are those of the results kept.\<close>

definition tallied :: "client_state \<Rightarrow> bool" where
  "tallied st \<longleftrightarrow>
     cl_passed st = of_nat (length (filter (\<lambda>e. is_pass (te_result e)) (cl_results st))) \<and>
     cl_failed st = of_nat (length (filter (\<lambda>e. is_fail (te_result e)) (cl_results st))) \<and>
     cl_errors st = of_nat (length (filter (\<lambda>e. is_error (te_result e)) (cl_results st)))"

text \<open>A path is reported as passed only when the server did not report an error for it.\<close>

definition confirmed :: "test_entry \<Rightarrow> bool" where
  "confirmed e \<longleftrightarrow> (is_pass (te_result e) \<longrightarrow> te_server_error e = None)"

lemma numbered_ids:
  assumes "length ports \<le> 65536"
  shows "distinct (map be_id (numbered part n ports))"
proof -
  have "map be_id (numbered part n ports) = map (\<lambda>i. n + of_nat i) [0..<length ports]"
    using map_enumerate_index [of "\<lambda>i. n + of_nat i" 0 ports]
    by (simp add: numbered_def case_prod_beta' comp_def)
  moreover have "inj_on (\<lambda>i. n + of_nat i :: u32) {0..<length ports}"
  proof (rule inj_onI)
    fix i j assume "i \<in> {0..<length ports}" "j \<in> {0..<length ports}"
      and "n + of_nat i = n + (of_nat j :: u32)"
    then have less: "i < 2 ^ 32" "j < 2 ^ 32" and eq: "(of_nat i :: u32) = of_nat j"
      using assms by auto
    from less have "unat (of_nat i :: u32) = i" "unat (of_nat j :: u32) = j"
      by (simp_all add: unat_of_nat)
    with eq show "i = j" by metis
  qed
  ultimately show ?thesis by (simp add: distinct_map)
qed

lemma sp_ports_plan:
  "part \<in> set (scan_plan cfg registry ranges) \<Longrightarrow>
   sp_ports part \<noteq> [] \<and> length (sp_ports part) \<le> unat (batch_size cfg) \<and> length (sp_ports part) \<le> 65536"
proof -
  have span: "length ps \<le> length xs" if "ps \<in> set (chunks n xs)" "n > 0" for ps and xs :: "u16 list" and n
  proof -
    from that(1) obtain as bs where "chunks n xs = as @ ps # bs" by (meson split_list)
    from arg_cong [OF this, of concat] that(2) show ?thesis by (simp add: concat_chunks)
  qed
  assume "part \<in> set (scan_plan cfg registry ranges)"
  then obtain s e where ports: "sp_ports part \<in> set (chunks (unat (batch_size cfg)) (port_span s e))"
    by (auto simp: scan_plan_def plan_test_def plan_range_def plan_direction_def
        split: option.splits if_splits)
  with span [OF ports batch_size_pos] chunks_bounds [OF ports]
  show ?thesis using unat_u16_bound [of e] by (simp add: length_port_span)
qed

lemma length_part_tests [simp]: "length (part_tests part) = length (sp_ports part)"
  by (simp add: part_tests_def)

lemma te_test_kept: "map (te_test \<circ> kept_entry res err) (numbered part n ports) =
    map (\<lambda>p. (sp_name part, sp_transport_str part, sp_direction part, p)) ports"
  using map_enumerate_elem [of "\<lambda>p. (sp_name part, sp_transport_str part, sp_direction part, p)" 0 ports]
  by (simp add: numbered_def comp_def case_prod_beta' kept_entry_def te_test_def)

lemma count_where_total:
  "count_where is_pass res batch + count_where is_fail res batch + count_where is_error res batch = length batch"
proof (induction batch)
  case (Cons e es)
  then show ?case by (cases "res (be_id e)") (simp_all add: count_where_def)
qed (simp add: count_where_def)

lemma filter_kept:
  "length (filter ((\<lambda>e. p (te_result e)) \<circ> kept_entry res err) batch) = count_where p res batch"
  by (simp add: comp_def kept_entry_def count_where_def)

text \<open>The effect of one batch that returned \<open>Ok\<close>.\<close>

definition part_done :: "client_config \<Rightarrow> 'e scan_part \<Rightarrow> client_state \<Rightarrow> client_state \<Rightarrow> bool" where
  "part_done cfg part st st' \<longleftrightarrow>
     outbox (cl_link st') =
       outbox (cl_link st) @ batch_messages (numbered part (cl_next_id st) (sp_ports part)) \<and>
     cl_next_id st' = cl_next_id st + of_nat (length (sp_ports part)) \<and>
     client_total st' = client_total st + of_nat (length (sp_ports part)) \<and>
     (\<exists>es. cl_results st' = cl_results st @ es \<and>
        map te_test es = (if keeps_results cfg then part_tests part else []) \<and> list_all confirmed es) \<and>
     (keeps_results cfg \<and> tallied st \<longrightarrow> tallied st')"

lemma run_part_done:
  assumes "run_part cfg ce part st = (Inr (), st')" and "length (sp_ports part) \<le> 65536"
  shows "part_done cfg part st st'"
proof -
  let ?batch = "numbered part (cl_next_id st) (sp_ports part)"
  have ids: "distinct (map be_id ?batch)" by (rule numbered_ids [OF assms(2)])
  from assms(1) obtain st1 where
    run: "execute_batch cfg ce (sp_proto part) ?batch (filled part (sp_ports part) st) = (Inr (), st1)"
    and st': "st' = st1\<lparr>cl_batch := []\<rparr>"
    by (auto simp: run_part_def flush_batch_def try_then_Inr_iff)
  from execute_batch_success [OF ids run] obtain res err
    where rec: "batch_recorded cfg ?batch res err (filled part (sp_ports part) st) st1"
      and some: "\<And>k why. k < length ?batch \<Longrightarrow> err (be_id (?batch ! k)) = Some why \<Longrightarrow>
                   \<exists>s v r. res (be_id (?batch ! k)) = override_result why s v r"
    by (metis (no_types, lifting))
  have conf: "confirmed (kept_entry res err e)" if "e \<in> set ?batch" for e
  proof -
    from that obtain k where k: "k < length ?batch" and e: "e = ?batch ! k"
      by (metis in_set_conv_nth)
    show ?thesis
    proof (cases "err (be_id e)")
      case None
      then show ?thesis by (simp add: confirmed_def kept_entry_def)
    next
      case (Some why)
      with some [OF k] e override_result_not_pass show ?thesis
        by (auto simp: confirmed_def kept_entry_def)
    qed
  qed
  have total: "client_total st' = client_total st + of_nat (length (sp_ports part))"
    using rec arg_cong [OF count_where_total [of res ?batch], of "of_nat :: nat \<Rightarrow> u32"]
    by (simp add: batch_recorded_def client_total_def st' algebra_simps)
  let ?es = "if keeps_results cfg then map (kept_entry res err) ?batch else []"
  have "cl_results st' = cl_results st @ ?es" using rec by (simp add: batch_recorded_def st')
  moreover have "map te_test ?es = (if keeps_results cfg then part_tests part else [])"
    by (simp add: te_test_kept part_tests_def)
  moreover have "list_all confirmed ?es" using conf by (auto simp: list_all_iff)
  moreover have "keeps_results cfg \<and> tallied st \<longrightarrow> tallied st'"
    using rec by (auto simp: batch_recorded_def tallied_def st' filter_kept)
  ultimately show ?thesis
    using rec total by (auto simp: part_done_def batch_recorded_def st')
qed

lemma run_parts_done:
  assumes "for_each (run_part cfg ce) parts st = (Inr (), st')"
    and "\<And>part. part \<in> set parts \<Longrightarrow> length (sp_ports part) \<le> 65536"
  shows "outbox (cl_link st') =
           outbox (cl_link st) @ concat (map batch_messages (numbered_batches (cl_next_id st) parts))"
    and "client_total st' = client_total st + of_nat (length (concat (map part_tests parts)))"
    and "\<exists>es. cl_results st' = cl_results st @ es \<and> list_all confirmed es \<and>
           map te_test es = (if keeps_results cfg then concat (map part_tests parts) else [])"
    and "keeps_results cfg \<Longrightarrow> tallied st \<Longrightarrow> tallied st'"
proof -
  have "outbox (cl_link st') =
           outbox (cl_link st) @ concat (map batch_messages (numbered_batches (cl_next_id st) parts)) \<and>
     client_total st' = client_total st + of_nat (length (concat (map part_tests parts))) \<and>
     (\<exists>es. cl_results st' = cl_results st @ es \<and> list_all confirmed es \<and>
           map te_test es = (if keeps_results cfg then concat (map part_tests parts) else [])) \<and>
     (keeps_results cfg \<and> tallied st \<longrightarrow> tallied st')"
    using assms
  proof (induction parts arbitrary: st)
    case Nil
    then show ?case by auto
  next
    case (Cons part parts)
    from Cons.prems(1) obtain st1 where one: "run_part cfg ce part st = (Inr (), st1)"
      and rest: "for_each (run_part cfg ce) parts st1 = (Inr (), st')"
      by (auto simp: try_then_Inr_iff)
    have d: "part_done cfg part st st1" using run_part_done [OF one] Cons.prems(2) by simp
    then obtain es1 where es1: "cl_results st1 = cl_results st @ es1" "list_all confirmed es1"
      "map te_test es1 = (if keeps_results cfg then part_tests part else [])"
      by (auto simp: part_done_def)
    note IH = Cons.IH [OF rest Cons.prems(2), simplified]
    from IH obtain es2 where es2: "cl_results st' = cl_results st1 @ es2" "list_all confirmed es2"
      "map te_test es2 = (if keeps_results cfg then concat (map part_tests parts) else [])"
      by auto
    have "cl_results st' = cl_results st @ (es1 @ es2) \<and> list_all confirmed (es1 @ es2) \<and>
      map te_test (es1 @ es2) = (if keeps_results cfg then concat (map part_tests (part # parts)) else [])"
      using es1 es2 by simp
    then have results: "\<exists>es. cl_results st' = cl_results st @ es \<and> list_all confirmed es \<and>
      map te_test es = (if keeps_results cfg then concat (map part_tests (part # parts)) else [])"
      by (rule exI)
    have sent: "outbox (cl_link st') =
      outbox (cl_link st) @ concat (map batch_messages (numbered_batches (cl_next_id st) (part # parts)))"
      using IH d by (simp add: part_done_def)
    have total: "client_total st' = client_total st + of_nat (length (concat (map part_tests (part # parts))))"
      using IH d by (simp add: part_done_def)
    have "keeps_results cfg \<and> tallied st \<longrightarrow> tallied st'"
      using IH d by (simp add: part_done_def)
    with results sent total show ?case by blast
  qed
  then show "outbox (cl_link st') =
           outbox (cl_link st) @ concat (map batch_messages (numbered_batches (cl_next_id st) parts))"
    and "client_total st' = client_total st + of_nat (length (concat (map part_tests parts)))"
    and "\<exists>es. cl_results st' = cl_results st @ es \<and> list_all confirmed es \<and>
           map te_test es = (if keeps_results cfg then concat (map part_tests parts) else [])"
    and "keeps_results cfg \<Longrightarrow> tallied st \<Longrightarrow> tallied st'"
    by blast+
qed

section \<open>What a successful session did\<close>

lemma extend_port_ranges_known:
  "extend_port_ranges registry name ranges = Inr ranges' \<Longrightarrow> find_protocol registry name \<noteq> None"
  by (auto simp: extend_port_ranges_def split: option.splits)

lemma complete_port_ranges_known:
  "complete_port_ranges registry names ranges = Inr ranges' \<Longrightarrow> name \<in> set names \<Longrightarrow>
   find_protocol registry name \<noteq> None"
  by (induction names arbitrary: ranges) (auto simp: and_then_Inr_iff dest: extend_port_ranges_known)

lemma recv_ack_Inr:
  "recv_ack st = (Inr (), st') \<Longrightarrow>
   \<exists>msg l. link_recv (cl_link st) = (Inr (Ack True msg), l) \<and> st' = st\<lparr>cl_link := l\<rparr> \<and>
           outbox l = outbox (cl_link st)"
  by (auto simp: recv_ack_def check_ack_def dest: link_recv_outboxD split: prod.splits sum.splits message.splits if_splits
      option.splits)

lemma await_bye_Inr:
  "await_bye ce st = (Inr s, st') \<Longrightarrow>
   s = client_summary st \<and> (\<exists>l. st' = st\<lparr>cl_link := l\<rparr> \<and> outbox l = outbox (cl_link st)) \<and>
   (\<exists>b. fst (link_recv (cl_link st)) = Inr (Bye b))"
  by (cases "link_recv (cl_link st)")
     (auto simp: await_bye_def dest: link_recv_outboxD split: sum.splits message.splits)

lemma run_client_success:
  assumes "run_client ce registry cfg l = (Inr s, st')"
  obtains ranges st2 st3 where
    "validate_port_ranges (cfg_port_ranges cfg) = Inr ()"
    "complete_port_ranges registry (cfg_tests cfg) (cfg_port_ranges cfg) = Inr ranges"
    "cl_next_id st2 = 0" "cl_batch st2 = []" "cl_results st2 = []"
    "client_total st2 = 0" "tallied st2"
    "outbox (cl_link st2) = outbox l @ [configure_message cfg (ce_text ce)]"
    "for_each (run_part cfg ce) (scan_plan cfg registry ranges) st2 = (Inr (), st3)"
    "outbox (cl_link st') = outbox (cl_link st3) @ [Done]" "cl_results st' = cl_results st3"
    "s = client_summary st3" "client_summary st' = s"
    "cl_stdout st' = cl_stdout st3 @ final_report cfg st3"
proof -
  from assms obtain ranges st1 st2 st3 st5 where
    valid: "validate_port_ranges (cfg_port_ranges cfg) = Inr ()" and
    ranges: "complete_port_ranges registry (cfg_tests cfg) (cfg_port_ranges cfg) = Inr ranges" and
    s1: "client_send (configure_message cfg (ce_text ce)) (initial_client l) = (Inr (), st1)" and
    s2: "recv_ack st1 = (Inr (), st2)" and
    s3: "for_each (scan_test cfg ce registry ranges) (cfg_tests cfg) st2 = (Inr (), st3)" and
    s4: "client_send Done (st3\<lparr>cl_stdout := cl_stdout st3 @ final_report cfg st3\<rparr>) = (Inr (), st5)" and
    s5: "await_bye ce st5 = (Inr s, st')"
    by (auto simp: run_client_def Let_def try_then_Inr_iff and_then_Inr_iff split: sum.splits)
  note st1 = client_send_success [OF s1]
  from recv_ack_Inr [OF s2] obtain l2 where st2: "st2 = st1\<lparr>cl_link := l2\<rparr>"
    and l2: "outbox l2 = outbox (cl_link st1)" by blast
  note st5 = client_send_success [OF s4]
  from await_bye_Inr [OF s5] obtain l6 where st': "st' = st5\<lparr>cl_link := l6\<rparr>"
    and l6: "outbox l6 = outbox (cl_link st5)" and s: "s = client_summary st5" by blast
  have batch: "cl_batch st2 = []" by (simp add: st2 st1 initial_client_def)
  have "for_each (run_part cfg ce) (scan_plan cfg registry ranges) st2 = (Inr (), st3)"
    using s3 scan_follows_plan [OF batch, of cfg registry ce ranges]
      complete_port_ranges_known [OF ranges] by auto
  moreover have "s = client_summary st3" by (simp add: s st5 client_summary_def sent_to_def)
  moreover have "client_summary st' = s" by (simp add: s st' client_summary_def)
  ultimately show ?thesis
    using that [OF valid ranges, of st2 st3] batch l2 l6
    by (simp add: st1 st2 st5 st' initial_client_def client_total_def tallied_def)
qed


section \<open>Completing the port ranges\<close>

definition icmp_any :: port_spec where
  "icmp_any = (''icmp'', 0, 0)"

lemma has_matching_append [simp]: "has_matching (xs @ ys) t \<longleftrightarrow> has_matching xs t \<or> has_matching ys t"
  by (simp add: has_matching_def list_ex_append)

lemma has_matching_icmp [simp]: "has_matching [icmp_any] t \<longleftrightarrow> t = Icmp"
  by (auto simp: has_matching_def icmp_any_def transport_from_str_def)

definition served :: "'e registry \<Rightarrow> port_spec list \<Rightarrow> string \<Rightarrow> bool" where
  "served registry ranges name \<longleftrightarrow>
     (\<exists>proto. find_protocol registry name = Some proto \<and> list_ex (has_matching ranges) (proto_transports proto))"

lemma served_append: "served registry ranges name \<Longrightarrow> served registry (ranges @ extra) name"
  by (auto simp: served_def list_ex_iff)

lemma extend_port_ranges_Inr:
  assumes "extend_port_ranges registry name ranges = Inr ranges'"
  shows "served registry ranges' name \<and>
    (ranges' = ranges \<or> ranges' = ranges @ [icmp_any] \<and> \<not> has_matching ranges Icmp)"
proof -
  from assms obtain proto where p: "find_protocol registry name = Some proto"
    by (auto simp: extend_port_ranges_def split: option.splits)
  show ?thesis
  proof (cases "list_ex (has_matching ranges) (proto_transports proto)")
    case True
    with assms p have "ranges' = ranges" by (simp add: extend_port_ranges_def)
    with True p show ?thesis by (simp add: served_def)
  next
    case False
    with assms p have icmp: "Icmp \<in> set (proto_transports proto)"
      and r: "ranges' = ranges @ [icmp_any]"
      by (auto simp: extend_port_ranges_def icmp_any_def list_ex_iff Let_def split: if_splits)
    with False have "\<not> has_matching ranges Icmp" by (auto simp: list_ex_iff)
    with r p icmp show ?thesis by (auto simp: served_def list_ex_iff)
  qed
qed

lemma complete_port_ranges_Inr:
  assumes "complete_port_ranges registry names ranges = Inr ranges'"
  shows "(ranges' = ranges \<or> ranges' = ranges @ [icmp_any]) \<and>
         (has_matching ranges Icmp \<longrightarrow> ranges' = ranges) \<and> list_all (served registry ranges') names"
  using assms
proof (induction names arbitrary: ranges)
  case (Cons name names)
  from Cons.prems obtain mid where step: "extend_port_ranges registry name ranges = Inr mid"
    and rest: "complete_port_ranges registry names mid = Inr ranges'"
    by (auto simp: and_then_Inr_iff)
  note one = extend_port_ranges_Inr [OF step] and IH = Cons.IH [OF rest]
  have served: "served registry ranges' name" using one IH served_append by metis
  show ?case
  proof (cases "mid = ranges")
    case True
    with IH served show ?thesis by simp
  next
    case False
    with one have "mid = ranges @ [icmp_any]" and no: "\<not> has_matching ranges Icmp" by auto
    then have "has_matching mid Icmp" by simp
    with IH have "ranges' = mid" by blast
    with \<open>mid = ranges @ [icmp_any]\<close> no IH served show ?thesis by simp
  qed
qed simp

text \<open>The parts of a session that ends well, with what it sent and how much it counted.\<close>

lemma run_client_effect:
  assumes "run_client ce registry cfg l = (Inr s, st')"
  obtains ranges where
    "complete_port_ranges registry (cfg_tests cfg) (cfg_port_ranges cfg) = Inr ranges"
    "outbox (cl_link st') = outbox l @ configure_message cfg (ce_text ce) #
       concat (map batch_messages (numbered_batches 0 (scan_plan cfg registry ranges))) @ [Done]"
    "summary_total s = of_nat (length (all_tests cfg registry ranges))"
proof -
  from assms obtain ranges st2 st3 where
    ranges: "complete_port_ranges registry (cfg_tests cfg) (cfg_port_ranges cfg) = Inr ranges" and
    st2: "cl_next_id st2 = 0" "client_total st2 = 0"
      "outbox (cl_link st2) = outbox l @ [configure_message cfg (ce_text ce)]" and
    run: "for_each (run_part cfg ce) (scan_plan cfg registry ranges) st2 = (Inr (), st3)" and
    out: "outbox (cl_link st') = outbox (cl_link st3) @ [Done]" and s: "s = client_summary st3"
    by (rule run_client_success)
  have small: "length (sp_ports part) \<le> 65536" if "part \<in> set (scan_plan cfg registry ranges)" for part
    using sp_ports_plan [OF that] by simp
  note effect = run_parts_done(1,2) [OF run small]
  have "summary_total s = client_total st3"
    by (simp add: s client_summary_def client_total_def summary_total_def)
  with effect ranges out st2 show ?thesis by (intro that [OF ranges]) (simp_all add: plan_covers)
qed

lemma length_numbered_batches:
  "length (concat (numbered_batches n parts)) = length (concat (map part_tests parts))"
  by (induction parts arbitrary: n) simp_all

text \<open>What each batch of the plan is, and all of them together.\<close>

lemma numbered_batches_part:
  "batch \<in> set (numbered_batches n parts) \<Longrightarrow>
   \<exists>part \<in> set parts. \<exists>m. batch = numbered part m (sp_ports part)"
  by (induction parts arbitrary: n) auto

lemma numbered_batches_tests:
  "map (\<lambda>e. (be_test_name e, be_transport_str e, be_direction e, be_port e)) (concat (numbered_batches n parts)) =
     concat (map part_tests parts)"
proof (induction parts arbitrary: n)
  case (Cons part parts)
  have "map (\<lambda>e. (be_test_name e, be_transport_str e, be_direction e, be_port e)) (numbered part n ports) =
      map (\<lambda>p. (sp_name part, sp_transport_str part, sp_direction part, p)) ports" for ports
    using map_enumerate_elem [of "\<lambda>p. (sp_name part, sp_transport_str part, sp_direction part, p)" 0 ports]
    by (simp add: numbered_def comp_def case_prod_beta')
  with Cons show ?case by (simp add: part_tests_def)
qed simp

lemma ids_numbered: "map be_id (numbered part n ports) = map (\<lambda>i. n + word_of_nat i) [0..<length ports]"
  using map_enumerate_index [of "\<lambda>i. n + of_nat i" 0 ports]
  by (simp add: numbered_def case_prod_beta' comp_def)

lemma numbered_batches_ids:
  "map be_id (concat (numbered_batches n parts)) =
     map (\<lambda>i. n + word_of_nat i) [0..<length (concat (numbered_batches n parts))]"
proof (induction parts arbitrary: n)
  case (Cons part parts)
  have shift: "map (\<lambda>i. n + word_of_nat i) [0..<a + b] =
      map (\<lambda>i. n + word_of_nat i) [0..<a] @ map (\<lambda>i. (n + word_of_nat a) + word_of_nat i) [0..<b]" for a b
    by (rule nth_equalityI) (auto simp: nth_append algebra_simps simp flip: of_nat_add)
  show ?case
    by (simp add: Cons ids_numbered shift del: length_concat)
qed simp

lemma sorted_chunks:
  assumes "ys \<in> set (chunks n xs)" and "0 < n" and "sorted_wrt r xs"
  shows "sorted_wrt r ys"
proof -
  from assms(1) obtain as bs where "chunks n xs = as @ ys # bs" by (meson split_list)
  from arg_cong [OF this, of concat] assms(2,3) show ?thesis
    by (simp add: concat_chunks sorted_wrt_append)
qed

lemma plan_part:
  assumes "part \<in> set (scan_plan cfg registry ranges)"
  shows "transport_from_str (sp_transport_str part) = Some (sp_transport part) \<and> sorted_wrt (<) (sp_ports part)"
proof -
  from assms obtain s e where "transport_from_str (sp_transport_str part) = Some (sp_transport part)"
    and "sp_ports part \<in> set (chunks (unat (batch_size cfg)) (port_span s e))"
    by (auto simp: scan_plan_def plan_test_def plan_range_def plan_direction_def
        split: option.splits if_splits)
  with sorted_chunks [OF this(2) batch_size_pos sorted_port_span] show ?thesis by blast
qed

lemma numbered_sound:
  assumes "part \<in> set (scan_plan cfg registry ranges)"
    and batch_def: "batch = numbered part n (sp_ports part)"
  shows "batch \<noteq> [] \<and> length batch \<le> max (unat (cfg_parallel cfg)) 1 \<and>
      distinct (map be_id batch) \<and> sorted_wrt (\<lambda>a b. be_port a < be_port b) batch \<and>
      (\<forall>e \<in> set batch. transport_from_str (be_transport_str e) = Some (be_transport e) \<and>
         be_test_name e = be_test_name (hd batch) \<and> be_transport e = be_transport (hd batch) \<and>
         be_direction e = be_direction (hd batch))"
proof (intro conjI)
  note ports = sp_ports_plan [OF assms(1)] and part = plan_part [OF assms(1)]
  show "batch \<noteq> []" using ports by (simp add: batch_def)
  have "unat (batch_size cfg) = max (unat (cfg_parallel cfg)) 1"
    by (simp add: batch_size_def at_least_one_def max_def word_le_nat_alt)
  then show "length batch \<le> max (unat (cfg_parallel cfg)) 1" using ports by (simp add: batch_def)
  show "distinct (map be_id batch)" using ports by (simp add: batch_def numbered_ids)
  have "map be_port batch = sp_ports part"
    using map_enumerate_elem [of "\<lambda>p. p" 0 "sp_ports part"]
    by (simp add: batch_def numbered_def comp_def case_prod_beta')
  with part have "sorted_wrt (<) (map be_port batch)" by simp
  then show "sorted_wrt (\<lambda>a b. be_port a < be_port b) batch" by (simp add: sorted_wrt_map)
  have all: "be_test_name e = sp_name part \<and> be_transport e = sp_transport part \<and>
      be_transport_str e = sp_transport_str part \<and> be_direction e = sp_direction part"
    if "e \<in> set batch" for e
    using that by (auto simp: batch_def numbered_def)
  from all [OF hd_in_set [OF \<open>batch \<noteq> []\<close>]] all part
  show "\<forall>e \<in> set batch. transport_from_str (be_transport_str e) = Some (be_transport e) \<and>
      be_test_name e = be_test_name (hd batch) \<and> be_transport e = be_transport (hd batch) \<and>
      be_direction e = be_direction (hd batch)" by simp
qed

section \<open>What any session sent\<close>

lemma run_part_within:
  "sent_within (batch_messages (numbered part (cl_next_id st) (sp_ports part))) st (snd (run_part cfg ce part st))"
proof -
  let ?batch = "numbered part (cl_next_id st) (sp_ports part)"
  have "sent_within (batch_messages ?batch) (filled part (sp_ports part) st)
      (snd (execute_batch cfg ce (sp_proto part) ?batch (filled part (sp_ports part) st)))"
    by (rule execute_batch_within)
  then show ?thesis
    by (auto simp: run_part_def flush_batch_def sent_within_def try_then_def split: prod.splits sum.splits)
qed

lemma run_parts_within:
  assumes "\<And>part. part \<in> set parts \<Longrightarrow> length (sp_ports part) \<le> 65536"
  shows "sent_within (concat (map batch_messages (numbered_batches (cl_next_id st) parts))) st
           (snd (for_each (run_part cfg ce) parts st))"
  using assms
proof (induction parts arbitrary: st)
  case (Cons part parts)
  let ?n = "cl_next_id st + of_nat (length (sp_ports part))"
  have "sent_within (batch_messages (numbered part (cl_next_id st) (sp_ports part)) @
        concat (map batch_messages (numbered_batches ?n parts))) st
      (snd (try_then (run_part cfg ce part st) (\<lambda>_. for_each (run_part cfg ce) parts)))"
  proof (rule sent_within_then [OF run_part_within])
    fix x s assume "run_part cfg ce part st = (Inr x, s)"
    then have "part_done cfg part st s" using run_part_done [of cfg ce part st s] Cons.prems by simp
    then show "outbox (cl_link s) =
          outbox (cl_link st) @ batch_messages (numbered part (cl_next_id st) (sp_ports part)) \<and>
        sent_within (concat (map batch_messages (numbered_batches ?n parts))) s
          (snd (for_each (run_part cfg ce) parts s))"
      using Cons.IH [of s] Cons.prems by (simp add: part_done_def)
  qed
  then show ?case by simp
qed auto

lemma run_client_within:
  assumes ranges: "complete_port_ranges registry (cfg_tests cfg) (cfg_port_ranges cfg) = Inr ranges"
  shows "sent_within (configure_message cfg (ce_text ce) #
           concat (map batch_messages (numbered_batches 0 (scan_plan cfg registry ranges))) @ [Done])
           (initial_client l) (snd (run_client ce registry cfg l))"
proof (cases "validate_port_ranges (cfg_port_ranges cfg)")
  case (Inl e)
  then show ?thesis by (auto simp: run_client_def Let_def and_then_def)
next
  case (Inr u)
  let ?config = "configure_message cfg (ce_text ce)"
  let ?sent = "concat (map batch_messages (numbered_batches 0 (scan_plan cfg registry ranges)))"
  let ?scan = "for_each (scan_test cfg ce registry ranges) (cfg_tests cfg)"
  let ?finish = "\<lambda>st3. try_then (client_send Done (st3\<lparr>cl_stdout := cl_stdout st3 @ final_report cfg st3\<rparr>))
      (\<lambda>_. await_bye ce)"
  have run: "run_client ce registry cfg l =
      try_then (client_send ?config (initial_client l)) (\<lambda>_ st1. try_then (recv_ack st1) (\<lambda>_ st2.
        try_then (?scan st2) (\<lambda>_. ?finish)))"
    using Inr ranges by (simp add: run_client_def Let_def and_then_def)
  have bye: "outbox (cl_link (snd (await_bye ce st))) = outbox (cl_link st)" for st
    by (auto simp: await_bye_def dest: link_recv_outboxD split: prod.splits sum.splits message.splits)
  have finish: "sent_within [Done] st (snd (?finish st))" for st
  proof -
    let ?st = "st\<lparr>cl_stdout := cl_stdout st @ final_report cfg st\<rparr>"
    have "sent_within ([Done] @ []) ?st (snd (?finish st))"
      by (rule sent_within_then [OF client_send_within]) (use bye in \<open>auto dest: client_send_success\<close>)
    then show ?thesis by (simp add: sent_within_def)
  qed
  have scan: "sent_within ?sent st (snd (?scan st)) \<and>
      (\<forall>st'. ?scan st = (Inr (), st') \<longrightarrow> outbox (cl_link st') = outbox (cl_link st) @ ?sent)"
    if "cl_batch st = []" "cl_next_id st = 0" for st
  proof -
    have small: "length (sp_ports part) \<le> 65536" if "part \<in> set (scan_plan cfg registry ranges)" for part
      using sp_ports_plan [OF that] by simp
    have "?scan st = for_each (run_part cfg ce) (scan_plan cfg registry ranges) st"
      using scan_follows_plan [OF that(1)] complete_port_ranges_known [OF ranges] by blast
    moreover have "sent_within ?sent st (snd (for_each (run_part cfg ce) (scan_plan cfg registry ranges) st))"
      using run_parts_within [where st = st and cfg = cfg and ce = ce, OF small] that(2) by simp
    moreover have "outbox (cl_link st') = outbox (cl_link st) @ ?sent"
      if "for_each (run_part cfg ce) (scan_plan cfg registry ranges) st = (Inr (), st')" for st'
      using run_parts_done(1) [OF that small] \<open>cl_next_id st = 0\<close> by simp
    ultimately show ?thesis by simp
  qed
  have "sent_within ([?config] @ ([] @ (?sent @ [Done]))) (initial_client l) (snd (run_client ce registry cfg l))"
    unfolding run
  proof (rule sent_within_then [OF client_send_within], rule conjI)
    fix x st1 assume "client_send ?config (initial_client l) = (Inr x, st1)"
    then have st1: "st1 = sent_to (initial_client l) [?config]" by (auto dest: client_send_success)
    then show "outbox (cl_link st1) = outbox (cl_link (initial_client l)) @ [?config]" by simp
    show "sent_within ([] @ (?sent @ [Done])) st1
        (snd (try_then (recv_ack st1) (\<lambda>_ st2. try_then (?scan st2) (\<lambda>_. ?finish))))"
    proof (rule sent_within_then, goal_cases)
      case 1
      show ?case
        by (intro sent_within_none)
           (auto simp: recv_ack_def dest: link_recv_outboxD split: prod.splits sum.splits)
    next
      case (2 y st2)
      then obtain l2 where st2: "st2 = st1\<lparr>cl_link := l2\<rparr>" and l2: "outbox l2 = outbox (cl_link st1)"
        using recv_ack_Inr [of st1 st2] by auto
      then have "cl_batch st2 = []" "cl_next_id st2 = 0" by (simp_all add: st1 initial_client_def)
      note scan = scan [OF this]
      have "sent_within (?sent @ [Done]) st2 (snd (try_then (?scan st2) (\<lambda>_. ?finish)))"
        by (rule sent_within_then [OF conjunct1 [OF scan]]) (use scan finish in auto)
      with st2 l2 show ?case by simp
    qed
  qed
  then show ?thesis by simp
qed

section \<open>Properties\<close>

lemma demo_plan:
  "scan_plan demo_config demo_registry [(''tcp'', 80, 81)] =
     [\<lparr>sp_proto = demo_proto, sp_name = ''open'', sp_transport = Tcp, sp_transport_str = ''tcp'',
       sp_direction = ClientToServer, sp_ports = [80]\<rparr>,
      \<lparr>sp_proto = demo_proto, sp_name = ''open'', sp_transport = Tcp, sp_transport_str = ''tcp'',
       sp_direction = ClientToServer, sp_ports = [81]\<rparr>]"
  by (simp add: scan_plan_def plan_test_def plan_range_def plan_direction_def scan_directions_def
      demo_config_def batch_size_def at_least_one_def transport_from_str_def port_span_def
      upt_rec chunks.simps)

text \<open>
  Property C4: the nested loops over tests, ranges, directions and ports, with their batch that
  fills up and is flushed, run exactly the batches of the plan one after the other, errors included.
\<close>

theorem scan_runs_plan:
  assumes "cl_batch st = []" and "\<forall>name \<in> set (cfg_tests cfg). find_protocol registry name \<noteq> None"
  shows "for_each (scan_test cfg ce registry ranges) (cfg_tests cfg) st =
           for_each (run_part cfg ce) (scan_plan cfg registry ranges) st"
  by (rule scan_follows_plan) (use assms in auto)

theorem scan_runs_plan_witness:
  "for_each (scan_test demo_config demo_client demo_registry [(''tcp'', 80, 81)]) [''open''] (demo_state []) =
     for_each (run_part demo_config demo_client)
       (scan_plan demo_config demo_registry [(''tcp'', 80, 81)]) (demo_state [])"
  using scan_runs_plan [of "demo_state []" demo_config demo_registry demo_client "[(''tcp'', 80, 81)]"]
  by (simp add: demo_state_def demo_config_def)

text \<open>
  The plan holds every test of the scan exactly once and in order: each selected test,
  each range whose transport the probe supports, each direction, each port of the range.
\<close>

theorem plan_holds_every_test:
  "concat (map part_tests (scan_plan cfg registry ranges)) = all_tests cfg registry ranges"
  by (rule plan_covers)

text \<open>
  Property C35: whatever a session ends with, all the client sent is \<open>Configure\<close>, some batches and \<open>Done\<close>, or
  a first part of that. Together the batches hold each selected test, for each range whose transport the
  probe supports, each direction and each port of the range, once, in this order, numbered from 0. Every
  batch is non-empty and within the size both sides agree on, its numbers differ, its ports go up, and it
  stays within one probe, transport and direction.
\<close>

theorem client_batches_sound:
  assumes "complete_port_ranges registry (cfg_tests cfg) (cfg_port_ranges cfg) = Inr ranges"
  shows "\<exists>bs unsent.
     outbox (cl_link (snd (run_client ce registry cfg l))) @ unsent =
       outbox l @ configure_message cfg (ce_text ce) # concat (map batch_messages bs) @ [Done] \<and>
     map (\<lambda>e. (be_test_name e, be_transport_str e, be_direction e, be_port e)) (concat bs) =
       [(name, t_str, dir, port).
          name \<leftarrow> cfg_tests cfg, (t_str, s, e) \<leftarrow> ranges, range_applies registry name t_str,
          dir \<leftarrow> (if cfg_bidir cfg then [ClientToServer, ServerToClient] else [ClientToServer]),
          port \<leftarrow> port_span s e] \<and>
     map be_id (concat bs) = map word_of_nat [0..<length (concat bs)] \<and>
     (\<forall>batch \<in> set bs.
        batch \<noteq> [] \<and> length batch \<le> max (unat (cfg_parallel cfg)) 1 \<and> distinct (map be_id batch) \<and>
        sorted_wrt (\<lambda>a b. be_port a < be_port b) batch \<and>
        (\<forall>e \<in> set batch. transport_from_str (be_transport_str e) = Some (be_transport e) \<and>
           be_test_name e = be_test_name (hd batch) \<and> be_transport e = be_transport (hd batch) \<and>
           be_direction e = be_direction (hd batch)))"
proof -
  let ?bs = "numbered_batches 0 (scan_plan cfg registry ranges)"
  obtain unsent where "outbox (cl_link (snd (run_client ce registry cfg l))) @ unsent =
      outbox (cl_link (initial_client l)) @ configure_message cfg (ce_text ce) # concat (map batch_messages ?bs) @ [Done]"
    using run_client_within [OF assms, of ce l] by (auto simp: sent_within_def)
  then have sent: "outbox (cl_link (snd (run_client ce registry cfg l))) @ unsent =
      outbox l @ configure_message cfg (ce_text ce) # concat (map batch_messages ?bs) @ [Done]"
    by (simp add: initial_client_def)
  have tests: "map (\<lambda>e. (be_test_name e, be_transport_str e, be_direction e, be_port e)) (concat ?bs) =
      [(name, t_str, dir, port).
          name \<leftarrow> cfg_tests cfg, (t_str, s, e) \<leftarrow> ranges, range_applies registry name t_str,
          dir \<leftarrow> (if cfg_bidir cfg then [ClientToServer, ServerToClient] else [ClientToServer]),
          port \<leftarrow> port_span s e]"
    unfolding numbered_batches_tests plan_covers all_tests_def scan_directions_def ..
  have ids: "map be_id (concat ?bs) = map word_of_nat [0..<length (concat ?bs)]"
    using numbered_batches_ids [of 0 "scan_plan cfg registry ranges"] by (simp del: length_concat)
  have "\<forall>batch \<in> set ?bs. batch \<noteq> [] \<and> length batch \<le> max (unat (cfg_parallel cfg)) 1 \<and>
      distinct (map be_id batch) \<and> sorted_wrt (\<lambda>a b. be_port a < be_port b) batch \<and>
      (\<forall>e \<in> set batch. transport_from_str (be_transport_str e) = Some (be_transport e) \<and>
         be_test_name e = be_test_name (hd batch) \<and> be_transport e = be_transport (hd batch) \<and>
         be_direction e = be_direction (hd batch))"
  proof
    fix batch assume "batch \<in> set ?bs"
    from numbered_batches_part [OF this] obtain part n where part: "part \<in> set (scan_plan cfg registry ranges)"
      and batch: "batch = numbered part n (sp_ports part)" by blast
    show "batch \<noteq> [] \<and> length batch \<le> max (unat (cfg_parallel cfg)) 1 \<and>
      distinct (map be_id batch) \<and> sorted_wrt (\<lambda>a b. be_port a < be_port b) batch \<and>
      (\<forall>e \<in> set batch. transport_from_str (be_transport_str e) = Some (be_transport e) \<and>
         be_test_name e = be_test_name (hd batch) \<and> be_transport e = be_transport (hd batch) \<and>
         be_direction e = be_direction (hd batch))"
      by (rule numbered_sound [OF part batch])
  qed
  with sent tests ids show ?thesis by blast
qed

text \<open>A session that ends with an error: the server acknowledges and then says nothing.\<close>

theorem client_batches_sound_witness:
  "\<exists>bs unsent.
     outbox (cl_link (snd (run_client demo_client demo_registry demo_config (demo_link [Ack True None])))) @ unsent =
       configure_message demo_config demo_text # concat (map batch_messages bs) @ [Done] \<and>
     map (\<lambda>e. (be_test_name e, be_transport_str e, be_direction e, be_port e)) (concat bs) =
       [(''open'', ''tcp'', ClientToServer, 80), (''open'', ''tcp'', ClientToServer, 81)] \<and>
     list_all (\<lambda>batch. batch \<noteq> [] \<and> length batch \<le> 1) bs"
proof -
  have ranges: "complete_port_ranges demo_registry (cfg_tests demo_config) (cfg_port_ranges demo_config) =
      Inr [(''tcp'', 80, 81)]"
    by (simp add: demo_config_def extend_port_ranges_def has_matching_def transport_from_str_def)
  have "range_applies demo_registry ''open'' ''tcp''" "port_span 80 81 = [80, 81]"
    by (simp_all add: range_applies_def transport_from_str_def port_span_def upt_rec)
  with client_batches_sound [OF ranges, of demo_client "demo_link [Ack True None]"] show ?thesis
    by (fastforce simp: demo_config_def demo_client_def list_all_iff)
qed

text \<open>
  Property C5: a client session that ends well sent \<open>Configure\<close>, the requests of every planned
  batch, numbered from 0 in the order of the plan and closed by \<open>BatchEnd\<close>, and \<open>Done\<close>, nothing
  else; its counters add up to the number of planned tests (in 32 bits).
\<close>

theorem client_session_conversation:
  assumes "run_client ce registry cfg l = (Inr s, st')"
  shows "\<exists>ranges. complete_port_ranges registry (cfg_tests cfg) (cfg_port_ranges cfg) = Inr ranges \<and>
     outbox (cl_link st') =
       outbox l @ configure_message cfg (ce_text ce) #
         concat (map batch_messages (numbered_batches 0 (scan_plan cfg registry ranges))) @ [Done] \<and>
     summary_passed s + summary_failed s + summary_errors s =
       of_nat (length (all_tests cfg registry ranges))"
  using run_client_effect [OF assms] by (metis summary_total_def)

text \<open>
  Property C6: the results of a session that ends well, when they are kept for the report, are one
  for each planned test in order; the counters are exactly the counts of the three outcomes among
  them, and no passed one carries an error of the server.
\<close>

theorem client_session_results:
  assumes "run_client ce registry cfg l = (Inr s, st')" and "keeps_results cfg"
  shows "\<exists>ranges. complete_port_ranges registry (cfg_tests cfg) (cfg_port_ranges cfg) = Inr ranges \<and>
     map te_test (cl_results st') = all_tests cfg registry ranges \<and>
     list_all confirmed (cl_results st') \<and> tallied st' \<and> client_summary st' = s"
proof -
  from assms(1) obtain ranges st2 st3 where
    ranges: "complete_port_ranges registry (cfg_tests cfg) (cfg_port_ranges cfg) = Inr ranges" and
    st2: "cl_results st2 = []" "tallied st2" and
    run: "for_each (run_part cfg ce) (scan_plan cfg registry ranges) st2 = (Inr (), st3)" and
    res: "cl_results st' = cl_results st3" and s: "s = client_summary st3" "client_summary st' = s"
    by (rule run_client_success)
  have small: "length (sp_ports part) \<le> 65536" if "part \<in> set (scan_plan cfg registry ranges)" for part
    using sp_ports_plan [OF that] by simp
  note effect = run_parts_done(3,4) [OF run small]
  have "tallied st3" by (rule effect(2)) (use assms(2) st2 in auto)
  with s res have "tallied st'" by (auto simp: tallied_def client_summary_def)
  moreover from effect(1) assms(2) have "map te_test (cl_results st3) = all_tests cfg registry ranges"
    and "list_all confirmed (cl_results st3)" by (auto simp: st2 plan_covers)
  ultimately show ?thesis using ranges s res by auto
qed

text \<open>
  Property C36: completing the port ranges adds at most one entry, \<open>icmp 0-0\<close>, and never when an
  ICMP range was given; afterwards every selected test exists and has a range it can use.
\<close>

theorem port_ranges_completed:
  assumes "complete_port_ranges registry names ranges = Inr ranges'"
  shows "(ranges' = ranges \<or> ranges' = ranges @ [icmp_any]) \<and>
         (has_matching ranges Icmp \<longrightarrow> ranges' = ranges) \<and> list_all (served registry ranges') names"
  by (rule complete_port_ranges_Inr [OF assms])

theorem port_ranges_completed_witness:
  "list_all (served demo_registry [(''tcp'', 80, 81)]) [''open'']"
proof -
  have "complete_port_ranges demo_registry [''open''] [(''tcp'', 80, 81)] = Inr [(''tcp'', 80, 81)]"
    by (simp add: extend_port_ranges_def has_matching_def transport_from_str_def)
  from port_ranges_completed [OF this] show ?thesis by blast
qed

end
