(* ===== verification/Session_Answers.thy ===== *)
theory Session_Answers
  imports Server Scan_Plan
begin

text \<open>
  What each end of a session does with what the other sends: the server answers the batches of a scan
  plan one by one, the client combines each report with its own result, and both ends finish whatever
  the probes met.
\<close>

section \<open>A report combined with the local result\<close>

text \<open>What the client records for a test when the server's own result was \<open>remote\<close>.\<close>

fun combined_result :: "protocol_result \<Rightarrow> protocol_result \<Rightarrow> protocol_result" where
  "combined_result (Pass s r) here = here"
| "combined_result (Fail why s r) here =
     override_result why (Some \<lparr>report_bytes = s\<rparr>) (Some \<lparr>report_bytes = r\<rparr>) here"
| "combined_result (Error why) here = override_result why None None here"

fun remote_error :: "protocol_result \<Rightarrow> string option" where
  "remote_error (Pass s r) = None"
| "remote_error (Fail why s r) = Some why"
| "remote_error (Error why) = Some why"

lemma combined_is_pass: "is_pass (combined_result remote here) \<longleftrightarrow> is_pass remote \<and> is_pass here"
  by (cases remote; cases here) simp_all

definition after_report :: "u32 \<Rightarrow> protocol_result \<Rightarrow> protocol_result \<Rightarrow> report_state \<Rightarrow> report_state" where
  "after_report i remote here s =
     \<lparr>rs_expected = rs_expected s - {i},
      rs_completed = (rs_completed s)(i \<mapsto> combined_result remote here),
      rs_errors = (rs_errors s)(i := remote_error remote)\<rparr>"

lemma collect_reports_step:
  assumes "inbox l = Arrives (report_of (i, remote)) # es" and "i \<in> rs_expected s"
    and "rs_completed s i = Some here" and "rs_errors s i = None"
  shows "collect_reports debug limit s l =
           collect_reports debug limit (after_report i remote here s) (l\<lparr>inbox := es\<rparr>)"
proof -
  have "rs_expected s \<noteq> {}" using assms(2) by auto
  moreover have "(rs_completed s)(i \<mapsto> here) = rs_completed s" "(rs_errors s)(i := None) = rs_errors s"
    using assms(3,4) by auto
  ultimately show ?thesis
    using assms
    by (cases s; cases remote; subst collect_reports.simps)
       (simp_all add: report_of_def accept_report_def after_report_def)
qed

text \<open>Reports for some of the tests that are expected; the others are still waited for.\<close>

lemma collect_reports_some:
  assumes "distinct (map fst rs)" and "inbox l = map Arrives (map report_of rs) @ rest"
    and "set (map fst rs) \<subseteq> rs_expected s"
    and "\<And>i. i \<in> set (map fst rs) \<Longrightarrow> rs_completed s i = Some (here i) \<and> rs_errors s i = None"
  shows "\<exists>s'. collect_reports debug limit s l = collect_reports debug limit s' (l\<lparr>inbox := rest\<rparr>) \<and>
           rs_expected s' = rs_expected s - set (map fst rs) \<and>
           (\<forall>(i, remote) \<in> set rs. rs_completed s' i = Some (combined_result remote (here i)) \<and>
              rs_errors s' i = remote_error remote) \<and>
           (\<forall>i. i \<notin> set (map fst rs) \<longrightarrow>
              rs_completed s' i = rs_completed s i \<and> rs_errors s' i = rs_errors s i)"
  using assms
proof (induction rs arbitrary: l s)
  case Nil
  then have "l\<lparr>inbox := rest\<rparr> = l" by simp
  then show ?case by (intro exI [of _ s]) simp
next
  case (Cons ir rs)
  obtain i remote where ir: "ir = (i, remote)" by fastforce
  let ?s = "after_report i remote (here i) s"
  let ?l = "l\<lparr>inbox := map Arrives (map report_of rs) @ rest\<rparr>"
  have step: "collect_reports debug limit s l = collect_reports debug limit ?s ?l"
    by (rule collect_reports_step) (use Cons.prems ir in auto)
  have "\<exists>s'. collect_reports debug limit ?s ?l = collect_reports debug limit s' (?l\<lparr>inbox := rest\<rparr>) \<and>
           rs_expected s' = rs_expected ?s - set (map fst rs) \<and>
           (\<forall>(i, remote) \<in> set rs. rs_completed s' i = Some (combined_result remote (here i)) \<and>
              rs_errors s' i = remote_error remote) \<and>
           (\<forall>i. i \<notin> set (map fst rs) \<longrightarrow>
              rs_completed s' i = rs_completed ?s i \<and> rs_errors s' i = rs_errors ?s i)"
  proof (rule Cons.IH)
    show "distinct (map fst rs)" using Cons.prems(1) by simp
    show "set (map fst rs) \<subseteq> rs_expected ?s"
      using Cons.prems(1,3) by (auto simp: after_report_def ir)
    fix j assume "j \<in> set (map fst rs)"
    with Cons.prems(1,4) show "rs_completed ?s j = Some (here j) \<and> rs_errors ?s j = None"
      by (auto simp: after_report_def ir)
  qed simp
  then obtain s' where s': "collect_reports debug limit ?s ?l = collect_reports debug limit s' (l\<lparr>inbox := rest\<rparr>)"
    and left: "rs_expected s' = rs_expected ?s - set (map fst rs)"
    and hit: "\<forall>(i, remote) \<in> set rs. rs_completed s' i = Some (combined_result remote (here i)) \<and>
              rs_errors s' i = remote_error remote"
    and miss: "\<And>i. i \<notin> set (map fst rs) \<Longrightarrow>
              rs_completed s' i = rs_completed ?s i \<and> rs_errors s' i = rs_errors ?s i" by auto
  have "i \<notin> set (map fst rs)" using Cons.prems(1) by (simp add: ir)
  from miss [OF this] have "rs_completed s' i = Some (combined_result remote (here i)) \<and>
      rs_errors s' i = remote_error remote" by (simp add: after_report_def)
  moreover have "rs_completed s' j = rs_completed s j \<and> rs_errors s' j = rs_errors s j"
    if "j \<notin> set (map fst (ir # rs))" for j
    using miss [of j] that by (simp add: after_report_def ir)
  moreover have "rs_expected s' = rs_expected s - set (map fst (ir # rs))"
    using left by (auto simp: after_report_def ir)
  ultimately show ?case using hit s' by (auto simp: step ir)
qed

lemma collect_reports_all:
  assumes "distinct (map fst rs)" and "inbox l = map Arrives (map report_of rs) @ rest"
    and "rs_expected s = set (map fst rs)"
    and "\<And>i. i \<in> set (map fst rs) \<Longrightarrow> rs_completed s i = Some (here i) \<and> rs_errors s i = None"
  shows "\<exists>s'. collect_reports debug limit s l = (Inr s', l\<lparr>inbox := rest\<rparr>) \<and>
           (\<forall>(i, remote) \<in> set rs. rs_completed s' i = Some (combined_result remote (here i)) \<and>
              rs_errors s' i = remote_error remote) \<and>
           (\<forall>i. i \<notin> set (map fst rs) \<longrightarrow>
              rs_completed s' i = rs_completed s i \<and> rs_errors s' i = rs_errors s i)"
proof -
  have finished: "collect_reports debug limit s' l' = (Inr s', l')" if "rs_expected s' = {}" for s' l'
    using that by (subst collect_reports.simps) simp
  from collect_reports_some [OF assms(1,2) _ assms(4), of debug limit] assms(3) finished show ?thesis
    by fastforce
qed

section \<open>A batch the server answers\<close>

definition renders_live :: "client_config \<Rightarrow> 'e client_env \<Rightarrow> bool" where
  "renders_live cfg ce \<longleftrightarrow>
     should_render_interactive (ce_terminal ce) (cfg_quiet cfg) (cfg_json cfg) (cfg_json_export cfg)"

lemma execute_batch_completes:
  assumes ids: "distinct (map be_id batch)"
    and healthy: "send_fault (cl_link st) = (\<lambda>_. None)" "link_local (cl_link st) = Inr a"
    and answered: "mset (map fst rs) = mset (map be_id batch)"
    and inbox: "inbox (cl_link st) = map Arrives (map report_of rs) @ rest"
  shows "\<exists>st' res err. execute_batch cfg ce proto batch st = (Inr (), st') \<and>
     inbox (cl_link st') = rest \<and> batch_recorded cfg batch res err st st' \<and>
     (\<forall>k < length batch. \<forall>remote. (be_id (batch ! k), remote) \<in> set rs \<longrightarrow>
        res (be_id (batch ! k)) = combined_result remote
          (local_result cfg ce proto a (length (outbox (cl_link st'))) batch k) \<and>
        err (be_id (batch ! k)) = remote_error remote) \<and>
     (\<not> renders_live cfg ce \<longrightarrow> cl_stdout st' = cl_stdout st @ printed cfg res err batch)"
proof -
  let ?st2 = "sent_to st (batch_messages batch)"
  let ?n = "length (outbox (cl_link ?st2))"
  let ?i = "renders_live cfg ce"
  let ?done0 = "insert_results (run_client_batch cfg proto a (ce_envs ce ?n) batch)"
  let ?s0 = "\<lparr>rs_expected = set (map be_id batch), rs_completed = ?done0, rs_errors = Map.empty\<rparr>"
  have same_ids: "set (map fst rs) = set (map be_id batch)"
    using answered by (metis mset_eq_setD)
  have distinct: "distinct (map fst rs)" using ids answered by (metis mset_eq_imp_distinct_iff)
  have done0: "?done0 i = Some (the (?done0 i))" if "i \<in> set (map be_id batch)" for i
    using that completed_dom [of cfg proto a "ce_envs ce ?n" batch] by (metis domD option.sel)
  have "\<exists>s'. collect_reports (ce_debug ce) (receive_timeout cfg) ?s0 (cl_link ?st2) =
            (Inr s', (cl_link ?st2)\<lparr>inbox := rest\<rparr>) \<and>
          (\<forall>(i, remote) \<in> set rs. rs_completed s' i = Some (combined_result remote (the (?done0 i))) \<and>
              rs_errors s' i = remote_error remote) \<and>
          (\<forall>i. i \<notin> set (map fst rs) \<longrightarrow>
              rs_completed s' i = rs_completed ?s0 i \<and> rs_errors s' i = rs_errors ?s0 i)"
    by (rule collect_reports_all [OF distinct]) (use inbox same_ids done0 in auto)
  then obtain s' where coll: "collect_reports (ce_debug ce) (receive_timeout cfg) ?s0 (cl_link ?st2) =
            (Inr s', (cl_link ?st2)\<lparr>inbox := rest\<rparr>)"
    and hit: "\<And>i remote. (i, remote) \<in> set rs \<Longrightarrow>
       rs_completed s' i = Some (combined_result remote (the (?done0 i))) \<and> rs_errors s' i = remote_error remote"
    by fastforce
  define res where "res = the \<circ> rs_completed s'"
  define err where "err = rs_errors s'"
  have found: "rs_completed s' (be_id e) = Some (res (be_id e)) \<and> rs_errors s' (be_id e) = err (be_id e)"
    if "e \<in> set batch" for e
  proof -
    from that same_ids obtain remote where "(be_id e, remote) \<in> set rs" by force
    with hit show ?thesis by (simp add: res_def err_def)
  qed
  let ?st3 = "?st2\<lparr>cl_link := (cl_link ?st2)\<lparr>inbox := rest\<rparr>\<rparr>"
  define st' where "st' = (if ?i then print_line EndLive else id)
      (snd (fold (note_entry cfg ?i res err) batch (Map.empty, ?st3)))"
  have run: "execute_batch cfg ce proto batch st = (Inr (), st')"
    using healthy coll record_batch_spec [OF ids, of s' res err cfg ?i ?st3] found
    by (simp add: execute_batch_def client_sends_healthy client_send_healthy batch_messages_def
        st'_def Let_def renders_live_def)
  have recorded: "batch_recorded cfg batch res err st st'"
    unfolding st'_def batch_recorded_def
    by (simp add: note_entries_fields print_line_def)
  then have n: "length (outbox (cl_link st')) = ?n" by (simp add: batch_recorded_def)
  have "inbox (cl_link st') = rest" by (simp add: st'_def note_entries_fields print_line_def)
  moreover have "res (be_id (batch ! k)) = combined_result remote
          (local_result cfg ce proto a (length (outbox (cl_link st'))) batch k) \<and>
        err (be_id (batch ! k)) = remote_error remote"
    if "k < length batch" and "(be_id (batch ! k), remote) \<in> set rs" for k remote
    using hit [OF that(2)] completed_nth [OF ids that(1), of cfg proto a "ce_envs ce ?n"]
    by (simp add: res_def err_def local_result_def n)
  moreover have "cl_stdout st' = cl_stdout st @ printed cfg res err batch" if "\<not> ?i"
    using that by (simp add: st'_def note_entries_stdout)
  ultimately show ?thesis using run recorded by blast
qed

section \<open>The server answers a plan\<close>

definition known_entry :: "'e registry \<Rightarrow> batch_entry \<Rightarrow> bool" where
  "known_entry registry e \<longleftrightarrow>
     find_protocol registry (be_test_name e) \<noteq> None \<and>
     be_transport_str e = transport_as_str (be_transport e)"

definition server_entry_of ::
  "'e registry \<Rightarrow> socket_addr \<Rightarrow> socket_addr option \<Rightarrow> batch_entry \<Rightarrow> 'e server_batch_entry" where
  "server_entry_of registry c b e =
     \<lparr>sb_id = be_id e, sb_proto = the (find_protocol registry (be_test_name e)),
      sb_transport = be_transport e, sb_dir = opposite (be_direction e),
      sb_target_addr = server_target_addr c b (opposite (be_direction e)) (be_port e)\<rparr>"

definition batch_fits :: "'e registry \<Rightarrow> usize \<Rightarrow> batch_entry list \<Rightarrow> bool" where
  "batch_fits registry p batch \<longleftrightarrow>
     batch \<noteq> [] \<and> length batch \<le> unat p \<and> list_all (known_entry registry) batch"

primrec server_replies ::
  "'e registry \<Rightarrow> 'e session_envs \<Rightarrow> socket_addr \<Rightarrow> socket_addr option \<Rightarrow> duration \<Rightarrow> nat \<Rightarrow>
   batch_entry list list \<Rightarrow> (u32 \<times> protocol_result) list list" where
  "server_replies registry envs c b timeout n [] = []"
| "server_replies registry envs c b timeout n (batch # batches) =
     run_server_batch timeout (envs n) (map (server_entry_of registry c b) batch) #
     server_replies registry envs c b timeout (n + length batch) batches"

lemma accepts_known: "known_entry registry e \<Longrightarrow> accepts registry c b (test_message e) (server_entry_of registry c b e)"
  by (auto simp: known_entry_def accepts_def test_message_def accept_test_def server_entry_of_def)

lemma read_batch_fits:
  assumes "batch_fits registry p batch" and "inbox l = map Arrives (batch_messages batch) @ rest"
  shows "read_batch registry c b p [] l =
           (Inr (map (server_entry_of registry c b) batch, False), l\<lparr>inbox := rest\<rparr>)"
proof -
  have acc: "list_all2 (accepts registry c b) (map test_message batch) (map (server_entry_of registry c b) batch)"
    using assms(1) by (auto simp: batch_fits_def list_all2_map1 list_all2_map2 list_all2_same
        list_all_iff intro: accepts_known)
  have "read_batch registry c b p [] l =
      read_batch registry c b p ([] @ map (server_entry_of registry c b) batch)
        (l\<lparr>inbox := Arrives BatchEnd # rest\<rparr>)"
    by (rule read_batch_tests [OF acc])
       (use assms in \<open>auto simp: batch_fits_def batch_messages_def\<close>)
  also have "\<dots> = (Inr (map (server_entry_of registry c b) batch, False), l\<lparr>inbox := rest\<rparr>)"
    using assms(1) by (subst read_batch_BatchEnd) (auto simp: batch_fits_def)
  finally show ?thesis .
qed

lemma reported_inbox:
  "reported rs (st\<lparr>sv_link := (sv_link st)\<lparr>inbox := es\<rparr>\<rparr>) =
     (reported rs st)\<lparr>sv_link := (sv_link (reported rs st))\<lparr>inbox := es\<rparr>\<rparr>"
  by (simp add: reported_def)

lemma length_run_server_batch [simp]: "length (run_server_batch timeout env batch) = length batch"
  by (simp add: run_server_batch_def)

lemma server_loop_prefix:
  assumes "send_fault (sv_link st) = (\<lambda>_. None)" and "list_all (batch_fits registry p) batches"
    and "inbox (sv_link st) = map Arrives (concat (map batch_messages batches)) @ rest"
  shows "server_loop registry envs c b timeout p st =
     server_loop registry envs c b timeout p
       (let st' = reported (concat (server_replies registry envs c b timeout
                     (length (outbox (sv_link st))) batches)) st
        in st'\<lparr>sv_link := (sv_link st')\<lparr>inbox := rest\<rparr>\<rparr>)"
  using assms
proof (induction batches arbitrary: st)
  case Nil
  then show ?case by auto
next
  case (Cons batch batches)
  let ?es = "map Arrives (concat (map batch_messages batches)) @ rest"
  let ?rs = "run_server_batch timeout (envs (length (outbox (sv_link st))))
               (map (server_entry_of registry c b) batch)"
  let ?st1 = "st\<lparr>sv_link := (sv_link st)\<lparr>inbox := ?es\<rparr>\<rparr>"
  from Cons.prems(2) have fits: "batch_fits registry p batch"
    and fits': "list_all (batch_fits registry p) batches" by simp_all
  have rd: "read_batch registry c b p [] (sv_link st) =
      (Inr (map (server_entry_of registry c b) batch, False), (sv_link st)\<lparr>inbox := ?es\<rparr>)"
    by (rule read_batch_fits [OF fits]) (simp add: Cons.prems(3))
  have "batch \<noteq> []" using fits by (simp add: batch_fits_def)
  then have "server_loop registry envs c b timeout p st =
      server_loop registry envs c b timeout p (reported ?rs ?st1)"
    using Cons.prems(1) rd
    by (subst server_loop.simps) (simp add: report_results_healthy)
  also have "\<dots> = server_loop registry envs c b timeout p
      (let st' = reported (concat (server_replies registry envs c b timeout
                    (length (outbox (sv_link (reported ?rs ?st1)))) batches)) (reported ?rs ?st1)
       in st'\<lparr>sv_link := (sv_link st')\<lparr>inbox := rest\<rparr>\<rparr>)"
    by (rule Cons.IH [OF _ fits']) (simp_all add: Cons.prems(1))
  also have "\<dots> = server_loop registry envs c b timeout p
      (let st' = reported (concat (server_replies registry envs c b timeout
                    (length (outbox (sv_link st))) (batch # batches))) st
       in st'\<lparr>sv_link := (sv_link st')\<lparr>inbox := rest\<rparr>\<rparr>)"
    by (simp add: reported_append reported_inbox Let_def)
  finally show ?case .
qed

lemma server_loop_batches:
  assumes "send_fault (sv_link st) = (\<lambda>_. None)" and "list_all (batch_fits registry p) batches"
    and "inbox (sv_link st) = map Arrives (concat (map batch_messages batches) @ [Done]) @ rest"
  shows "server_loop registry envs c b timeout p st =
     (Inr (), (let st' = reported (concat (server_replies registry envs c b timeout
                            (length (outbox (sv_link st))) batches)) st
               in st'\<lparr>sv_link := (sv_link st')\<lparr>inbox := rest\<rparr>\<rparr>))"
  using server_loop_prefix [OF assms(1,2), of "Arrives Done # rest"] assms(3)
  by (simp add: Let_def) (subst server_loop.simps, simp add: read_batch_Done)

lemma ids_server_replies:
  "list_all2 (\<lambda>rs batch. mset (map fst rs) = mset (map be_id batch))
     (server_replies registry envs c b timeout n batches) batches"
proof (induction batches arbitrary: n)
  case (Cons batch batches)
  have "mset (map fst (run_server_batch timeout (envs n) (map (server_entry_of registry c b) batch))) =
      mset (map be_id batch)"
    unfolding ids_run_server_batch by (simp add: comp_def server_entry_of_def)
  with Cons show ?case by simp
qed simp

section \<open>Outcomes\<close>

text \<open>A test, the result of its probe at the server and the result of its probe at the client.\<close>

record outcome =
  oc_entry :: batch_entry
  oc_remote :: protocol_result
  oc_local :: protocol_result

definition oc_result :: "outcome \<Rightarrow> protocol_result" where
  "oc_result oc = combined_result (oc_remote oc) (oc_local oc)"

definition oc_error :: "outcome \<Rightarrow> string option" where
  "oc_error oc = remote_error (oc_remote oc)"

definition outcome_entry :: "outcome \<Rightarrow> test_entry" where
  "outcome_entry oc =
     \<lparr>te_protocol = be_test_name (oc_entry oc), te_transport = be_transport_str (oc_entry oc),
      te_port = be_port (oc_entry oc), te_direction = be_direction (oc_entry oc),
      te_result = oc_result oc, te_server_error = oc_error oc\<rparr>"

definition outcome_lines :: "client_config \<Rightarrow> outcome list \<Rightarrow> output_line list" where
  "outcome_lines cfg ocs =
     (if cfg_json_export cfg then []
      else map (\<lambda>oc. print_result (oc_entry oc) (oc_result oc) (cfg_json cfg) (oc_error oc))
             (filter (\<lambda>oc. cfg_json cfg \<or> \<not> cfg_quiet cfg \<or> \<not> is_pass (oc_result oc)) ocs))"

definition results_summary :: "protocol_result list \<Rightarrow> test_summary" where
  "results_summary rs =
     \<lparr>summary_passed = of_nat (length (filter is_pass rs)),
      summary_failed = of_nat (length (filter is_fail rs)),
      summary_errors = of_nat (length (filter is_error rs))\<rparr>"

text \<open>All the client prints off a live terminal: a line for each test and the final report.\<close>

definition session_output :: "client_config \<Rightarrow> outcome list \<Rightarrow> output_line list" where
  "session_output cfg ocs =
     (let s = results_summary (map oc_result ocs); entries = map outcome_entry ocs
      in outcome_lines cfg ocs @
         (if cfg_json_export cfg then
            [print_json_export (merge_into_ranges entries) (summary_passed s) (summary_failed s) (summary_errors s)]
          else if \<not> cfg_json cfg then
            print_user_summary entries (summary_passed s) (summary_failed s) (summary_errors s)
          else []))"

text \<open>How a scan with these outcomes changes the state of the client.\<close>

definition outcomes_recorded ::
  "client_config \<Rightarrow> 'e client_env \<Rightarrow> outcome list \<Rightarrow> client_state \<Rightarrow> client_state \<Rightarrow> bool" where
  "outcomes_recorded cfg ce ocs st st' \<longleftrightarrow>
     cl_results st' = cl_results st @ (if keeps_results cfg then map outcome_entry ocs else []) \<and>
     cl_passed st' = cl_passed st + summary_passed (results_summary (map oc_result ocs)) \<and>
     cl_failed st' = cl_failed st + summary_failed (results_summary (map oc_result ocs)) \<and>
     cl_errors st' = cl_errors st + summary_errors (results_summary (map oc_result ocs)) \<and>
     (\<not> renders_live cfg ce \<longrightarrow> cl_stdout st' = cl_stdout st @ outcome_lines cfg ocs)"

lemma outcomes_recorded_Nil: "outcomes_recorded cfg ce [] st st"
  by (simp add: outcomes_recorded_def outcome_lines_def results_summary_def)

lemma outcomes_recorded_append:
  "outcomes_recorded cfg ce ocs st st1 \<Longrightarrow> outcomes_recorded cfg ce ocs' st1 st' \<Longrightarrow>
     outcomes_recorded cfg ce (ocs @ ocs') st st'"
  by (simp add: outcomes_recorded_def outcome_lines_def results_summary_def)

text \<open>The outcomes of a batch, from what the server reports for its tests.\<close>

definition batch_outcomes ::
  "client_config \<Rightarrow> 'e client_env \<Rightarrow> 'e test_protocol \<Rightarrow> socket_addr \<Rightarrow> nat \<Rightarrow> (nat \<Rightarrow> protocol_result) \<Rightarrow>
   batch_entry list \<Rightarrow> outcome list" where
  "batch_outcomes cfg ce proto a sent remote batch =
     map (\<lambda>k. \<lparr>oc_entry = batch ! k, oc_remote = remote k,
                oc_local = local_result cfg ce proto a sent batch k\<rparr>) [0..<length batch]"

lemma batch_outcomes_recorded:
  assumes rec: "batch_recorded cfg batch res err st st'"
    and combined: "\<And>k. k < length batch \<Longrightarrow>
        res (be_id (batch ! k)) = combined_result (remote k) (local_result cfg ce proto a n batch k) \<and>
        err (be_id (batch ! k)) = remote_error (remote k)"
    and stdout: "\<not> renders_live cfg ce \<Longrightarrow> cl_stdout st' = cl_stdout st @ printed cfg res err batch"
  shows "outcomes_recorded cfg ce (batch_outcomes cfg ce proto a n remote batch) st st'"
proof -
  let ?ocs = "batch_outcomes cfg ce proto a n remote batch"
  have at: "map f ?ocs = map (\<lambda>e. g e (res (be_id e)) (err (be_id e))) batch"
    if "\<And>oc. f oc = g (oc_entry oc) (oc_result oc) (oc_error oc)" for f :: "outcome \<Rightarrow> 'z" and g
    by (rule nth_equalityI) (simp_all add: batch_outcomes_def that oc_result_def oc_error_def combined)
  have entries: "map outcome_entry ?ocs = map (kept_entry res err) batch"
    unfolding kept_entry_def by (rule at) (simp add: outcome_entry_def)
  have results: "map oc_result ?ocs = map (\<lambda>e. res (be_id e)) batch"
    by (rule at) simp
  have counts: "length (filter p (map oc_result ?ocs)) = count_where p res batch" for p
    by (simp only: results) (simp add: count_where_def filter_map o_def)
  have lines: "outcome_lines cfg ?ocs = printed cfg res err batch"
  proof -
    let ?line = "\<lambda>e r x. if cfg_json cfg \<or> \<not> cfg_quiet cfg \<or> \<not> is_pass r
                     then [print_result e r (cfg_json cfg) x] else []"
    have concat: "map f (filter P xs) = concat (map (\<lambda>x. if P x then [f x] else []) xs)"
      for f :: "'x \<Rightarrow> output_line" and P xs
      by (induction xs) simp_all
    have "map (\<lambda>oc. ?line (oc_entry oc) (oc_result oc) (oc_error oc)) ?ocs =
        map (\<lambda>e. ?line e (res (be_id e)) (err (be_id e))) batch"
      by (rule at) simp
    then show ?thesis unfolding outcome_lines_def printed_def concat by simp
  qed
  have "summary_passed (results_summary (map oc_result ?ocs)) = of_nat (count_where is_pass res batch)"
    "summary_failed (results_summary (map oc_result ?ocs)) = of_nat (count_where is_fail res batch)"
    "summary_errors (results_summary (map oc_result ?ocs)) = of_nat (count_where is_error res batch)"
    by (simp_all only: results_summary_def test_summary.select_convs counts)
  with rec stdout show ?thesis
    by (simp only: outcomes_recorded_def batch_recorded_def entries lines) simp
qed

text \<open>The outcomes of the parts of a plan, from the reports to each batch.\<close>

definition reported_for :: "(u32 \<times> protocol_result) list \<Rightarrow> batch_entry list \<Rightarrow> nat \<Rightarrow> protocol_result" where
  "reported_for rs batch k = the (map_of rs (be_id (batch ! k)))"

primrec reported_outcomes ::
  "client_config \<Rightarrow> 'e client_env \<Rightarrow> socket_addr \<Rightarrow> nat \<Rightarrow> u32 \<Rightarrow> 'e scan_part list \<Rightarrow>
   (u32 \<times> protocol_result) list list \<Rightarrow> outcome list" where
  "reported_outcomes cfg ce a sent n [] rss = []"
| "reported_outcomes cfg ce a sent n (part # parts) rss =
     (let batch = numbered part n (sp_ports part); sent' = sent + length batch + 1
      in batch_outcomes cfg ce (sp_proto part) a sent' (reported_for (hd rss) batch) batch @
         reported_outcomes cfg ce a sent' (n + of_nat (length (sp_ports part))) parts (tl rss))"

section \<open>The client completes a plan\<close>

lemma run_parts_outcomes:
  assumes "send_fault (cl_link st) = (\<lambda>_. None)" and "link_local (cl_link st) = Inr a"
    and "\<And>part. part \<in> set parts \<Longrightarrow> length (sp_ports part) \<le> 65536"
    and "list_all2 (\<lambda>rs batch. mset (map fst rs) = mset (map be_id batch)) rss
           (numbered_batches (cl_next_id st) parts)"
    and "inbox (cl_link st) = map Arrives (map report_of (concat rss)) @ rest"
  shows "\<exists>st'. for_each (run_part cfg ce) parts st = (Inr (), st') \<and> inbox (cl_link st') = rest \<and>
           send_fault (cl_link st') = (\<lambda>_. None) \<and> link_local (cl_link st') = Inr a \<and>
           cl_next_id st' = cl_next_id st + of_nat (length (concat (map sp_ports parts))) \<and>
           outcomes_recorded cfg ce
             (reported_outcomes cfg ce a (length (outbox (cl_link st))) (cl_next_id st) parts rss) st st'"
  using assms
proof (induction parts arbitrary: st rss)
  case Nil
  then show ?case by (auto simp: outcomes_recorded_Nil)
next
  case (Cons part parts)
  let ?batch = "numbered part (cl_next_id st) (sp_ports part)"
  let ?st1 = "filled part (sp_ports part) st"
  let ?sent = "length (outbox (cl_link st)) + length ?batch + 1"
  from Cons.prems(4) obtain rs rss' where rss: "rss = rs # rss'"
    and ids: "mset (map fst rs) = mset (map be_id ?batch)"
    and more: "list_all2 (\<lambda>rs batch. mset (map fst rs) = mset (map be_id batch)) rss'
       (numbered_batches (cl_next_id st + of_nat (length (sp_ports part))) parts)"
    by (auto simp: list_all2_Cons2)
  have distinct: "distinct (map be_id ?batch)" by (rule numbered_ids) (simp add: Cons.prems(3))
  have inbox: "inbox (cl_link ?st1) =
      map Arrives (map report_of rs) @ map Arrives (map report_of (concat rss')) @ rest"
    using Cons.prems(5) by (simp add: rss)
  have healthy: "send_fault (cl_link ?st1) = (\<lambda>_. None)" "link_local (cl_link ?st1) = Inr a"
    using Cons.prems(1,2) by simp_all
  from execute_batch_completes [OF distinct healthy ids inbox, of cfg ce "sp_proto part"]
  obtain st2 res err where run: "execute_batch cfg ce (sp_proto part) ?batch ?st1 = (Inr (), st2)"
    and left: "inbox (cl_link st2) = map Arrives (map report_of (concat rss')) @ rest"
    and rec: "batch_recorded cfg ?batch res err ?st1 st2"
    and combined: "\<And>k remote. k < length ?batch \<Longrightarrow> (be_id (?batch ! k), remote) \<in> set rs \<Longrightarrow>
        res (be_id (?batch ! k)) = combined_result remote
          (local_result cfg ce (sp_proto part) a (length (outbox (cl_link st2))) ?batch k) \<and>
        err (be_id (?batch ! k)) = remote_error remote"
    and stdout: "\<not> renders_live cfg ce \<Longrightarrow> cl_stdout st2 = cl_stdout ?st1 @ printed cfg res err ?batch"
    by blast
  let ?st3 = "st2\<lparr>cl_batch := []\<rparr>"
  have part: "run_part cfg ce part st = (Inr (), ?st3)"
    by (simp add: run_part_def flush_batch_def run)
  have sent: "length (outbox (cl_link st2)) = ?sent"
    using rec by (simp add: batch_recorded_def batch_messages_def)
  have one: "outcomes_recorded cfg ce
      (batch_outcomes cfg ce (sp_proto part) a ?sent (reported_for rs ?batch) ?batch) ?st1 st2"
  proof (rule batch_outcomes_recorded [OF rec _ stdout])
    fix k assume k: "k < length ?batch"
    then have "be_id (?batch ! k) \<in> set (map fst rs)"
      by (simp only: mset_eq_setD [OF ids]) simp
    then have "(be_id (?batch ! k), reported_for rs ?batch k) \<in> set rs"
      unfolding reported_for_def by (metis map_of_SomeD map_of_eq_None_iff option.collapse set_map)
    from combined [OF k this] show "res (be_id (?batch ! k)) = combined_result (reported_for rs ?batch k)
          (local_result cfg ce (sp_proto part) a ?sent ?batch k) \<and>
        err (be_id (?batch ! k)) = remote_error (reported_for rs ?batch k)" by (simp only: sent)
  qed
  have "\<exists>st'. for_each (run_part cfg ce) parts ?st3 = (Inr (), st') \<and> inbox (cl_link st') = rest \<and>
           send_fault (cl_link st') = (\<lambda>_. None) \<and> link_local (cl_link st') = Inr a \<and>
           cl_next_id st' = cl_next_id ?st3 + of_nat (length (concat (map sp_ports parts))) \<and>
           outcomes_recorded cfg ce (reported_outcomes cfg ce a (length (outbox (cl_link ?st3)))
             (cl_next_id ?st3) parts rss') ?st3 st'"
    by (rule Cons.IH [of _ rss'])
       (use rec more left Cons.prems(1-3) in \<open>simp_all add: batch_recorded_def\<close>)
  then obtain st' where st': "for_each (run_part cfg ce) parts ?st3 = (Inr (), st')"
      "inbox (cl_link st') = rest" "send_fault (cl_link st') = (\<lambda>_. None)" "link_local (cl_link st') = Inr a"
      "cl_next_id st' = cl_next_id ?st3 + of_nat (length (concat (map sp_ports parts)))"
    and others: "outcomes_recorded cfg ce (reported_outcomes cfg ce a ?sent
             (cl_next_id ?st3) parts rss') ?st3 st'"
    by (auto simp: sent)
  have id: "cl_next_id ?st3 = cl_next_id st + of_nat (length (sp_ports part))"
    using rec by (simp add: batch_recorded_def)
  have "outcomes_recorded cfg ce
      (reported_outcomes cfg ce a (length (outbox (cl_link st))) (cl_next_id st) (part # parts) rss) st st'"
    using outcomes_recorded_append [OF _ others, of _ st] one
    by (simp add: rss id Let_def outcomes_recorded_def)
  then show ?case using part st' id by (auto simp: add.assoc)
qed

lemma run_parts_complete:
  assumes "send_fault (cl_link st) = (\<lambda>_. None)" and "link_local (cl_link st) = Inr a"
    and "\<And>part. part \<in> set parts \<Longrightarrow> length (sp_ports part) \<le> 65536"
    and "list_all2 (\<lambda>rs batch. mset (map fst rs) = mset (map be_id batch)) rss
           (numbered_batches (cl_next_id st) parts)"
    and "inbox (cl_link st) = map Arrives (map report_of (concat rss)) @ rest"
  shows "\<exists>st'. for_each (run_part cfg ce) parts st = (Inr (), st') \<and> inbox (cl_link st') = rest \<and>
           send_fault (cl_link st') = (\<lambda>_. None) \<and> link_local (cl_link st') = Inr a \<and>
           cl_next_id st' = cl_next_id st + of_nat (length (concat (map sp_ports parts)))"
  using run_parts_outcomes [OF assms, of cfg ce] by blast

section \<open>The whole session\<close>

definition client_messages :: "'e client_env \<Rightarrow> 'e registry \<Rightarrow> client_config \<Rightarrow> port_spec list \<Rightarrow> message list" where
  "client_messages ce registry cfg ranges =
     configure_message cfg (ce_text ce) #
     concat (map batch_messages (numbered_batches 0 (scan_plan cfg registry ranges))) @ [Done]"

lemma plan_part_known:
  "part \<in> set (scan_plan cfg registry ranges) \<Longrightarrow>
   find_protocol registry (sp_name part) = Some (sp_proto part) \<and>
   sp_transport_str part = transport_as_str (sp_transport part)"
  by (auto simp: scan_plan_def plan_test_def plan_range_def plan_direction_def
      split: option.splits if_splits dest!: sym [of "Some _"])
     (simp_all add: transport_from_str_Some_iff)

lemma numbered_batches_fit:
  "(\<And>part. part \<in> set parts \<Longrightarrow> sp_ports part \<noteq> [] \<and> length (sp_ports part) \<le> unat p \<and>
      find_protocol registry (sp_name part) \<noteq> None \<and>
      sp_transport_str part = transport_as_str (sp_transport part)) \<Longrightarrow>
   list_all (batch_fits registry p) (numbered_batches n parts)"
proof (induction parts arbitrary: n)
  case (Cons part parts)
  then have "list_all (batch_fits registry p)
      (numbered_batches (n + of_nat (length (sp_ports part))) parts)" by auto
  moreover have "list_all (known_entry registry) (numbered part n (sp_ports part))"
    using Cons.prems [of part] by (auto simp: known_entry_def list_all_iff numbered_def)
  then have "batch_fits registry p (numbered part n (sp_ports part))"
    using Cons.prems [of part] by (simp add: batch_fits_def)
  ultimately show ?case by simp
qed simp

lemma plan_fits: "list_all (batch_fits registry (batch_size cfg)) (numbered_batches n (scan_plan cfg registry ranges))"
  by (rule numbered_batches_fit) (auto dest: sp_ports_plan plan_part_known)

text \<open>What the server reports for some batches of a client that configured it with \<open>cfg\<close>.\<close>

definition plan_replies ::
  "addr_text \<Rightarrow> 'e client_env \<Rightarrow> 'e registry \<Rightarrow> client_config \<Rightarrow> 'e session_envs \<Rightarrow> socket_addr \<Rightarrow> nat \<Rightarrow>
   batch_entry list list \<Rightarrow> (u32 \<times> protocol_result) list list" where
  "plan_replies A ce registry cfg envs c =
     server_replies registry envs c
       (Option.bind (Some (show_socket (ce_text ce) (cfg_target_addr cfg))) (parse_configured_bind_addr A))
       (from_millis (unat (cfg_timeout_ms cfg)))"

lemma run_server_replies:
  assumes "send_fault ls = (\<lambda>_. None)" and "link_peer ls = Inr c"
    and "inbox ls = map Arrives (client_messages ce registry cfg ranges)"
    and "rss = plan_replies A ce registry cfg envs c (length (outbox ls) + 1)
                 (numbered_batches 0 (scan_plan cfg registry ranges))"
  shows "\<exists>l'. run_server A registry envs ls = (Inr (results_summary (map snd (concat rss))), l') \<and>
           outbox l' = outbox ls @ Ack True None # map report_of (concat rss) @
             [Bye (results_summary (map snd (concat rss)))]"
proof -
  let ?batches = "numbered_batches 0 (scan_plan cfg registry ranges)"
  let ?l1 = "ls\<lparr>inbox := map Arrives (concat (map batch_messages ?batches) @ [Done])\<rparr>"
  let ?l2 = "?l1\<lparr>outbox := outbox ls @ [Ack True None]\<rparr>"
  let ?b = "Option.bind (Some (show_socket (ce_text ce) (cfg_target_addr cfg))) (parse_configured_bind_addr A)"
  let ?timeout = "from_millis (unat (cfg_timeout_ms cfg))"
  let ?st0 = "\<lparr>sv_link = ?l2, sv_passed = 0, sv_failed = 0, sv_errors = 0\<rparr>"
  have recv: "link_recv ls = (Inr (configure_message cfg (ce_text ce)), ?l1)"
    using assms(3) by (simp add: client_messages_def)
  let ?st' = "reported (concat rss) ?st0"
  define st where "st = ?st'\<lparr>sv_link := (sv_link ?st')\<lparr>inbox := []\<rparr>\<rparr>"
  have "server_loop registry envs c ?b ?timeout (batch_size cfg) ?st0 =
      (Inr (), (let st' = reported (concat (server_replies registry envs c ?b ?timeout
                            (length (outbox (sv_link ?st0))) ?batches)) ?st0
               in st'\<lparr>sv_link := (sv_link st')\<lparr>inbox := []\<rparr>\<rparr>))"
    by (rule server_loop_batches [OF _ plan_fits]) (simp_all add: assms(1))
  then have loop: "server_loop registry envs c ?b ?timeout (batch_size cfg) ?st0 = (Inr (), st)"
    by (simp add: st_def Let_def assms(4) plan_replies_def)
  have out: "outbox (sv_link st) = outbox ls @ Ack True None # map report_of (concat rss)"
    and ok: "send_fault (sv_link st) = (\<lambda>_. None)"
    by (simp_all add: st_def assms(1))
  have summary: "server_summary st = results_summary (map snd (concat rss))"
    by (simp only: st_def server_summary_def results_summary_def reported_def count_results_def filter_map length_map)
      (simp add: o_def case_prod_beta')
  have "run_server A registry envs ls =
      (Inr (server_summary st), (sv_link st)\<lparr>outbox := outbox (sv_link st) @ [Bye (server_summary st)]\<rparr>)"
    using loop assms(1,2) ok
    by (simp add: run_server_def recv configure_message_def batch_size_def Let_def)
  then show ?thesis using out by (auto simp: summary)
qed

lemma run_server_answers:
  assumes "send_fault ls = (\<lambda>_. None)" and "link_peer ls = Inr c"
    and "inbox ls = map Arrives (client_messages ce registry cfg ranges)"
  shows "\<exists>s l' rss. run_server A registry envs ls = (Inr s, l') \<and>
           outbox l' = outbox ls @ Ack True None # map report_of (concat rss) @ [Bye s] \<and>
           list_all2 (\<lambda>rs batch. mset (map fst rs) = mset (map be_id batch)) rss
             (numbered_batches 0 (scan_plan cfg registry ranges))"
  using run_server_replies [OF assms refl, of A envs] ids_server_replies
  unfolding plan_replies_def by blast

text \<open>A client whose configuration was accepted runs its plan, prints its report, sends Done and waits for Bye.\<close>

lemma run_client_acknowledged:
  assumes "send_fault lc = (\<lambda>_. None)" and "link_local lc = Inr a" and "outbox lc = []"
    and valid: "validate_port_ranges (cfg_port_ranges cfg) = Inr ()"
    and ranges: "complete_port_ranges registry (cfg_tests cfg) (cfg_port_ranges cfg) = Inr ranges"
    and inbox: "inbox lc = map Arrives (Ack True msg # ms)"
  obtains st2 where "cl_next_id st2 = 0" "outbox (cl_link st2) = [configure_message cfg (ce_text ce)]"
    "link_local (cl_link st2) = Inr a" "send_fault (cl_link st2) = (\<lambda>_. None)" "inbox (cl_link st2) = map Arrives ms"
    "cl_results st2 = []" "cl_passed st2 = 0" "cl_failed st2 = 0" "cl_errors st2 = 0" "cl_stdout st2 = []"
    "run_client ce registry cfg lc =
       try_then (for_each (run_part cfg ce) (scan_plan cfg registry ranges) st2) (\<lambda>_ st3.
         try_then (client_send Done (st3\<lparr>cl_stdout := cl_stdout st3 @ final_report cfg st3\<rparr>)) (\<lambda>_ st5. await_bye ce st5))"
proof -
  let ?conf = "configure_message cfg (ce_text ce)"
  let ?st1 = "sent_to (initial_client lc) [?conf]"
  define st2 where "st2 = ?st1\<lparr>cl_link := (cl_link ?st1)\<lparr>inbox := map Arrives ms\<rparr>\<rparr>"
  have st2: "cl_batch st2 = []" "cl_next_id st2 = 0" "outbox (cl_link st2) = [?conf]"
    "link_local (cl_link st2) = Inr a" "send_fault (cl_link st2) = (\<lambda>_. None)" "inbox (cl_link st2) = map Arrives ms"
    "cl_results st2 = []" "cl_passed st2 = 0" "cl_failed st2 = 0" "cl_errors st2 = 0" "cl_stdout st2 = []"
    by (simp_all add: st2_def assms initial_client_def)
  have send: "client_send ?conf (initial_client lc) = (Inr (), ?st1)"
    by (rule client_send_healthy) (simp add: initial_client_def assms(1))
  have ack: "recv_ack ?st1 = (Inr (), st2)"
    using inbox by (simp add: recv_ack_def check_ack_def initial_client_def st2_def)
  have scan: "for_each (scan_test cfg ce registry ranges) (cfg_tests cfg) st2 =
      for_each (run_part cfg ce) (scan_plan cfg registry ranges) st2"
    by (rule scan_follows_plan) (simp_all add: st2 complete_port_ranges_known [OF ranges])
  show ?thesis
    by (rule that [OF st2(2-)]) (simp add: run_client_def valid ranges send ack scan Let_def)
qed

text \<open>The outcomes of a scan, from the reports to each batch.\<close>

definition session_outcomes ::
  "'e client_env \<Rightarrow> 'e registry \<Rightarrow> client_config \<Rightarrow> port_spec list \<Rightarrow> socket_addr \<Rightarrow>
   (u32 \<times> protocol_result) list list \<Rightarrow> outcome list" where
  "session_outcomes ce registry cfg ranges a rss =
     reported_outcomes cfg ce a 1 0 (scan_plan cfg registry ranges) rss"

lemma run_client_outcomes:
  assumes "send_fault lc = (\<lambda>_. None)" and "link_local lc = Inr a" and "outbox lc = []"
    and "validate_port_ranges (cfg_port_ranges cfg) = Inr ()"
    and "complete_port_ranges registry (cfg_tests cfg) (cfg_port_ranges cfg) = Inr ranges"
    and "inbox lc = map Arrives (Ack True msg # map report_of (concat rss) @ [Bye b])"
    and ids: "list_all2 (\<lambda>rs batch. mset (map fst rs) = mset (map be_id batch)) rss
                (numbered_batches 0 (scan_plan cfg registry ranges))"
    and ocs: "ocs = session_outcomes ce registry cfg ranges a rss"
  shows "\<exists>st'. run_client ce registry cfg lc = (Inr (results_summary (map oc_result ocs)), st') \<and>
           outbox (cl_link st') = client_messages ce registry cfg ranges \<and>
           cl_results st' = (if keeps_results cfg then map outcome_entry ocs else []) \<and>
           (\<not> renders_live cfg ce \<longrightarrow> cl_stdout st' = session_output cfg ocs)"
proof -
  let ?plan = "scan_plan cfg registry ranges"
  obtain st2 where st2: "cl_next_id st2 = 0" "outbox (cl_link st2) = [configure_message cfg (ce_text ce)]"
    "link_local (cl_link st2) = Inr a" "send_fault (cl_link st2) = (\<lambda>_. None)"
    "inbox (cl_link st2) = map Arrives (map report_of (concat rss) @ [Bye b])"
    "cl_results st2 = []" "cl_passed st2 = 0" "cl_failed st2 = 0" "cl_errors st2 = 0" "cl_stdout st2 = []"
    and run: "run_client ce registry cfg lc = try_then (for_each (run_part cfg ce) ?plan st2) (\<lambda>_ st3.
         try_then (client_send Done (st3\<lparr>cl_stdout := cl_stdout st3 @ final_report cfg st3\<rparr>)) (\<lambda>_ st5. await_bye ce st5))"
    by (rule run_client_acknowledged [OF assms(1-6)])
  have small: "length (sp_ports p) \<le> 65536" if "p \<in> set ?plan" for p
    using sp_ports_plan [OF that] by simp
  have "\<exists>st3. for_each (run_part cfg ce) ?plan st2 = (Inr (), st3) \<and> inbox (cl_link st3) = [Arrives (Bye b)] \<and>
      send_fault (cl_link st3) = (\<lambda>_. None) \<and> link_local (cl_link st3) = Inr a \<and>
      cl_next_id st3 = cl_next_id st2 + of_nat (length (concat (map sp_ports ?plan))) \<and>
      outcomes_recorded cfg ce (reported_outcomes cfg ce a (length (outbox (cl_link st2))) (cl_next_id st2) ?plan rss)
        st2 st3"
    by (rule run_parts_outcomes [of _ a _ rss]) (use ids small in \<open>auto simp: st2\<close>)
  then obtain st3 where st3: "for_each (run_part cfg ce) ?plan st2 = (Inr (), st3)"
    and left: "inbox (cl_link st3) = [Arrives (Bye b)]" and ok: "send_fault (cl_link st3) = (\<lambda>_. None)"
    and rec: "outcomes_recorded cfg ce ocs st2 st3"
    by (auto simp: st2 ocs session_outcomes_def)
  have sent: "outbox (cl_link st3) = [configure_message cfg (ce_text ce)] @ concat (map batch_messages (numbered_batches 0 ?plan))"
    using run_parts_done(1) [OF st3 small] by (simp add: st2)
  let ?st4 = "st3\<lparr>cl_stdout := cl_stdout st3 @ final_report cfg st3\<rparr>"
  have fin: "client_send Done ?st4 = (Inr (), sent_to ?st4 [Done])"
    by (rule client_send_healthy) (simp add: ok)
  let ?st5 = "(sent_to ?st4 [Done])\<lparr>cl_link := (cl_link (sent_to ?st4 [Done]))\<lparr>inbox := []\<rparr>\<rparr>"
  have "run_client ce registry cfg lc = (Inr (client_summary ?st5), ?st5)"
    using left by (simp add: run st3 fin await_bye_def link_recv_def client_summary_def)
  moreover have "client_summary ?st5 = results_summary (map oc_result ocs)"
    using rec by (simp add: client_summary_def outcomes_recorded_def st2)
  moreover have "outcome_lines cfg ocs @ final_report cfg st3 = session_output cfg ocs"
    using rec by (simp add: session_output_def final_report_def outcomes_recorded_def keeps_results_def st2 Let_def)
  ultimately show ?thesis
    using rec sent by (simp add: outcomes_recorded_def st2 client_messages_def)
qed

lemma run_client_completes:
  assumes "send_fault lc = (\<lambda>_. None)" and "link_local lc = Inr a" and "outbox lc = []"
    and "validate_port_ranges (cfg_port_ranges cfg) = Inr ()"
    and "complete_port_ranges registry (cfg_tests cfg) (cfg_port_ranges cfg) = Inr ranges"
    and "inbox lc = map Arrives (Ack True msg # map report_of (concat rss) @ [Bye b])"
    and "list_all2 (\<lambda>rs batch. mset (map fst rs) = mset (map be_id batch)) rss
                (numbered_batches 0 (scan_plan cfg registry ranges))"
  shows "\<exists>s st'. run_client ce registry cfg lc = (Inr s, st') \<and>
           outbox (cl_link st') = client_messages ce registry cfg ranges"
  using run_client_outcomes [OF assms refl, of ce] by blast

lemma lengths_of_ids:
  "list_all2 (\<lambda>rs batch. mset (map fst rs) = mset (map be_id batch)) rss batches \<Longrightarrow>
     length (concat rss) = length (concat batches)"
proof (induction rule: list_all2_induct)
  case Nil
  then show ?case by simp
next
  case (Cons rs rss batch batches)
  from Cons(1) have "length rs = length batch" by (metis length_map size_mset)
  with Cons(3) show ?case by simp
qed

end
