(* ===== verification/Session.thy ===== *)
theory Session
  imports Session_Answers
begin

text \<open>
  Properties of client and server together: a batch combines the reports, a session completes.
\<close>

section \<open>Properties\<close>

text \<open>
  Property C8: when the server reports once for each test of a batch, in any order, the batch
  succeeds, consumes exactly these reports, and records for each test its local result combined
  with the server's: unchanged when the server passed, an error or a failure of the server when
  only the local side passed.
\<close>

theorem batch_combines_reports:
  assumes "distinct (map be_id batch)"
    and "send_fault (cl_link st) = (\<lambda>_. None)" and "link_local (cl_link st) = Inr a"
    and "mset (map fst rs) = mset (map be_id batch)"
    and "inbox (cl_link st) = map Arrives (map report_of rs) @ rest"
  shows "\<exists>st' res err. execute_batch cfg ce proto batch st = (Inr (), st') \<and>
     inbox (cl_link st') = rest \<and> batch_recorded cfg batch res err st st' \<and>
     (\<forall>k < length batch. \<forall>remote. (be_id (batch ! k), remote) \<in> set rs \<longrightarrow>
        res (be_id (batch ! k)) = combined_result remote
          (local_result cfg ce proto a (length (outbox (cl_link st'))) batch k) \<and>
        err (be_id (batch ! k)) = remote_error remote)"
  using execute_batch_completes [OF assms, of cfg ce proto] by blast

theorem batch_combines_reports_witness:
  "\<exists>st' res err. execute_batch demo_config demo_client demo_proto [demo_entry]
       (demo_state [report_of (7, Error ''no socket'')]) = (Inr (), st') \<and>
     res 7 = Error ''server: no socket'' \<and> err 7 = Some ''no socket'' \<and>
     batch_recorded demo_config [demo_entry] res err (demo_state [report_of (7, Error ''no socket'')]) st'"
proof -
  have loc: "local_result demo_config demo_client demo_proto demo_addr n [demo_entry] 0 = Pass 1 1" for n
    by (simp add: local_result_def demo_client_def)
  have id7: "be_id demo_entry = 7" by (simp add: demo_entry_def)
  from batch_combines_reports [of "[demo_entry]" "demo_state [report_of (7, Error ''no socket'')]"
      demo_addr "[(7, Error ''no socket'')]" "[]" demo_config demo_client demo_proto]
  show ?thesis by (auto simp: demo_state_def id7 loc)
qed

text \<open>
  Client and server complete a session together. Whatever the probes meet on either
  side, on healthy connections the server answers what the client sends and ends with its summary,
  the client accepts what the server answers and ends with its own, each received exactly what the
  other sent, and both summaries count every planned test (in 32 bits).
\<close>

theorem session_completes:
  assumes "send_fault lc = (\<lambda>_. None)" and "link_local lc = Inr a" and "outbox lc = []"
    and "send_fault ls = (\<lambda>_. None)" and "link_peer ls = Inr c" and "outbox ls = []"
    and "validate_port_ranges (cfg_port_ranges cfg) = Inr ()"
    and "complete_port_ranges registry (cfg_tests cfg) (cfg_port_ranges cfg) = Inr ranges"
  shows "\<exists>s_client s_server l' st'.
     run_server A registry envs (ls\<lparr>inbox := map Arrives (client_messages ce registry cfg ranges)\<rparr>) =
       (Inr s_server, l') \<and>
     run_client ce registry cfg (lc\<lparr>inbox := map Arrives (outbox l')\<rparr>) = (Inr s_client, st') \<and>
     outbox (cl_link st') = client_messages ce registry cfg ranges \<and>
     summary_total s_client = of_nat (length (all_tests cfg registry ranges)) \<and>
     summary_total s_server = of_nat (length (all_tests cfg registry ranges))"
proof -
  let ?ls = "ls\<lparr>inbox := map Arrives (client_messages ce registry cfg ranges)\<rparr>"
  obtain s l' rss where server: "run_server A registry envs ?ls = (Inr s, l')"
    and out: "outbox l' = Ack True None # map report_of (concat rss) @ [Bye s]"
    and ids: "list_all2 (\<lambda>rs batch. mset (map fst rs) = mset (map be_id batch)) rss
             (numbered_batches 0 (scan_plan cfg registry ranges))"
    using run_server_answers [of ?ls c ce registry cfg ranges A envs] assms(4-6) by auto
  obtain s' st' where client: "run_client ce registry cfg (lc\<lparr>inbox := map Arrives (outbox l')\<rparr>) = (Inr s', st')"
    and sent: "outbox (cl_link st') = client_messages ce registry cfg ranges"
    using run_client_completes [of "lc\<lparr>inbox := map Arrives (outbox l')\<rparr>" a cfg registry ranges None rss s ce]
      assms(1-3,7,8) out ids by auto
  have "summary_total s' = of_nat (length (all_tests cfg registry ranges))"
    by (rule run_client_effect [OF client]) (use assms(8) in simp)
  moreover have "summary_total s = of_nat (length (all_tests cfg registry ranges))"
    using run_server_total [OF server, of "concat rss" s] out assms(6) lengths_of_ids [OF ids]
    by (simp add: length_numbered_batches plan_covers)
  ultimately show ?thesis using server client sent by blast
qed

lemma demo_ranges:
  "validate_port_ranges (cfg_port_ranges demo_config) = Inr ()"
  "complete_port_ranges demo_registry (cfg_tests demo_config) (cfg_port_ranges demo_config) =
     Inr [(''tcp'', 80, 81)]"
  by (simp_all add: demo_config_def validate_port_ranges_def extend_port_ranges_def has_matching_def
      transport_from_str_def)

theorem session_completes_witness:
  "\<exists>s_client s_server l' st'.
     run_server demo_text demo_registry demo_envs
       ((demo_link [])\<lparr>inbox := map Arrives
          (client_messages demo_client demo_registry demo_config [(''tcp'', 80, 81)])\<rparr>) = (Inr s_server, l') \<and>
     run_client demo_client demo_registry demo_config ((demo_link [])\<lparr>inbox := map Arrives (outbox l')\<rparr>) =
       (Inr s_client, st') \<and>
     outbox (cl_link st') = client_messages demo_client demo_registry demo_config [(''tcp'', 80, 81)] \<and>
     summary_total s_client = of_nat (length (all_tests demo_config demo_registry [(''tcp'', 80, 81)])) \<and>
     summary_total s_server = of_nat (length (all_tests demo_config demo_registry [(''tcp'', 80, 81)]))"
  by (rule session_completes [OF _ _ _ _ _ _ demo_ranges]) simp_all

lemma demo_session:
  "\<exists>l s st'. run_client demo_client demo_registry demo_config l = (Inr s, st') \<and> outbox l = []"
proof -
  let ?ls = "demo_link (client_messages demo_client demo_registry demo_config [(''tcp'', 80, 81)])"
  have "\<exists>s l' rss. run_server demo_text demo_registry demo_envs ?ls = (Inr s, l') \<and>
           outbox l' = outbox ?ls @ Ack True None # map report_of (concat rss) @ [Bye s] \<and>
           list_all2 (\<lambda>rs batch. mset (map fst rs) = mset (map be_id batch)) rss
             (numbered_batches 0 (scan_plan demo_config demo_registry [(''tcp'', 80, 81)]))"
    by (rule run_server_answers) simp_all
  then have "\<exists>s l' rss. run_server demo_text demo_registry demo_envs ?ls = (Inr s, l') \<and>
           outbox l' = Ack True None # map report_of (concat rss) @ [Bye s] \<and>
           list_all2 (\<lambda>rs batch. mset (map fst rs) = mset (map be_id batch)) rss
             (numbered_batches 0 (scan_plan demo_config demo_registry [(''tcp'', 80, 81)]))"
    by (simp only: demo_link_fields append_Nil)
  then obtain s rss and l' :: link where
    out: "outbox l' = Ack True None # map report_of (concat rss) @ [Bye s]"
    and ids: "list_all2 (\<lambda>rs batch. mset (map fst rs) = mset (map be_id batch)) rss
             (numbered_batches 0 (scan_plan demo_config demo_registry [(''tcp'', 80, 81)]))"
    by (elim exE conjE) (rule that)
  show ?thesis
    using run_client_completes [OF _ _ _ demo_ranges _ ids, of "demo_link (outbox l')" demo_addr None s demo_client]
      out by (intro exI [of _ "demo_link (outbox l')"]) auto
qed

theorem client_session_conversation_witness:
  "\<exists>l s st'. run_client demo_client demo_registry demo_config l = (Inr s, st') \<and>
     summary_passed s + summary_failed s + summary_errors s = 2"
proof -
  obtain l s st' where run: "run_client demo_client demo_registry demo_config l = (Inr s, st')"
    using demo_session by blast
  have "length (all_tests demo_config demo_registry [(''tcp'', 80, 81)]) = 2"
    by (simp add: plan_covers [symmetric] demo_plan)
  with client_session_conversation [OF run] demo_ranges(2) run show ?thesis by auto
qed

theorem client_session_results_witness:
  "\<exists>l s st'. run_client demo_client demo_registry demo_config l = (Inr s, st') \<and>
     map te_test (cl_results st') =
       [(''open'', ''tcp'', ClientToServer, 80), (''open'', ''tcp'', ClientToServer, 81)] \<and>
     tallied st'"
proof -
  obtain l s st' where run: "run_client demo_client demo_registry demo_config l = (Inr s, st')"
    using demo_session by blast
  have "all_tests demo_config demo_registry [(''tcp'', 80, 81)] =
      [(''open'', ''tcp'', ClientToServer, 80), (''open'', ''tcp'', ClientToServer, 81)]"
    by (simp add: plan_covers [symmetric] demo_plan part_tests_def)
  moreover have "keeps_results demo_config" by (simp add: keeps_results_def demo_config_def)
  ultimately show ?thesis
    using client_session_results [OF run] demo_ranges(2) run
    by (intro exI [of _ l] exI [of _ s] exI [of _ st']) simp
qed

end
