(* ===== verification/Cli.thy ===== *)
theory Cli
  imports Probe_Types
begin

text \<open>
  The command line (\<open>src/cli.rs\<close>): parsing the \<open>--port-range\<close> specifications
  \<open><transport>/<port>\<close>, \<open><transport>/<start>-<end>\<close>, \<open>icmp/any\<close> and \<open>icmp/icmp\<close>. The option
  parser itself (clap) is not modelled.
\<close>

definition quote :: string where
  "quote = [CHR 0x27]"

definition invalid_spec :: "string \<Rightarrow> string \<Rightarrow> string" where
  "invalid_spec specification why =
     ''invalid port-range '' @ quote @ specification @ quote @ '': '' @ why"

definition not_a_port :: string where
  "not_a_port = ''ports must be integers from 0 to 65535''"

definition parse_port :: "string \<Rightarrow> string \<Rightarrow> string + u16" where
  "parse_port specification v =
     (if v = [] \<or> \<not> list_all is_ascii_digit v then Inl (invalid_spec specification not_a_port)
      else if parse_digits v < 2 ^ 16 then Inr (word_of_nat (parse_digits v))
      else Inl (invalid_spec specification not_a_port))"

definition parse_bounds :: "string \<Rightarrow> string \<Rightarrow> string + u16 \<times> u16" where
  "parse_bounds specification rng =
     (case split_once (CHR ''-'') rng of
        Some (lower, upper) \<Rightarrow>
          and_then (parse_port specification lower) (\<lambda>s.
          and_then (parse_port specification upper) (\<lambda>e. Inr (s, e)))
      | None \<Rightarrow> and_then (parse_port specification rng) (\<lambda>p. Inr (p, p)))"

definition parse_port_range :: "string \<Rightarrow> string + port_spec" where
  "parse_port_range specification =
     (case split_once (CHR ''/'') specification of
        None \<Rightarrow> Inl (invalid_spec specification ''expected transport/port or transport/start-end'')
      | Some (transport, rng) \<Rightarrow>
          if transport \<notin> {''tcp'', ''udp'', ''icmp''} then
            Inl (invalid_spec specification ''transport must be tcp, udp, or icmp'')
          else if transport = ''icmp'' \<and> rng \<in> {''any'', ''icmp''} then Inr (transport, 0, 0)
          else and_then (parse_bounds specification rng) (\<lambda>(s, e).
                 if s > e then
                   Inl (invalid_spec specification ''range start must not exceed range end'')
                 else Inr (transport, s, e)))"

definition parse_port_ranges :: "string list \<Rightarrow> string + port_spec list" where
  "parse_port_ranges specifications = collect_results parse_port_range specifications"

section \<open>The language of specifications\<close>

text \<open>A decimal port: ASCII digits only, at least one, with a value below 65536.\<close>

definition denotes_port :: "string \<Rightarrow> u16 \<Rightarrow> bool" where
  "denotes_port v p \<longleftrightarrow> v \<noteq> [] \<and> list_all is_ascii_digit v \<and> parse_digits v = unat p"

lemma parse_port_Inr_iff: "parse_port spec v = Inr p \<longleftrightarrow> denotes_port v p"
  using unat_u16_bound [of p]
  by (auto simp: parse_port_def denotes_port_def unat_of_nat)

lemma denotes_port_no_dash: "denotes_port v p \<Longrightarrow> CHR ''-'' \<notin> set v"
  by (auto simp: denotes_port_def list_all_iff is_ascii_digit_def)

lemma denotes_port_no_slash: "denotes_port v p \<Longrightarrow> CHR ''/'' \<notin> set v"
  by (auto simp: denotes_port_def list_all_iff is_ascii_digit_def)

lemma denotes_port_show: "denotes_port (show_nat (unat p)) p"
  using show_nat_digits by (simp add: denotes_port_def)

lemma denotes_port_not_word: "\<not> denotes_port ''any'' p" "\<not> denotes_port ''icmp'' p"
  by (simp_all add: denotes_port_def is_ascii_digit_def)

lemma no_dash_in_words [simp]:
  "''any'' \<noteq> a @ CHR ''-'' # b" "''icmp'' \<noteq> a @ CHR ''-'' # b"
proof -
  have "w \<noteq> a @ CHR ''-'' # b" if "CHR ''-'' \<notin> set w" for w
    using that by auto
  from this [of "''any''"] this [of "''icmp''"]
  show "''any'' \<noteq> a @ CHR ''-'' # b" "''icmp'' \<noteq> a @ CHR ''-'' # b"
    by simp_all
qed

lemma parse_bounds_Inr_iff:
  "parse_bounds spec rng = Inr (s, e) \<longleftrightarrow>
     (\<exists>a b. rng = a @ CHR ''-'' # b \<and> denotes_port a s \<and> denotes_port b e) \<or>
     (denotes_port rng s \<and> s = e)"
proof (cases "split_once (CHR ''-'') rng")
  case None
  then have "CHR ''-'' \<notin> set rng" by (simp add: split_once_None_iff)
  with None show ?thesis
    by (auto simp: parse_bounds_def and_then_Inr_iff parse_port_Inr_iff)
next
  case (Some ab)
  obtain a b where ab: "ab = (a, b)" by fastforce
  from split_once_SomeD [OF Some [unfolded ab]] have r: "rng = a @ CHR ''-'' # b" "CHR ''-'' \<notin> set a"
    by auto
  have "a' = a \<and> b' = b" if "rng = a' @ CHR ''-'' # b'" "denotes_port a' s" for a' b'
    using first_occurrence_unique [of a' "CHR ''-''" b' a b] that r denotes_port_no_dash by auto
  moreover have "\<not> denotes_port rng s" using r(1) denotes_port_no_dash [of rng s] by auto
  moreover have "parse_bounds spec rng = Inr (s, e) \<longleftrightarrow> denotes_port a s \<and> denotes_port b e"
    using Some ab by (simp add: parse_bounds_def and_then_Inr_iff parse_port_Inr_iff)
  ultimately show ?thesis using r(1) by blast
qed

lemma parse_bounds_spec:
  "parse_bounds spec r = Inr x \<Longrightarrow> \<exists>s e. x = (s, e) \<and> parse_bounds spec' r = Inr (s, e)"
  by (cases x) (simp add: parse_bounds_Inr_iff)

text \<open>What a specification means, independently of how it is parsed.\<close>

definition spec_denotes :: "string \<Rightarrow> port_spec \<Rightarrow> bool" where
  "spec_denotes spec r \<longleftrightarrow>
     (case r of (t, s, e) \<Rightarrow>
        t \<in> {''tcp'', ''udp'', ''icmp''} \<and> s \<le> e \<and>
        ((t = ''icmp'' \<and> s = 0 \<and> e = 0 \<and> spec \<in> {''icmp/any'', ''icmp/icmp''}) \<or>
         (\<exists>a b. spec = t @ ''/'' @ a @ ''-'' @ b \<and> denotes_port a s \<and> denotes_port b e) \<or>
         (\<exists>a. spec = t @ ''/'' @ a \<and> denotes_port a s \<and> s = e)))"

lemma transport_no_slash: "t \<in> {''tcp'', ''udp'', ''icmp''} \<Longrightarrow> CHR ''/'' \<notin> set t"
  by auto

lemma parse_port_range_slash:
  assumes "t \<in> {''tcp'', ''udp'', ''icmp''}" and "spec = t @ CHR ''/'' # rng"
  shows "parse_port_range spec =
    (if t = ''icmp'' \<and> rng \<in> {''any'', ''icmp''} then Inr (t, 0, 0)
     else and_then (parse_bounds spec rng) (\<lambda>(s, e).
       if s > e then Inl (invalid_spec spec ''range start must not exceed range end'')
       else Inr (t, s, e)))"
proof -
  have "split_once (CHR ''/'') spec = Some (t, rng)"
    unfolding assms(2) by (rule split_once_append [OF transport_no_slash [OF assms(1)]])
  with assms(1) show ?thesis by (auto simp: parse_port_range_def)
qed

lemma parse_port_range_no_transport:
  assumes "\<And>t rng. t \<in> {''tcp'', ''udp'', ''icmp''} \<Longrightarrow> spec \<noteq> t @ CHR ''/'' # rng"
  shows "\<exists>e. parse_port_range spec = Inl e"
proof (cases "split_once (CHR ''/'') spec")
  case None
  then show ?thesis by (simp add: parse_port_range_def)
next
  case (Some tr)
  then obtain t rng where "split_once (CHR ''/'') spec = Some (t, rng)" by (cases tr) auto
  with split_once_SomeD [OF this] assms [of t rng] show ?thesis
    by (auto simp: parse_port_range_def)
qed

lemma slash_unique:
  assumes "t @ CHR ''/'' # a = t' @ CHR ''/'' # b"
    and "t \<in> {''tcp'', ''udp'', ''icmp''}" and "t' \<in> {''tcp'', ''udp'', ''icmp''}"
  shows "t = t' \<and> a = b"
  by (rule first_occurrence_unique [OF assms(1)])
     (rule transport_no_slash [OF assms(2)], rule transport_no_slash [OF assms(3)])

lemma spec_denotes_slash:
  assumes t: "t \<in> {''tcp'', ''udp'', ''icmp''}" and spec: "spec = t @ CHR ''/'' # rng"
  shows "spec_denotes spec (t', s, e) \<longleftrightarrow>
    t' = t \<and> s \<le> e \<and>
    ((t = ''icmp'' \<and> s = 0 \<and> e = 0 \<and> rng \<in> {''any'', ''icmp''}) \<or>
     (\<exists>a b. rng = a @ CHR ''-'' # b \<and> denotes_port a s \<and> denotes_port b e) \<or>
     (denotes_port rng s \<and> s = e))" (is "?l \<longleftrightarrow> ?r")
proof
  assume l: ?l
  then have t': "t' \<in> {''tcp'', ''udp'', ''icmp''}" "s \<le> e" by (auto simp: spec_denotes_def)
  have same: "t' = t \<and> a = rng" if "spec = t' @ CHR ''/'' # a" for a
    using slash_unique [of t' a t rng] that spec t t'(1) by simp
  from l consider
      (any) "t' = ''icmp''" "s = 0" "e = 0" "spec = ''icmp/any'' \<or> spec = ''icmp/icmp''"
    | (two) a b where "spec = t' @ CHR ''/'' # (a @ CHR ''-'' # b)" "denotes_port a s" "denotes_port b e"
    | (one) a where "spec = t' @ CHR ''/'' # a" "denotes_port a s" "s = e"
    by (auto simp: spec_denotes_def)
  then show ?r
  proof cases
    case any
    with same [of "''any''"] same [of "''icmp''"] show ?thesis by auto
  next
    case two
    with same t' show ?thesis by blast
  next
    case one
    with same t' show ?thesis by blast
  qed
next
  assume ?r
  with t show ?l by (auto simp: spec_denotes_def spec)
qed

lemma parse_port_range_denotes: "parse_port_range spec = Inr r \<longleftrightarrow> spec_denotes spec r"
proof (cases "\<exists>t rng. t \<in> {''tcp'', ''udp'', ''icmp''} \<and> spec = t @ CHR ''/'' # rng")
  case True
  then obtain t rng where t: "t \<in> {''tcp'', ''udp'', ''icmp''}" and spec: "spec = t @ CHR ''/'' # rng"
    by blast
  obtain t' s e where r: "r = (t', s, e)" by (cases r) auto
  show ?thesis
    unfolding r parse_port_range_slash [OF t spec] spec_denotes_slash [OF t spec]
    by (auto simp: and_then_Inr_iff parse_bounds_Inr_iff denotes_port_not_word not_less
        split: if_splits)
next
  case False
  then have "\<exists>e. parse_port_range spec = Inl e" by (intro parse_port_range_no_transport) blast
  moreover from False have "\<not> spec_denotes spec r"
    by (cases r) (auto simp: spec_denotes_def)
  ultimately show ?thesis by auto
qed

text \<open>The specification a range is written as, and its round trip through the parser.\<close>

definition show_port_spec :: "port_spec \<Rightarrow> string" where
  "show_port_spec r = (case r of (t, s, e) \<Rightarrow>
     t @ ''/'' @ show_nat (unat s) @ ''-'' @ show_nat (unat e))"

definition port_spec_ok :: "port_spec \<Rightarrow> bool" where
  "port_spec_ok r = (case r of (t, s, e) \<Rightarrow> t \<in> {''tcp'', ''udp'', ''icmp''} \<and> s \<le> e)"

lemma spec_denotes_show: "port_spec_ok r \<Longrightarrow> spec_denotes (show_port_spec r) r"
  by (cases r) (auto simp: spec_denotes_def port_spec_ok_def show_port_spec_def intro!: exI denotes_port_show)

lemma parse_port_range_ok: "parse_port_range spec = Inr r \<Longrightarrow> port_spec_ok r"
  using parse_port_range_denotes [of spec r] by (auto simp: spec_denotes_def port_spec_ok_def)


lemma parse_port_ranges_ok: "parse_port_ranges specs = Inr rs \<Longrightarrow> list_all port_spec_ok rs"
  unfolding parse_port_ranges_def collect_results_Inr_iff
  by (induction rule: list_all2_induct) (simp_all add: parse_port_range_ok)

section \<open>Properties\<close>

text \<open>
  Property C26: the parser accepts exactly the specifications of the grammar \<open>transport/port\<close>,
  \<open>transport/start-end\<close> and \<open>icmp/any\<close>, and returns exactly the range they denote.
\<close>

theorem parse_port_range_iff: "parse_port_range spec = Inr r \<longleftrightarrow> spec_denotes spec r"
  by (rule parse_port_range_denotes)

text \<open>
  Whatever the parser of a list returns is well formed, entry by entry (a known
  transport, start not above end), and each such range written out parses back to itself.
\<close>

theorem parse_port_ranges_round_trip:
  assumes "parse_port_ranges specs = Inr rs"
  shows "length rs = length specs \<and> list_all port_spec_ok rs \<and>
         parse_port_ranges (map show_port_spec rs) = Inr rs"
proof -
  have all: "list_all2 (\<lambda>x y. parse_port_range x = Inr y) specs rs"
    using assms by (simp add: parse_port_ranges_def collect_results_Inr_iff)
  from parse_port_ranges_ok [OF assms] have ok: "list_all port_spec_ok rs" .
  then have "list_all2 (\<lambda>x y. parse_port_range x = Inr y) (map show_port_spec rs) rs"
    by (induction rs) (simp_all add: parse_port_range_denotes spec_denotes_show)
  with all ok show ?thesis
    by (simp add: parse_port_ranges_def collect_results_Inr_iff list_all2_lengthD)
qed

theorem parse_port_ranges_round_trip_witness:
  "parse_port_ranges (map show_port_spec [(''icmp'', 0, 0)]) = Inr [(''icmp'', 0, 0)]"
proof -
  have "parse_port_ranges [''icmp/any''] = Inr [(''icmp'', 0, 0)]"
    by (simp add: parse_port_ranges_def parse_port_range_def)
  from parse_port_ranges_round_trip [OF this] show ?thesis by blast
qed

end
