(* ===== verification/Tls_Pin.thy ===== *)
theory Tls_Pin
  imports Bimap_Prelude
begin

text \<open>
  The certificate pin of the control connection (\<open>PeerVerifier\<close> of \<open>src/control/tls.rs\<close>): how the
  client compares the certificate the server shows with the fingerprint the user gave. The hash is a
  parameter: \<open>hex c\<close> is the lower-case hexadecimal SHA-256 of the certificate \<open>c\<close>.
\<close>

section \<open>Standard library on strings\<close>

definition to_ascii_lower :: "char \<Rightarrow> char" where
  "to_ascii_lower c =
     (let n = of_char c :: nat in if 65 \<le> n \<and> n \<le> 90 then char_of (n + 32) else c)"

definition eq_ignore_ascii_case :: "string \<Rightarrow> string \<Rightarrow> bool" where
  "eq_ignore_ascii_case a b \<longleftrightarrow> map to_ascii_lower a = map to_ascii_lower b"

text \<open>
  The UTF-8 forms of the characters with the property \<open>White_Space\<close>, which \<open>str::trim\<close> strips.
\<close>

definition utf8 :: "nat list \<Rightarrow> string" where
  "utf8 bs = map char_of bs"

definition white_space :: "string list" where
  "white_space =
     map utf8 ([[9], [10], [11], [12], [13], [32], [0xC2, 0x85], [0xC2, 0xA0], [0xE1, 0x9A, 0x80]] @
       map (\<lambda>b. [0xE2, 0x80, b]) ([0x80..<0x8B] @ [0xA8, 0xA9, 0xAF]) @
       [[0xE2, 0x81, 0x9F], [0xE3, 0x80, 0x80]])"

lemma white_space_nonempty: "w \<in> set white_space \<Longrightarrow> w \<noteq> []"
  by (auto simp: white_space_def utf8_def simp del: upt_Suc)

function trim_with :: "string list \<Rightarrow> string \<Rightarrow> string" where
  "trim_with ws s =
     (case find (\<lambda>w. w \<noteq> [] \<and> starts_with w s) ws of
        None \<Rightarrow> s
      | Some w \<Rightarrow> trim_with ws (drop (length w) s))"
  by pat_completeness auto
termination
proof (relation "measure (\<lambda>(ws, s). length s)", goal_cases)
  case (2 ws s w)
  then have "w \<noteq> []" "starts_with w s" by (auto simp: find_Some_iff)
  then show ?case by (cases s; cases w) auto
qed simp

declare trim_with.simps [simp del]

definition trim :: "string \<Rightarrow> string" where
  "trim s = rev (trim_with (map rev white_space) (rev (trim_with white_space s)))"

section \<open>The verifier\<close>

definition pinned_digest :: "string \<Rightarrow> string" where
  "pinned_digest expected =
     (case split_once (CHR '':'') (trim expected) of
        Some (prefix, digest) \<Rightarrow>
          if eq_ignore_ascii_case prefix ''sha256'' then digest else trim expected
      | None \<Rightarrow> trim expected)"

definition fingerprint_mismatch :: string where
  "fingerprint_mismatch = ''certificate fingerprint mismatch''"

definition verify_server_cert :: "(bytes \<Rightarrow> string) \<Rightarrow> string option \<Rightarrow> bytes \<Rightarrow> string + unit" where
  "verify_server_cert hex expected end_entity =
     (case expected of
        None \<Rightarrow> Inr ()
      | Some e \<Rightarrow>
          if \<not> eq_ignore_ascii_case (hex end_entity) (pinned_digest e)
          then Inl fingerprint_mismatch else Inr ())"

text \<open>The fingerprint \<open>generate_ephemeral_cert\<close> gives for a certificate.\<close>

definition cert_fingerprint :: "(bytes \<Rightarrow> string) \<Rightarrow> bytes \<Rightarrow> string" where
  "cert_fingerprint hex cert = ''SHA256:'' @ hex cert"

section \<open>Lemmas\<close>

text \<open>A lower-case hexadecimal digest.\<close>

definition hex_digit :: "char \<Rightarrow> bool" where
  "hex_digit c \<longleftrightarrow> c \<in> set ''0123456789abcdef''"

definition hex_text :: "string \<Rightarrow> bool" where
  "hex_text s \<longleftrightarrow> s \<noteq> [] \<and> list_all hex_digit s"

lemma hex_digit_lower: "hex_digit c \<Longrightarrow> to_ascii_lower c = c"
  by (auto simp: hex_digit_def to_ascii_lower_def)

lemma hex_text_lower: "list_all hex_digit s \<Longrightarrow> map to_ascii_lower s = s"
  by (induction s) (simp_all add: hex_digit_lower)

text \<open>The first and the last byte of a white-space character are not printable ASCII.\<close>

definition printable :: "char \<Rightarrow> bool" where
  "printable c \<longleftrightarrow> 33 \<le> (of_char c :: nat) \<and> (of_char c :: nat) \<le> 126"

lemma white_space_hd: "w \<in> set white_space \<Longrightarrow> \<not> printable (hd w) \<and> \<not> printable (last w)"
  by (auto simp: white_space_def utf8_def printable_def simp del: upt_Suc)

lemma hex_digit_printable: "hex_digit c \<Longrightarrow> printable c"
  by (auto simp: hex_digit_def printable_def)

lemma trim_with_stops:
  assumes "s \<noteq> []" and "printable (hd s)" and "\<And>w. w \<in> set ws \<Longrightarrow> w \<noteq> [] \<Longrightarrow> \<not> printable (hd w)"
  shows "trim_with ws s = s"
proof -
  have "find (\<lambda>w. w \<noteq> [] \<and> starts_with w s) ws = None"
  proof (rule find_None_iff [THEN iffD2], rule notI)
    assume "\<exists>w. w \<in> set ws \<and> w \<noteq> [] \<and> starts_with w s"
    then obtain w where "w \<in> set ws" "w \<noteq> []" "starts_with w s" by blast
    with assms(1,2) assms(3) [of w] show False by (cases w; cases s) auto
  qed
  then show ?thesis by (subst trim_with.simps) simp
qed

lemma trim_with_strips:
  assumes "w \<in> set ws" and "w \<noteq> []" and "\<And>v. v \<in> set ws \<Longrightarrow> v \<noteq> [] \<Longrightarrow> starts_with v (w @ s) \<Longrightarrow> v = w"
  shows "trim_with ws (w @ s) = trim_with ws s"
proof -
  obtain v where v: "find (\<lambda>v. v \<noteq> [] \<and> starts_with v (w @ s)) ws = Some v"
    using assms(1,2) by (metis (mono_tags, lifting) find_None_iff option.exhaust starts_with_append)
  then have "v = w" using assms(3) by (auto simp: find_Some_iff)
  with v show ?thesis by (subst trim_with.simps) simp
qed

lemma trim_printable:
  assumes "s \<noteq> []" and "printable (hd s)" and "printable (last s)"
  shows "trim s = s"
proof -
  have "trim_with white_space s = s"
    by (rule trim_with_stops) (use assms white_space_hd in auto)
  moreover have "trim_with (map rev white_space) (rev s) = rev s"
  proof (rule trim_with_stops)
    show "rev s \<noteq> []" "printable (hd (rev s))" using assms by (simp_all add: hd_rev)
    fix w assume "w \<in> set (map rev white_space)" and "w \<noteq> []"
    then show "\<not> printable (hd w)" using white_space_hd by (auto simp: hd_rev)
  qed
  ultimately show ?thesis by (simp add: trim_def)
qed

lemma pinned_digest_prefixed:
  assumes "hex_text d" and "eq_ignore_ascii_case prefix ''sha256''"
  shows "pinned_digest (prefix @ CHR '':'' # d) = d"
proof -
  have len: "length prefix = 6"
    using arg_cong [OF assms(2) [unfolded eq_ignore_ascii_case_def], of length] by simp
  have lower: "map to_ascii_lower prefix = ''sha256''"
    using assms(2) by (simp add: eq_ignore_ascii_case_def to_ascii_lower_def)
  have colon: "CHR '':'' \<notin> set prefix"
  proof
    assume "CHR '':'' \<in> set prefix"
    then have "to_ascii_lower (CHR '':'') \<in> set (map to_ascii_lower prefix)" by force
    then show False by (simp add: lower to_ascii_lower_def)
  qed
  obtain p ps where prefix: "prefix = p # ps" using len by (cases prefix) auto
  have p: "to_ascii_lower p = CHR ''s''" using lower prefix by simp
  have "printable p"
  proof (cases "65 \<le> (of_char p :: nat) \<and> (of_char p :: nat) \<le> 90")
    case True
    then show ?thesis by (simp add: printable_def)
  next
    case False
    then have "to_ascii_lower p = p" by (auto simp: to_ascii_lower_def Let_def)
    with p show ?thesis by (simp add: printable_def)
  qed
  moreover have "printable (last d)"
    using assms(1) by (auto simp: hex_text_def list_all_iff intro: hex_digit_printable)
  ultimately have "trim (prefix @ CHR '':'' # d) = prefix @ CHR '':'' # d"
    using assms(1) by (intro trim_printable) (auto simp: prefix hex_text_def)
  with colon assms(2) show ?thesis by (simp add: pinned_digest_def)
qed


lemma white_space_space:
  "list_all (\<lambda>v. hd v = CHR '' '' \<longrightarrow> v = '' '') white_space"
  "list_all (\<lambda>v. hd v = CHR '' '' \<longrightarrow> v = '' '') (map rev white_space)"
  "list_ex (\<lambda>v. v = '' '') white_space"
  by code_simp+

lemma starts_with_space:
  "v \<noteq> [] \<Longrightarrow> starts_with v (c # s) \<Longrightarrow> hd v = c"
  by (cases v) auto

lemma trim_with_spaces:
  assumes "ws = white_space \<or> ws = map rev white_space"
  shows "trim_with ws (replicate n (CHR '' '') @ s) = trim_with ws s"
proof (induction n)
  case (Suc n)
  have mem: "'' '' \<in> set ws"
    using assms white_space_space(3) by (auto simp: list_ex_iff image_iff intro!: bexI [of _ "'' ''"])
  have only: "v = '' ''" if "v \<in> set ws" "hd v = CHR '' ''" for v
    using assms white_space_space(1,2) that by (auto simp: list_all_iff)
  have "trim_with ws ('' '' @ (replicate n (CHR '' '') @ s)) = trim_with ws (replicate n (CHR '' '') @ s)"
    by (rule trim_with_strips [OF mem]) (use only starts_with_space in auto)
  with Suc show ?case by simp
qed simp

lemma trim_spaces:
  assumes "s \<noteq> []" and "printable (hd s)" and "printable (last s)"
  shows "trim (replicate n (CHR '' '') @ s @ replicate m (CHR '' '')) = s"
proof -
  let ?t = "s @ replicate m (CHR '' '')"
  have "trim_with white_space ?t = ?t"
    by (rule trim_with_stops) (use assms white_space_hd in auto)
  moreover have "trim_with (map rev white_space) (rev s) = rev s"
  proof (rule trim_with_stops)
    show "rev s \<noteq> []" "printable (hd (rev s))" using assms by (simp_all add: hd_rev)
    fix w assume "w \<in> set (map rev white_space)" and "w \<noteq> []"
    then show "\<not> printable (hd w)" using white_space_hd by (auto simp: hd_rev)
  qed
  ultimately show ?thesis
    by (simp add: trim_def trim_with_spaces)
qed

section \<open>Properties\<close>

lemma verify_advertised:
  assumes "hex_text (hex cert)"
  shows "verify_server_cert hex
           (Some (replicate n (CHR '' '') @ cert_fingerprint hex cert @ replicate m (CHR '' ''))) cert = Inr ()"
proof -
  have ends: "printable (hd (cert_fingerprint hex cert))" "printable (last (cert_fingerprint hex cert))"
    using assms hex_digit_printable [of "last (hex cert)"]
    by (auto simp: cert_fingerprint_def hex_text_def list_all_iff) (simp add: printable_def)
  have "trim (cert_fingerprint hex cert) = cert_fingerprint hex cert"
    by (rule trim_printable) (use ends in \<open>auto simp: cert_fingerprint_def\<close>)
  moreover have "trim (replicate n (CHR '' '') @ cert_fingerprint hex cert @ replicate m (CHR '' '')) =
      cert_fingerprint hex cert"
    by (rule trim_spaces) (use ends in \<open>auto simp: cert_fingerprint_def\<close>)
  moreover have "pinned_digest (''SHA256'' @ CHR '':'' # hex cert) = hex cert"
    by (rule pinned_digest_prefixed [OF assms]) (simp add: eq_ignore_ascii_case_def to_ascii_lower_def char_of_def bit_0)
  moreover have "to_ascii_lower (CHR ''S'') = to_ascii_lower (CHR ''s'')"
    "to_ascii_lower (CHR ''H'') = to_ascii_lower (CHR ''h'')"
    "to_ascii_lower (CHR ''A'') = to_ascii_lower (CHR ''a'')"
    by (simp_all add: to_ascii_lower_def char_of_def bit_0)
  ultimately show ?thesis
    by (simp add: verify_server_cert_def pinned_digest_def eq_ignore_ascii_case_def cert_fingerprint_def)
qed

text \<open>
  Property C28: the fingerprint the server advertises, with any spaces around it, is accepted as a
  pin for its certificate; and a pin identifies one digest: two certificates accepted under the same
  pin have the same hash.
\<close>

theorem pin_identifies_digest:
  assumes "\<forall>c. hex_text (hex c)"
  shows "verify_server_cert hex
           (Some (replicate n (CHR '' '') @ cert_fingerprint hex cert @ replicate m (CHR '' ''))) cert = Inr () \<and>
         (verify_server_cert hex (Some pin) c1 = Inr () \<and> verify_server_cert hex (Some pin) c2 = Inr () \<longrightarrow>
            hex c1 = hex c2)"
proof -
  have lower: "map to_ascii_lower (hex c) = hex c" for c
    using assms by (simp add: hex_text_def hex_text_lower)
  have "verify_server_cert hex (Some pin) c = Inr () \<Longrightarrow> hex c = map to_ascii_lower (pinned_digest pin)" for c
    by (simp add: verify_server_cert_def eq_ignore_ascii_case_def lower split: if_splits)
  then show ?thesis using verify_advertised assms by metis
qed

theorem pin_identifies_digest_witness:
  "verify_server_cert (\<lambda>c. if c = [] then ''00'' else ''ff'') (Some '' SHA256:00 '') [] = Inr () \<and>
   verify_server_cert (\<lambda>c. if c = [] then ''00'' else ''ff'') (Some '' SHA256:00 '') [1] \<noteq> Inr ()"
proof -
  let ?hex = "\<lambda>c :: bytes. if c = [] then ''00'' else ''ff''"
  have h: "\<forall>c. hex_text (?hex c)" by (simp add: hex_text_def hex_digit_def)
  from pin_identifies_digest [OF h, of 1 "[]" 1 "'' SHA256:00 ''" "[]" "[1]"]
  show ?thesis by (simp add: cert_fingerprint_def)
qed

end
