(* ===== verification/Tls_Setup.thy ===== *)
theory Tls_Setup
  imports Tls_Pin Session_Link
begin

text \<open>
  The TLS side of the control connection (\<open>src/control/tls.rs\<close>): the certificate of a server run, the
  configurations of both ends, connecting and accepting, with the error text of each step. What the
  libraries (rcgen, rustls) answer is a parameter.
\<close>

section \<open>The libraries\<close>

text \<open>
  In the order the code asks: the key pair, the name for the certificate, the signed certificate (its
  bytes), the encoded key; the protocol versions and the certificate of the server's configuration,
  those of the client's, the server name, and the text rustls gives when the verifier refuses.
  \<open>tl_hex\<close> is the lower-case hexadecimal SHA-256 of bytes.
\<close>

record tls_lib =
  tl_key_pair :: "string + unit"
  tl_san :: "string + unit"
  tl_self_signed :: "string + bytes"
  tl_key_der :: "string + unit"
  tl_server_versions :: "string + unit"
  tl_single_cert :: "bytes \<Rightarrow> string + unit"
  tl_client_versions :: "string + unit"
  tl_server_name :: "string + unit"
  tl_error_text :: "string \<Rightarrow> string"
  tl_hex :: "bytes \<Rightarrow> string"

section \<open>Certificate and configurations\<close>

definition generate_ephemeral_cert :: "tls_lib \<Rightarrow> string + bytes \<times> string" where
  "generate_ephemeral_cert L =
     and_then (map_err (\<lambda>e. ''key generation: '' @ e) (tl_key_pair L)) (\<lambda>_.
     and_then (map_err (\<lambda>e. ''san: '' @ e) (tl_san L)) (\<lambda>_.
     and_then (map_err (\<lambda>e. ''cert generation: '' @ e) (tl_self_signed L)) (\<lambda>cert_der.
     and_then (map_err (\<lambda>e. ''key der conversion: '' @ e) (tl_key_der L)) (\<lambda>_.
       Inr (cert_der, cert_fingerprint (tl_hex L) cert_der)))))"

definition make_tls_acceptor :: "tls_lib \<Rightarrow> bytes \<Rightarrow> string + unit" where
  "make_tls_acceptor L cert_der =
     and_then (map_err (\<lambda>e. ''server config: '' @ e) (tl_server_versions L)) (\<lambda>_.
       map_err (\<lambda>e. ''cert config: '' @ e) (tl_single_cert L cert_der))"

text \<open>A connector is the fingerprint its verifier expects, if any.\<close>

definition make_pinned_tls_connector :: "tls_lib \<Rightarrow> string option \<Rightarrow> string + string option" where
  "make_pinned_tls_connector L expected =
     and_then (map_err (\<lambda>e. ''client config: '' @ e) (tl_client_versions L)) (\<lambda>_. Inr expected)"

definition make_tls_connector :: "tls_lib \<Rightarrow> string + string option" where
  "make_tls_connector L = make_pinned_tls_connector L None"

section \<open>Connecting and accepting\<close>

text \<open>
  \<open>tcp\<close> is the connection to the address, \<open>handshake\<close> the TLS handshake over it: the certificate the
  server shows and the control link. The library asks the verifier and gives up when it refuses.
\<close>

definition client_tls_connect ::
  "tls_lib \<Rightarrow> addr_text \<Rightarrow> (socket_addr \<Rightarrow> string + unit) \<Rightarrow> (socket_addr \<Rightarrow> string + bytes \<times> link) \<Rightarrow>
   string option \<Rightarrow> socket_addr \<Rightarrow> string + link" where
  "client_tls_connect L A tcp handshake connector target =
     and_then (map_err (\<lambda>e. ''connect '' @ show_socket A target @ '': '' @ e) (tcp target)) (\<lambda>_.
     and_then (map_err (\<lambda>_. ''bad server name'') (tl_server_name L)) (\<lambda>_.
       map_err (\<lambda>e. ''tls connect: '' @ e)
         (and_then (handshake target) (\<lambda>(cert, l).
            and_then (map_err (tl_error_text L) (verify_server_cert (tl_hex L) connector cert)) (\<lambda>_. Inr l)))))"

text \<open>One turn of the accept loop: TCP or TLS failed, or a client is there.\<close>

datatype 'c accept_event = TcpFault string | TlsFault string | Accepted 'c

fun server_tls_accept :: "'c accept_event \<Rightarrow> string + 'c" where
  "server_tls_accept (TcpFault e) = Inl (''accept: '' @ e)"
| "server_tls_accept (TlsFault e) = Inl (''tls accept: '' @ e)"
| "server_tls_accept (Accepted c) = Inr c"

section \<open>Lemmas\<close>

lemma client_tls_connect_Inr:
  "client_tls_connect L A tcp handshake connector target = Inr l \<longleftrightarrow>
     tcp target = Inr () \<and> tl_server_name L = Inr () \<and>
     (\<exists>cert. handshake target = Inr (cert, l) \<and> verify_server_cert (tl_hex L) connector cert = Inr ())"
  by (auto simp: client_tls_connect_def and_then_Inr_iff)

lemma make_pinned_tls_connector_Inr:
  "make_pinned_tls_connector L expected = Inr c \<longleftrightarrow> c = expected \<and> tl_client_versions L = Inr ()"
  by (auto simp: make_pinned_tls_connector_def and_then_Inr_iff)

lemma generate_ephemeral_cert_Inr:
  "generate_ephemeral_cert L = Inr (cert, fp) \<Longrightarrow> fp = cert_fingerprint (tl_hex L) cert"
  by (auto simp: generate_ephemeral_cert_def and_then_Inr_iff)

section \<open>A small instance\<close>

definition demo_tls :: tls_lib where
  "demo_tls =
     \<lparr>tl_key_pair = Inr (), tl_san = Inr (), tl_self_signed = Inr [], tl_key_der = Inr (),
      tl_server_versions = Inr (), tl_single_cert = (\<lambda>_. Inr ()), tl_client_versions = Inr (),
      tl_server_name = Inr (), tl_error_text = (\<lambda>e. e), tl_hex = (\<lambda>_. ''00ff'')\<rparr>"

end
