(* ===== verification/Probe_Io.thy ===== *)
theory Probe_Io
  imports Probe_Registry Tls_Setup
begin

text \<open>
  What the probes ask of the operating system and the network, and what they may be answered. A run
  of a probe is a function of the answers: it threads the list of the calls it made, and the answer to
  a call may depend on the whole list. Every property of a probe that holds for all \<open>net\<close> holds for
  every behaviour of the network.
\<close>

section \<open>Calls\<close>

datatype io_kind = PermissionDenied | AddrInUse | ConnectionRefused | WouldBlock | TimedOut | OtherKind

record io_error =
  io_kind_of :: io_kind
  io_text :: string

datatype sock_type = SockDgram | SockRaw

text \<open>\<open>libc::timeval\<close>: seconds and microseconds; \<open>libc::sockaddr_in\<close> with the bytes of its address.\<close>

type_synonym timeval = "nat \<times> nat"

record sockaddr_in =
  sin_port :: u16
  sin_addr :: bytes

text \<open>
  A call under \<open>tokio::time::timeout\<close> carries its limit. The first group works on TCP and TLS
  connections, the second on UDP sockets, the third is the raw socket and the \<open>ping\<close> command, the last
  the two counters for identifiers and the end of a blocking task.
\<close>

datatype io_call =
    Connect socket_addr duration | TcpBind socket_addr | TcpAccept duration | Handshake duration
  | WriteAll bytes "duration option" | Flush duration | ReadExact nat duration
  | UdpBind socket_addr | SendTo bytes socket_addr "duration option" | RecvFrom nat duration
  | Sleep duration
  | RawSocket sock_type | CloseFd nat | SetRcvTimeo nat timeval | RawSend nat bytes sockaddr_in
  | RawRecv nat nat | Ping "string list"
  | FetchId | JoinBlocking

fun call_limit :: "io_call \<Rightarrow> duration option" where
  "call_limit (Connect a t) = Some t"
| "call_limit (TcpAccept t) = Some t"
| "call_limit (Handshake t) = Some t"
| "call_limit (WriteAll bs t) = t"
| "call_limit (Flush t) = Some t"
| "call_limit (ReadExact n t) = Some t"
| "call_limit (SendTo bs a t) = t"
| "call_limit (RecvFrom n t) = Some t"
| "call_limit _ = None"

section \<open>Answers\<close>

text \<open>
  The answers, as functions of the calls made up to and including the one that is answered:
  \<open>net_time\<close> is how long the call would take if nothing cancelled it. \<open>net_bytes\<close> are the bytes
  that arrive while a \<open>read_exact\<close> waits, \<open>net_datagram\<close> is a datagram with its source, \<open>net_raw\<close> an IP
  packet, \<open>net_ping\<close> the exit code of the command, if it exited. \<open>net_tls\<close> answers
  the calls of the TLS libraries that need no network.
\<close>

record net =
  net_time :: "io_call list \<Rightarrow> duration"
  net_unit :: "io_call list \<Rightarrow> io_error + unit"
  net_bytes :: "io_call list \<Rightarrow> io_error + bytes"
  net_datagram :: "io_call list \<Rightarrow> io_error + bytes \<times> socket_addr"
  net_fd :: "io_call list \<Rightarrow> io_error + nat"
  net_sent :: "io_call list \<Rightarrow> io_error + nat"
  net_raw :: "io_call list \<Rightarrow> io_error + bytes"
  net_ping :: "io_call list \<Rightarrow> io_error + int option"
  net_id :: "io_call list \<Rightarrow> u16"
  net_join :: "io_call list \<Rightarrow> string + unit"
  net_tls :: tls_lib

type_synonym calls = "io_call list"

text \<open>A call and its answer; under a timeout the answer may be that the time is up.\<close>

datatype 'a timed = Elapsed | Completed "io_error + 'a"

definition call :: "io_call \<Rightarrow> (calls \<Rightarrow> 'a) \<Rightarrow> calls \<Rightarrow> 'a \<times> calls" where
  "call c answer h = (answer (h @ [c]), h @ [c])"

definition call_within ::
  "net \<Rightarrow> duration \<Rightarrow> io_call \<Rightarrow> (calls \<Rightarrow> io_error + 'a) \<Rightarrow> calls \<Rightarrow> 'a timed \<times> calls" where
  "call_within net t c answer h =
     (if net_time net (h @ [c]) \<le> t then Completed (answer (h @ [c])) else Elapsed, h @ [c])"

text \<open>\<open>read_exact\<close> fills its buffer or reports that the stream ended before.\<close>

definition early_eof :: io_error where
  "early_eof = \<lparr>io_kind_of = OtherKind, io_text = ''early eof''\<rparr>"

definition exactly :: "nat \<Rightarrow> io_error + bytes \<Rightarrow> io_error + bytes" where
  "exactly n r =
     and_then r (\<lambda>bs. if length bs < n then Inl early_eof else Inr (take n bs))"

definition write_all :: "net \<Rightarrow> bytes \<Rightarrow> duration \<Rightarrow> calls \<Rightarrow> unit timed \<times> calls" where
  "write_all net bs t = call_within net t (WriteAll bs (Some t)) (net_unit net)"

definition read_exact :: "net \<Rightarrow> nat \<Rightarrow> duration \<Rightarrow> calls \<Rightarrow> bytes timed \<times> calls" where
  "read_exact net n t = call_within net t (ReadExact n t) (\<lambda>h. exactly n (net_bytes net h))"

definition send_to :: "net \<Rightarrow> bytes \<Rightarrow> socket_addr \<Rightarrow> duration \<Rightarrow> calls \<Rightarrow> unit timed \<times> calls" where
  "send_to net bs a t = call_within net t (SendTo bs a (Some t)) (net_unit net)"

text \<open>A datagram that does not fit the buffer is cut.\<close>

definition recv_from :: "net \<Rightarrow> nat \<Rightarrow> duration \<Rightarrow> calls \<Rightarrow> (bytes \<times> socket_addr) timed \<times> calls" where
  "recv_from net n t =
     call_within net t (RecvFrom n t)
       (\<lambda>h. and_then (net_datagram net h) (\<lambda>(bs, source). Inr (take n bs, source)))"

section \<open>Time\<close>

text \<open>
  A call takes its time or, if that comes first, its limit. The clock advances over every call, by a
  nanosecond at least.
\<close>

definition call_time :: "net \<Rightarrow> calls \<Rightarrow> duration" where
  "call_time net h =
     Suc (case call_limit (last h) of None \<Rightarrow> net_time net h | Some t \<Rightarrow> min t (net_time net h))"

definition elapsed :: "net \<Rightarrow> calls \<Rightarrow> duration" where
  "elapsed net h = (\<Sum>k<length h. call_time net (take (Suc k) h))"

lemma elapsed_snoc [simp]: "elapsed net (h @ [c]) = elapsed net h + call_time net (h @ [c])"
  by (simp add: elapsed_def)

lemma call_time_pos [simp]: "0 < call_time net h"
  by (simp add: call_time_def)

lemma elapsed_less: "elapsed net h < elapsed net (h @ [c])"
  by simp

lemma snd_call [simp]: "snd (call c answer h) = h @ [c]" "snd (call_within net t c answer' h) = h @ [c]"
  by (simp_all add: call_def call_within_def)

text \<open>The run of a probe, from its first call to its result.\<close>

definition run_from_start :: "(net \<Rightarrow> test_context \<Rightarrow> calls \<Rightarrow> protocol_result \<times> calls) \<Rightarrow>
    net \<Rightarrow> test_context \<Rightarrow> protocol_result" where
  "run_from_start run net ctx = fst (run net ctx [])"

section \<open>A small instance\<close>

text \<open>A network on which every call succeeds at once; nothing arrives.\<close>

definition demo_net :: net where
  "demo_net =
     \<lparr>net_time = (\<lambda>_. 0), net_unit = (\<lambda>_. Inr ()), net_bytes = (\<lambda>_. Inr []),
      net_datagram = (\<lambda>_. Inr ([], SocketV4 0x7F000001 443)), net_fd = (\<lambda>_. Inr 3),
      net_sent = (\<lambda>_. Inr 13),
      net_raw = (\<lambda>_. Inl \<lparr>io_kind_of = WouldBlock, io_text = ''would block''\<rparr>),
      net_ping = (\<lambda>_. Inr (Some 0)), net_id = (\<lambda>_. 7), net_join = (\<lambda>_. Inr ()),
      net_tls = demo_tls\<rparr>"

lemma demo_net_fields [simp]:
  "net_time demo_net h = 0" "net_unit demo_net h = Inr ()" "net_bytes demo_net h = Inr []"
  "net_fd demo_net h = Inr 3" "net_sent demo_net h = Inr 13" "net_id demo_net h = 7"
  by (simp_all add: demo_net_def)

end
