(* ===== verification/Link_View.thy ===== *)
theory Link_View
  imports Session_Link "HOL-Library.Sublist"
begin

text \<open>
  Running a party on two inputs at once. Two inputs are related (\<open>rel\<close>); a computation that reads the
  control connection tracks the relation when it returns the same from related inputs and leaves
  related ones behind. Where \<open>stops\<close> holds, it may instead fail on the first input for lack of more;
  then it has said all it says there, and on the second input perhaps goes on. The relations of interest
  are an input and its continuation (\<open>Causality\<close>), and an input with and without its delays (\<open>Timing\<close>).
\<close>

section \<open>Growth\<close>

text \<open>\<open>lk\<close> is where the state has its link, \<open>put\<close> replaces it.\<close>

definition grows :: "('s \<Rightarrow> link) \<Rightarrow> ('s \<Rightarrow> 'a \<times> 's) \<Rightarrow> bool" where
  "grows lk F \<longleftrightarrow> (\<forall>s. prefix (outbox (lk s)) (outbox (lk (snd (F s)))))"

text \<open>A change of the rest of the state.\<close>

definition beside :: "('s \<Rightarrow> link) \<Rightarrow> (link \<Rightarrow> 's \<Rightarrow> 's) \<Rightarrow> ('s \<Rightarrow> 's) \<Rightarrow> bool" where
  "beside lk put g \<longleftrightarrow> (\<forall>s l. lk (g s) = lk s \<and> g (put l s) = put l (g s))"

text \<open>An operation on the link, as an operation on the state around it.\<close>

definition on_link :: "('s \<Rightarrow> link) \<Rightarrow> (link \<Rightarrow> 's \<Rightarrow> 's) \<Rightarrow> (link \<Rightarrow> ('e + 'a) \<times> link) \<Rightarrow> 's \<Rightarrow> ('e + 'a) \<times> 's" where
  "on_link lk put H s = (case H (lk s) of (r, l) \<Rightarrow> (r, put l s))"

lemma growsD: "grows lk F \<Longrightarrow> prefix (outbox (lk s)) (outbox (lk (snd (F s))))"
  by (simp add: grows_def)

lemma growsI: "(\<And>s. prefix (outbox (lk s)) (outbox (lk (snd (F s))))) \<Longrightarrow> grows lk F"
  by (simp add: grows_def)

lemma grows_try_then:
  assumes "grows lk F" and "\<And>x. grows lk (G x)"
  shows "grows lk (\<lambda>s. try_then (F s) G)"
proof (rule growsI)
  fix s
  show "prefix (outbox (lk s)) (outbox (lk (snd (try_then (F s) G))))"
  proof (cases "F s")
    case (Pair r s1)
    then have "prefix (outbox (lk s)) (outbox (lk s1))" using growsD [OF assms(1), of s] by simp
    with Pair growsD [OF assms(2), of s1] show ?thesis
      by (cases r) (auto intro: prefix_order.trans)
  qed
qed

lemma grows_for_each: "(\<And>x. grows lk (F x)) \<Longrightarrow> grows lk (for_each F xs)"
proof (induction xs)
  case Nil
  then show ?case by (simp add: grows_def)
next
  case (Cons x xs)
  then have "grows lk (\<lambda>s. try_then (F x s) (\<lambda>_. for_each F xs))" by (intro grows_try_then) auto
  then show ?case by simp
qed

section \<open>Tracking\<close>

locale view =
  fixes rel :: "inbox_event list \<Rightarrow> inbox_event list \<Rightarrow> bool" and stops :: bool and wait :: duration
  assumes recv: "rel es fs \<Longrightarrow>
      fst (next_event fs) = fst (next_event es) \<and> rel (snd (next_event es)) (snd (next_event fs)) \<or>
      stops \<and> isl (fst (next_event es))"
    and recv_within: "rel es fs \<Longrightarrow> wait \<le> t \<Longrightarrow>
      fst (next_event_within t fs) = fst (next_event_within t es) \<and>
        rel (snd (next_event_within t es)) (snd (next_event_within t fs)) \<or>
      stops \<and> (\<exists>e. fst (next_event_within t es) = Some (Inl e))"
begin

definition same :: "('s \<Rightarrow> link) \<Rightarrow> (link \<Rightarrow> 's \<Rightarrow> 's) \<Rightarrow> 's \<Rightarrow> 's \<Rightarrow> bool" where
  "same lk put s s' \<longleftrightarrow> (\<exists>es. s' = put ((lk s)\<lparr>inbox := es\<rparr>) s \<and> rel (inbox (lk s)) es)"

definition tracks_at :: "('s \<Rightarrow> link) \<Rightarrow> (link \<Rightarrow> 's \<Rightarrow> 's) \<Rightarrow> ('s \<Rightarrow> ('e + 'a) \<times> 's) \<Rightarrow> 's \<Rightarrow> 's \<Rightarrow> bool" where
  "tracks_at lk put F s s' \<longleftrightarrow>
     fst (F s') = fst (F s) \<and> same lk put (snd (F s)) (snd (F s')) \<or>
     stops \<and> isl (fst (F s)) \<and> prefix (outbox (lk (snd (F s)))) (outbox (lk (snd (F s'))))"

definition tracks :: "('s \<Rightarrow> link) \<Rightarrow> (link \<Rightarrow> 's \<Rightarrow> 's) \<Rightarrow> ('s \<Rightarrow> ('e + 'a) \<times> 's) \<Rightarrow> bool" where
  "tracks lk put F \<longleftrightarrow> grows lk F \<and> (\<forall>s s'. same lk put s s' \<longrightarrow> tracks_at lk put F s s')"

lemma tracks_at_cases:
  assumes "tracks_at lk put F s s'"
  obtains r s1 s1' where "F s = (r, s1)" "F s' = (r, s1')" "same lk put s1 s1'"
  | e s1 where "stops" "F s = (Inl e, s1)" "prefix (outbox (lk s1)) (outbox (lk (snd (F s'))))"
  using assms unfolding tracks_at_def isl_def by (metis prod.collapse)

lemma tracks_atD: "tracks lk put F \<Longrightarrow> same lk put s s' \<Longrightarrow> tracks_at lk put F s s'"
  by (simp add: tracks_def)

lemma tracks_grows: "tracks lk put F \<Longrightarrow> grows lk F"
  by (simp add: tracks_def)

lemma tracksI: "grows lk F \<Longrightarrow> (\<And>s s'. same lk put s s' \<Longrightarrow> tracks_at lk put F s s') \<Longrightarrow> tracks lk put F"
  by (simp add: tracks_def)

text \<open>
  The sequencing lemma: the second computation need only track at the states the first leads to.
\<close>

lemma tracks_at_try_then:
  assumes F: "tracks_at lk put F s s'"
    and G: "\<And>x s1 s1'. F s = (Inr x, s1) \<Longrightarrow> same lk put s1 s1' \<Longrightarrow> tracks_at lk put (G x) s1 s1'"
    and grow: "\<And>x. grows lk (G x)"
  shows "tracks_at lk put (\<lambda>s. try_then (F s) G) s s'"
  using F
proof (cases rule: tracks_at_cases)
  case (1 r s1 s1')
  show ?thesis
  proof (cases r)
    case (Inl e)
    with 1 show ?thesis by (simp add: tracks_at_def)
  next
    case (Inr x)
    with 1 have "tracks_at lk put (G x) s1 s1'" by (intro G) simp_all
    with 1 Inr show ?thesis by (simp add: tracks_at_def)
  qed
next
  case (2 e s1)
  obtain r s1' where r: "F s' = (r, s1')" by fastforce
  then have "prefix (outbox (lk s1')) (outbox (lk (snd (try_then (F s') G))))"
    using growsD [OF grow] by (cases r) simp_all
  with 2 r show ?thesis unfolding tracks_at_def by (auto intro: prefix_order.trans)
qed

lemma tracks_try_then:
  "tracks lk put F \<Longrightarrow> (\<And>x. tracks lk put (G x)) \<Longrightarrow> tracks lk put (\<lambda>s. try_then (F s) G)"
  by (intro tracksI grows_try_then tracks_at_try_then) (simp_all add: tracks_def)

lemma tracks_if: "tracks lk put F \<Longrightarrow> tracks lk put G \<Longrightarrow> tracks lk put (\<lambda>s. if b then F s else G s)"
  by (cases b) simp_all

lemma tracks_map_err:
  assumes "tracks lk put F"
  shows "tracks lk put (\<lambda>s. apfst (map_err f) (F s))"
proof (rule tracksI)
  show "grows lk (\<lambda>s. apfst (map_err f) (F s))"
    using tracks_grows [OF assms] by (simp add: grows_def)
  fix s s' assume "same lk put s s'"
  from tracks_atD [OF assms this] show "tracks_at lk put (\<lambda>s. apfst (map_err f) (F s)) s s'"
    unfolding tracks_at_def [of _ _ "\<lambda>s. apfst (map_err f) (F s)"] by (cases rule: tracks_at_cases) simp_all
qed

end

section \<open>States with a link\<close>

locale linked =
  fixes lk :: "'s \<Rightarrow> link" and put :: "link \<Rightarrow> 's \<Rightarrow> 's"
  assumes lk_put [simp]: "lk (put l s) = l"
    and put_lk [simp]: "put (lk s) s = s"
    and put_put [simp]: "put l (put l' s) = put l s"
begin

lemma grows_on_link: "grows (\<lambda>l. l) H \<Longrightarrow> grows lk (on_link lk put H)"
  by (rule growsI) (simp add: grows_def on_link_def case_prod_beta)

end

locale linked_view = view rel stops wait + linked lk put
  for rel :: "inbox_event list \<Rightarrow> inbox_event list \<Rightarrow> bool" and stops wait
    and lk :: "'s \<Rightarrow> link" and put :: "link \<Rightarrow> 's \<Rightarrow> 's"
begin

lemma tracks_return: "tracks lk put (\<lambda>s. (r, s))"
  by (simp add: tracks_def grows_def tracks_at_def)

lemma tracks_for_each: "(\<And>x. tracks lk put (F x)) \<Longrightarrow> tracks lk put (for_each F xs)"
proof (induction xs)
  case Nil
  then show ?case by (simp add: tracks_return [of "Inr ()"])
next
  case (Cons x xs)
  then have "tracks lk put (\<lambda>s. try_then (F x s) (\<lambda>_. for_each F xs))" by (intro tracks_try_then) auto
  then show ?case by simp
qed

lemma tracks_beside:
  assumes "tracks lk put F" and "beside lk put g"
  shows "tracks lk put (\<lambda>s. F (g s))"
proof (rule tracksI)
  have g: "lk (g s) = lk s" "g (put l s) = put l (g s)" for s l
    using assms(2) by (simp_all add: beside_def)
  show "grows lk (\<lambda>s. F (g s))"
  proof (rule growsI)
    show "prefix (outbox (lk s)) (outbox (lk (snd (F (g s)))))" for s
      using growsD [OF tracks_grows [OF assms(1)], of "g s"] by (simp add: g)
  qed
  fix s s' assume "same lk put s s'"
  then have "same lk put (g s) (g s')" by (auto simp: same_def g)
  from tracks_atD [OF assms(1) this] show "tracks_at lk put (\<lambda>s. F (g s)) s s'"
    by (simp add: tracks_at_def)
qed

text \<open>What is read of the state may depend on anything but the input.\<close>

lemma tracks_reading:
  assumes "\<And>k. tracks lk put (F k)" and "\<And>s es. read (put ((lk s)\<lparr>inbox := es\<rparr>) s) = read s"
  shows "tracks lk put (\<lambda>s. F (read s) s)"
proof (rule tracksI)
  show "grows lk (\<lambda>s. F (read s) s)"
    by (rule growsI) (rule growsD [OF tracks_grows [OF assms(1)]])
  fix s s' assume same: "same lk put s s'"
  then have "read s' = read s" by (auto simp: same_def assms(2))
  with tracks_atD [OF assms(1) same] show "tracks_at lk put (\<lambda>s. F (read s) s) s s'"
    by (simp add: tracks_at_def)
qed

lemma tracks_at_on_link:
  assumes "same lk put s s'" and H: "\<And>l'. same (\<lambda>l. l) (\<lambda>l _. l) (lk s) l' \<Longrightarrow> tracks_at (\<lambda>l. l) (\<lambda>l _. l) H (lk s) l'"
  shows "tracks_at lk put (on_link lk put H) s s'"
proof -
  from assms(1) obtain es where s': "s' = put ((lk s)\<lparr>inbox := es\<rparr>) s" and "rel (inbox (lk s)) es"
    by (auto simp: same_def)
  then have "same (\<lambda>l. l) (\<lambda>l _. l) (lk s) ((lk s)\<lparr>inbox := es\<rparr>)" by (auto simp: same_def)
  from H [OF this] show ?thesis
    unfolding tracks_at_def [of lk]
    by (cases rule: tracks_at_cases) (auto simp: on_link_def s' same_def case_prod_beta)
qed

lemma tracks_on_link: "tracks (\<lambda>l. l) (\<lambda>l _. l) H \<Longrightarrow> tracks lk put (on_link lk put H)"
  by (intro tracksI grows_on_link tracks_at_on_link) (auto simp: tracks_def)

text \<open>A computation that leaves the link alone.\<close>

lemma tracks_aside:
  assumes "\<And>s l. P (put l s) = apsnd (put l) (P s)" and "\<And>s. lk (snd (P s)) = lk s"
  shows "tracks lk put P"
  by (rule tracksI) (auto simp: grows_def tracks_at_def same_def assms)

end

end
