(* ===== verification/Session_Steps.thy ===== *)
theory Session_Steps
  imports Server Client Link_View
begin

text \<open>
  The operations of the orchestrator that read the connection, as sequences of steps: what each does
  with the message it waited for. Nothing is added to them; each definition is followed by the equation
  that makes it a part of the operation it comes from.
\<close>

abbreviation sv_put :: "link \<Rightarrow> server_state \<Rightarrow> server_state" where
  "sv_put \<equiv> \<lambda>l st. st\<lparr>sv_link := l\<rparr>"

abbreviation cl_put :: "link \<Rightarrow> client_state \<Rightarrow> client_state" where
  "cl_put \<equiv> \<lambda>l st. st\<lparr>cl_link := l\<rparr>"

text \<open>Waiting for a message under a timeout, with the texts of \<open>collect_reports\<close>.\<close>

definition await_report :: "duration \<Rightarrow> link \<Rightarrow> (string + message) \<times> link" where
  "await_report limit l =
     (case link_recv_within limit l of
        (Some (Inr m), l') \<Rightarrow> (Inr m, l')
      | (Some (Inl e), l') \<Rightarrow> (Inl (''receive report: '' @ e), l')
      | (None, l') \<Rightarrow> (Inl ''timeout waiting for server reports'', l'))"

definition report_answer :: "(string + message) option \<Rightarrow> string + message" where
  "report_answer r =
     (case r of
        Some (Inr m) \<Rightarrow> Inr m
      | Some (Inl e) \<Rightarrow> Inl (''receive report: '' @ e)
      | None \<Rightarrow> Inl ''timeout waiting for server reports'')"

lemma await_report_outbox: "outbox (snd (await_report limit l)) = outbox l"
  using link_recv_within_outbox(1) [of limit l]
  by (cases "link_recv_within limit l") (simp add: await_report_def split: option.splits sum.splits)

section \<open>The server\<close>

text \<open>What the inner loop does with a message.\<close>

definition read_next ::
  "'e registry \<Rightarrow> socket_addr \<Rightarrow> socket_addr option \<Rightarrow> usize \<Rightarrow> 'e server_batch_entry list \<Rightarrow> message \<Rightarrow>
   link \<Rightarrow> (string + 'e server_batch_entry list \<times> bool) \<times> link" where
  "read_next registry c b p batch m l =
     (case m of
        Test tid protocol transport port dir \<Rightarrow>
          (case accept_test registry c b p batch tid protocol transport port dir of
             Inl e \<Rightarrow> (Inl e, l)
           | Inr entry \<Rightarrow> read_batch registry c b p (batch @ [entry]) l)
      | BatchEnd \<Rightarrow> if batch \<noteq> [] then (Inr (batch, False), l) else (Inl unexpected_message, l)
      | Done \<Rightarrow> (Inr (batch, True), l)
      | _ \<Rightarrow> (Inl unexpected_message, l))"

lemma read_batch_next: "read_batch registry c b p batch l = try_then (link_recv l) (read_next registry c b p batch)"
  by (subst read_batch.simps) (auto simp: try_then_def read_next_def split: prod.splits sum.splits)

lemma grows_read_next: "grows (\<lambda>l. l) (read_next registry c b p batch m)"
  by (auto simp: grows_def read_next_def read_batch_outbox split: message.splits sum.splits)

text \<open>What the outer loop does with a batch.\<close>

definition serve_next ::
  "'e registry \<Rightarrow> 'e session_envs \<Rightarrow> socket_addr \<Rightarrow> socket_addr option \<Rightarrow> duration \<Rightarrow> usize \<Rightarrow>
   'e server_batch_entry list \<times> bool \<Rightarrow> server_state \<Rightarrow> (string + unit) \<times> server_state" where
  "serve_next registry envs c b timeout p bd st =
     (if fst bd = [] then (Inr (), st)
      else try_then (for_each report_result (run_server_batch timeout (envs (length (outbox (sv_link st)))) (fst bd)) st)
             (\<lambda>_ st2. if snd bd then (Inr (), st2) else server_loop registry envs c b timeout p st2))"

lemma server_loop_next:
  "server_loop registry envs c b timeout p st =
     try_then (on_link sv_link sv_put (read_batch registry c b p []) st) (serve_next registry envs c b timeout p)"
  by (subst server_loop.simps)
    (auto simp: try_then_def serve_next_def on_link_def Let_def split: prod.splits sum.splits)

lemma grows_report_result: "grows sv_link (report_result ir)"
  using link_send_outbox
  by (auto simp: grows_def report_result_def sv_send_def split: prod.splits) (metis prefixI prefix_order.refl snd_conv)

lemma prefix_reports: "prefix (outbox (sv_link st)) (outbox (sv_link (snd (for_each report_result rs st))))"
  by (rule growsD [OF grows_for_each [OF grows_report_result]])

lemma prefix_server_loop:
  "prefix (outbox (sv_link st)) (outbox (sv_link (snd (server_loop registry envs c b timeout p st))))"
proof (induction registry envs c b timeout p st rule: server_loop.induct)
  case (1 registry envs c b timeout p st)
  obtain r l where r: "read_batch registry c b p [] (sv_link st) = (r, l)" by fastforce
  have l: "outbox l = outbox (sv_link st)"
    using read_batch_outbox [of registry c b p "[]" "sv_link st"] r by simp
  show ?case
  proof (cases "\<exists>batch d. r = Inr (batch, d) \<and> batch \<noteq> []")
    case False
    with r l show ?thesis by (subst server_loop.simps) (auto split: sum.splits)
  next
    case True
    then obtain batch d where rd: "r = Inr (batch, d)" "batch \<noteq> []" by blast
    let ?rs = "run_server_batch timeout (envs (length (outbox l))) batch"
    obtain q st2 where q: "for_each report_result ?rs (st\<lparr>sv_link := l\<rparr>) = (q, st2)" by fastforce
    have "prefix (outbox l) (outbox (sv_link st2))"
      using prefix_reports [of "st\<lparr>sv_link := l\<rparr>" ?rs] q by simp
    moreover have "prefix (outbox (sv_link st2))
        (outbox (sv_link (snd (server_loop registry envs c b timeout p st2))))"
      if "q = Inr ()" "\<not> d"
      using 1 [OF r [symmetric] rd(1) refl refl rd(2)] q that by simp
    ultimately show ?thesis
      using r rd q l by (subst server_loop.simps) (auto split: sum.splits intro: prefix_order.trans)
  qed
qed

lemma grows_serve_next: "grows sv_link (serve_next registry envs c b timeout p bd)"
proof -
  have "grows sv_link (\<lambda>st. try_then (for_each report_result rs st)
      (\<lambda>_ st2. if snd bd then (Inr (), st2) else server_loop registry envs c b timeout p st2))" for rs
    by (intro grows_try_then grows_for_each grows_report_result) (simp add: grows_def prefix_server_loop)
  then show ?thesis by (auto simp: grows_def serve_next_def)
qed

text \<open>The session after the handshake, first over the server's state, then over the link.\<close>

definition fresh_server :: "link \<Rightarrow> server_state" where
  "fresh_server l = \<lparr>sv_link = l, sv_passed = 0, sv_failed = 0, sv_errors = 0\<rparr>"

definition serve_and_bye ::
  "'e registry \<Rightarrow> 'e session_envs \<Rightarrow> socket_addr \<Rightarrow> socket_addr option \<Rightarrow> duration \<Rightarrow> usize \<Rightarrow>
   server_state \<Rightarrow> (string + test_summary) \<times> server_state" where
  "serve_and_bye registry envs c b timeout p st =
     try_then (server_loop registry envs c b timeout p st) (\<lambda>_ st1.
       try_then (on_link sv_link sv_put (link_send (Bye (server_summary st1))) st1) (\<lambda>_ st2.
         (Inr (server_summary st1), st2)))"

definition configured ::
  "addr_text \<Rightarrow> 'e registry \<Rightarrow> 'e session_envs \<Rightarrow> socket_addr \<Rightarrow> message \<Rightarrow> link \<Rightarrow> (string + test_summary) \<times> link" where
  "configured A registry envs c m l =
     (case m of
        Configure target timeout_ms client_version slots \<Rightarrow>
          if client_version \<noteq> PROTOCOL_VERSION then
            try_then (link_send (Ack False (Some (version_mismatch_text client_version))) l)
              (\<lambda>_ l2. (Inl ''client and server protocol versions do not match'', l2))
          else
            try_then (link_send (Ack True None) l) (\<lambda>_ l2.
              apsnd sv_link (serve_and_bye registry envs c (Option.bind target (parse_configured_bind_addr A))
                (from_millis (unat timeout_ms)) (at_least_one slots) (fresh_server l2)))
      | _ \<Rightarrow> (Inl ''expected Configure message'', l))"

lemma run_server_steps:
  "run_server A registry envs l =
     (case link_peer l of Inl e \<Rightarrow> (Inl e, l) | Inr c \<Rightarrow> try_then (link_recv l) (configured A registry envs c))"
proof -
  have session: "(case server_loop registry envs c b timeout p \<lparr>sv_link = l2, sv_passed = 0, sv_failed = 0, sv_errors = 0\<rparr> of
        (Inl e, st) \<Rightarrow> (Inl e, sv_link st)
      | (Inr _, st) \<Rightarrow> try_then (link_send (Bye (server_summary st)) (sv_link st)) (\<lambda>_ l3. (Inr (server_summary st), l3))) =
    apsnd sv_link (serve_and_bye registry envs c b timeout p (fresh_server l2))" for c b timeout p l2
    by (auto simp: serve_and_bye_def fresh_server_def try_then_def on_link_def split: prod.splits sum.splits)
  show ?thesis
    by (simp add: run_server_def configured_def session Let_def try_then_def
        split: prod.splits sum.splits message.splits)
qed

section \<open>The client\<close>

text \<open>What the loop over the reports does with a message.\<close>

definition collect_next ::
  "(message \<Rightarrow> string) \<Rightarrow> duration \<Rightarrow> report_state \<Rightarrow> message \<Rightarrow> link \<Rightarrow> (string + report_state) \<times> link" where
  "collect_next debug limit rs m l =
     (case m of
        Report tid sent received err \<Rightarrow>
          (case accept_report tid sent received err rs of
             Inl e \<Rightarrow> (Inl e, l)
           | Inr rs' \<Rightarrow> collect_reports debug limit rs' l)
      | _ \<Rightarrow> (Inl (''expected Report, got '' @ debug m), l))"

lemma collect_reports_next:
  "collect_reports debug limit rs l =
     (if rs_expected rs = {} then (Inr rs, l)
      else try_then (await_report limit l) (collect_next debug limit rs))"
  by (subst collect_reports.simps)
    (auto simp: await_report_def collect_next_def try_then_def
      split: prod.splits option.splits sum.splits message.splits)

lemma grows_collect_next: "grows (\<lambda>l. l) (collect_next debug limit rs m)"
  using collect_reports_link
  by (auto simp: grows_def collect_next_def split: message.splits sum.splits)

lemma for_each_commutes:
  "(\<And>x s. F x (h s) = apsnd h (F x s)) \<Longrightarrow> for_each F xs (h s) = apsnd h (for_each F xs s)"
proof (induction xs arbitrary: s)
  case (Cons x xs)
  then show ?case by (cases "F x s"; cases "fst (F x s)") simp_all
qed simp

definition bp_put :: "link \<Rightarrow> batch_progress \<Rightarrow> batch_progress" where
  "bp_put l bp = bp\<lparr>bp_client := cl_put l (bp_client bp)\<rparr>"

lemma record_entry_put: "record_entry cfg interactive e (bp_put l bp) = apsnd (bp_put l) (record_entry cfg interactive e bp)"
  by (auto simp: record_entry_def bp_put_def show_result_def keep_result_def tally_def print_line_def Let_def
      split: option.splits protocol_result.splits)

lemma record_entries_put:
  "for_each (record_entry cfg interactive) batch (bp_put l bp) =
     apsnd (bp_put l) (for_each (record_entry cfg interactive) batch bp)"
  by (rule for_each_commutes) (rule record_entry_put)

lemma record_entry_link: "cl_link (bp_client (snd (record_entry cfg interactive e bp))) = cl_link (bp_client bp)"
  by (auto simp: record_entry_def show_result_def keep_result_def tally_def print_line_def Let_def
      split: option.splits protocol_result.splits)

lemma record_entries_link:
  "cl_link (bp_client (snd (for_each (record_entry cfg interactive) batch bp))) = cl_link (bp_client bp)"
  by (rule for_each_snd_inv [where P = "\<lambda>bp'. cl_link (bp_client bp') = cl_link (bp_client bp)"])
    (simp_all add: record_entry_link)

text \<open>A batch after its requests are sent.\<close>

definition finish_batch ::
  "client_config \<Rightarrow> 'e client_env \<Rightarrow> 'e test_protocol \<Rightarrow> batch_entry list \<Rightarrow>
   (string + socket_addr) \<times> nat \<Rightarrow> client_state \<Rightarrow> (string + unit) \<times> client_state" where
  "finish_batch cfg ce proto batch k st =
     (case fst k of
        Inl e \<Rightarrow> (Inl e, st)
      | Inr local_address \<Rightarrow>
          let rs0 = \<lparr>rs_expected = set (map be_id batch),
                     rs_completed = insert_results (run_client_batch cfg proto local_address (ce_envs ce (snd k)) batch),
                     rs_errors = Map.empty\<rparr>
          in try_then (on_link cl_link cl_put (collect_reports (ce_debug ce) (receive_timeout cfg) rs0) st)
               (record_batch cfg (should_render_interactive (ce_terminal ce) (cfg_quiet cfg)
                                    (cfg_json cfg) (cfg_json_export cfg)) batch))"

lemma execute_batch_steps:
  "execute_batch cfg ce proto batch st0 =
     try_then (for_each (\<lambda>e. client_send (test_message e)) batch st0) (\<lambda>_ st1.
       try_then (client_send BatchEnd st1) (\<lambda>_ st2.
         finish_batch cfg ce proto batch (link_local (cl_link st2), length (outbox (cl_link st2))) st2))"
proof -
  have finish: "finish_batch cfg ce proto batch (link_local (cl_link st2), length (outbox (cl_link st2))) st2 =
    (case link_local (cl_link st2) of
       Inl e \<Rightarrow> (Inl e, st2)
     | Inr local_address \<Rightarrow>
         let env = ce_envs ce (length (outbox (cl_link st2)));
             completed = insert_results (run_client_batch cfg proto local_address env batch);
             rs0 = \<lparr>rs_expected = set (map be_id batch), rs_completed = completed, rs_errors = Map.empty\<rparr>;
             interactive = should_render_interactive (ce_terminal ce) (cfg_quiet cfg)
                             (cfg_json cfg) (cfg_json_export cfg)
         in (case collect_reports (ce_debug ce) (receive_timeout cfg) rs0 (cl_link st2) of
               (Inl e, l) \<Rightarrow> (Inl e, st2\<lparr>cl_link := l\<rparr>)
             | (Inr rs, l) \<Rightarrow> record_batch cfg interactive batch rs (st2\<lparr>cl_link := l\<rparr>)))" for st2
    by (simp add: finish_batch_def on_link_def try_then_def Let_def split: prod.splits sum.splits)
  show ?thesis unfolding execute_batch_def finish ..
qed

text \<open>The client after its checks, over its state.\<close>

definition client_scan ::
  "'e client_env \<Rightarrow> 'e registry \<Rightarrow> client_config \<Rightarrow> port_spec list \<Rightarrow> client_state \<Rightarrow>
   (string + test_summary) \<times> client_state" where
  "client_scan ce registry cfg ranges st0 =
     try_then (client_send (configure_message cfg (ce_text ce)) st0) (\<lambda>_ st1.
     try_then (recv_ack st1) (\<lambda>_ st2.
     try_then (for_each (scan_test cfg ce registry ranges) (cfg_tests cfg) st2) (\<lambda>_ st3.
       try_then (client_send Done (st3\<lparr>cl_stdout := cl_stdout st3 @ final_report cfg st3\<rparr>)) (\<lambda>_ st5. await_bye ce st5))))"

lemma run_client_scan:
  "run_client ce registry cfg l =
     (case and_then (validate_port_ranges (cfg_port_ranges cfg))
             (\<lambda>_. complete_port_ranges registry (cfg_tests cfg) (cfg_port_ranges cfg)) of
        Inl e \<Rightarrow> (Inl e, initial_client l)
      | Inr ranges \<Rightarrow> client_scan ce registry cfg ranges (initial_client l))"
  unfolding run_client_def client_scan_def Let_def ..

end
