(* ===== verification/Session_View.thy ===== *)
theory Session_View
  imports Session_Steps
begin

text \<open>
  Every operation of the orchestrator tracks every relation between inputs that receiving tracks.
\<close>

sublocale view \<subseteq> bare: linked_view rel stops wait "\<lambda>l. l" "\<lambda>l _. l"
  by unfold_locales simp_all

sublocale view \<subseteq> sv: linked_view rel stops wait sv_link sv_put
  by unfold_locales simp_all

sublocale view \<subseteq> cl: linked_view rel stops wait cl_link cl_put
  by unfold_locales simp_all

context view begin

section \<open>Sending and receiving\<close>

lemma tracks_link_send: "tracks (\<lambda>l. l) (\<lambda>l _. l) (link_send m)"
proof (rule tracksI)
  show "grows (\<lambda>l. l) (link_send m)" by (auto simp: grows_def link_send_def split: option.splits)
  fix l l' assume "same (\<lambda>l. l) (\<lambda>l _. l) l l'"
  then obtain es where l': "l' = l\<lparr>inbox := es\<rparr>" and rel: "rel (inbox l) es" by (auto simp: same_def)
  have "snd (link_send m l') = (snd (link_send m l))\<lparr>inbox := es\<rparr>" "fst (link_send m l') = fst (link_send m l)"
    by (simp_all add: l' link_send_def split: option.splits)
  with rel show "tracks_at (\<lambda>l. l) (\<lambda>l _. l) (link_send m) l l'" by (auto simp: tracks_at_def same_def)
qed

lemma tracks_link_recv: "tracks (\<lambda>l. l) (\<lambda>l _. l) link_recv"
proof (rule tracksI)
  show "grows (\<lambda>l. l) link_recv" by (simp add: grows_def)
  fix l l' assume "same (\<lambda>l. l) (\<lambda>l _. l) l l'"
  then obtain es where l': "l' = l\<lparr>inbox := es\<rparr>" and "rel (inbox l) es" by (auto simp: same_def)
  from recv [OF this(2)] show "tracks_at (\<lambda>l. l) (\<lambda>l _. l) link_recv l l'"
    unfolding tracks_at_def by (auto simp: l' same_def link_recv_def case_prod_beta)
qed

lemma tracks_await_report:
  assumes "wait \<le> limit"
  shows "tracks (\<lambda>l. l) (\<lambda>l _. l) (await_report limit)"
proof (rule tracksI)
  show "grows (\<lambda>l. l) (await_report limit)" by (simp add: grows_def await_report_outbox)
  fix l l' assume "same (\<lambda>l. l) (\<lambda>l _. l) l l'"
  then obtain es where l': "l' = l\<lparr>inbox := es\<rparr>" and "rel (inbox l) es" by (auto simp: same_def)
  have answer: "await_report limit l = (report_answer (fst (next_event_within limit (inbox l))),
      l\<lparr>inbox := snd (next_event_within limit (inbox l))\<rparr>)" for l
    by (auto simp: await_report_def report_answer_def link_recv_within_def split: prod.splits option.splits sum.splits)
  from recv_within [OF \<open>rel (inbox l) es\<close> assms] show "tracks_at (\<lambda>l. l) (\<lambda>l _. l) (await_report limit) l l'"
    unfolding tracks_at_def answer by (auto simp: l' same_def report_answer_def)
qed

section \<open>The server\<close>

lemma tracks_at_read_batch:
  "same (\<lambda>l. l) (\<lambda>l _. l) l l' \<Longrightarrow> tracks_at (\<lambda>l. l) (\<lambda>l _. l) (read_batch registry c b p batch) l l'"
proof (induction registry c b p batch l arbitrary: l' rule: read_batch.induct)
  case (1 registry c b p batch l)
  have "tracks_at (\<lambda>l. l) (\<lambda>l _. l) (read_next registry c b p batch m) l1 l1'"
    if m: "link_recv l = (Inr m, l1)" and same: "same (\<lambda>l. l) (\<lambda>l _. l) l1 l1'" for m l1 l1'
  proof (cases "\<exists>tid protocol transport port dir e. m = Test tid protocol transport port dir \<and>
      accept_test registry c b p batch tid protocol transport port dir = Inr e")
    case True
    then obtain tid protocol transport port dir e where t: "m = Test tid protocol transport port dir"
      and a: "accept_test registry c b p batch tid protocol transport port dir = Inr e" by blast
    have "read_next registry c b p batch m = read_batch registry c b p (batch @ [e])"
      by (simp add: read_next_def t a fun_eq_iff)
    with "1.IH" [OF m [symmetric] refl t a same] show ?thesis by simp
  next
    case False
    then have "\<exists>r. read_next registry c b p batch m = (\<lambda>l. (r, l))"
      by (cases m) (auto simp: read_next_def fun_eq_iff split: sum.splits, metis sum.exhaust sum.inject(1))
    then obtain r where "read_next registry c b p batch m = (\<lambda>l. (r, l))" by blast
    then show ?thesis using tracks_atD [OF bare.tracks_return same] by simp
  qed
  with "1.prems" have "tracks_at (\<lambda>l. l) (\<lambda>l _. l) (\<lambda>l. try_then (link_recv l) (read_next registry c b p batch)) l l'"
    by (intro tracks_at_try_then tracks_atD [OF tracks_link_recv] grows_read_next)
  then show ?case by (simp add: read_batch_next [abs_def])
qed

lemma tracks_report_result: "tracks sv_link sv_put (report_result ir)"
proof -
  have send: "tracks sv_link sv_put (on_link sv_link sv_put (link_send (report_message ir)))" for report_message :: "u32 \<times> protocol_result \<Rightarrow> message"
    by (rule sv.tracks_on_link [OF tracks_link_send])
  have count: "beside sv_link sv_put (count_result (snd ir))"
    by (simp add: beside_def count_result_def split: protocol_result.splits)
  have "report_result ir = (\<lambda>st. on_link sv_link sv_put (link_send (protocol_result_to_report (fst ir) (snd ir)))
      (count_result (snd ir) st))"
    by (simp add: report_result_def sv_send_def on_link_def fun_eq_iff split: prod.splits)
  then show ?thesis using sv.tracks_beside [OF send count] by simp
qed

lemma tracks_at_server_loop:
  "same sv_link sv_put st st' \<Longrightarrow> tracks_at sv_link sv_put (server_loop registry envs c b timeout p) st st'"
proof (induction registry envs c b timeout p st arbitrary: st' rule: server_loop.induct)
  case (1 registry envs c b timeout p st)
  have "tracks_at sv_link sv_put (serve_next registry envs c b timeout p bd) st1 st1'"
    if bd: "on_link sv_link sv_put (read_batch registry c b p []) st = (Inr bd, st1)"
      and same: "same sv_link sv_put st1 st1'" for bd st1 st1'
  proof -
    obtain batch d where [simp]: "bd = (batch, d)" by fastforce
    from bd obtain l where l: "read_batch registry c b p [] (sv_link st) = (Inr (batch, d), l)"
      and st1: "st1 = st\<lparr>sv_link := l\<rparr>" by (auto simp: on_link_def split: prod.splits)
    show ?thesis
    proof (cases "batch = []")
      case True
      then show ?thesis using tracks_atD [OF sv.tracks_return same] by (simp add: serve_next_def [abs_def])
    next
      case False
      let ?report = "for_each report_result (run_server_batch timeout (envs (length (outbox l))) batch)"
      let ?more = "\<lambda>_ st2. if d then (Inr (), st2) else server_loop registry envs c b timeout p st2"
      have "tracks_at sv_link sv_put (\<lambda>s. try_then (?report s) ?more) st1 st1'"
      proof (rule tracks_at_try_then)
        show "tracks_at sv_link sv_put ?report st1 st1'"
          by (rule tracks_atD [OF sv.tracks_for_each [OF tracks_report_result] same])
        show "tracks_at sv_link sv_put (?more u) st2 st2'"
          if "?report st1 = (Inr u, st2)" "same sv_link sv_put st2 st2'" for u st2 st2'
          using "1.IH" [OF l [symmetric] refl refl refl False] that tracks_atD [OF sv.tracks_return that(2)] st1
          by (cases d) auto
        show "grows sv_link (?more u)" for u by (simp add: grows_def prefix_server_loop)
      qed
      moreover have "outbox (sv_link st1') = outbox l" using same by (auto simp: same_def st1)
      ultimately show ?thesis by (simp add: tracks_at_def serve_next_def False st1)
    qed
  qed
  with "1.prems" have "tracks_at sv_link sv_put (\<lambda>s. try_then (on_link sv_link sv_put (read_batch registry c b p []) s)
      (serve_next registry envs c b timeout p)) st st'"
    by (intro tracks_at_try_then sv.tracks_at_on_link tracks_at_read_batch grows_serve_next)
  then show ?case by (simp add: server_loop_next [abs_def])
qed

lemma tracks_server_loop: "tracks sv_link sv_put (server_loop registry envs c b timeout p)"
  by (rule tracksI) (simp_all add: grows_def prefix_server_loop tracks_at_server_loop)

lemma tracks_serve_and_bye: "tracks sv_link sv_put (serve_and_bye registry envs c b timeout p)"
proof -
  have "tracks sv_link sv_put (\<lambda>st. try_then (on_link sv_link sv_put (link_send (Bye s)) st) (\<lambda>_ st2. (Inr s, st2)))" for s
    by (intro tracks_try_then sv.tracks_on_link tracks_link_send sv.tracks_return)
  then have "tracks sv_link sv_put (\<lambda>st1. try_then (on_link sv_link sv_put (link_send (Bye (server_summary st1))) st1)
      (\<lambda>_ st2. (Inr (server_summary st1), st2)))"
    by (rule sv.tracks_reading) (simp add: server_summary_def)
  then show ?thesis
    unfolding serve_and_bye_def [abs_def] by (intro tracks_try_then tracks_server_loop)
qed

lemma tracks_session:
  "tracks (\<lambda>l. l) (\<lambda>l _. l) (\<lambda>l. apsnd sv_link (serve_and_bye registry envs c b timeout p (fresh_server l)))"
    (is "tracks _ _ (\<lambda>l. apsnd sv_link (?W (fresh_server l)))")
proof (rule tracksI)
  show "grows (\<lambda>l. l) (\<lambda>l. apsnd sv_link (?W (fresh_server l)))"
  proof (rule growsI)
    show "prefix (outbox l) (outbox (snd (apsnd sv_link (?W (fresh_server l)))))" for l
      using growsD [OF tracks_grows [OF tracks_serve_and_bye], of "fresh_server l"] by (simp add: fresh_server_def)
  qed
  fix l l' assume "same (\<lambda>l. l) (\<lambda>l _. l) l l'"
  then have "same sv_link sv_put (fresh_server l) (fresh_server l')" by (auto simp: same_def fresh_server_def)
  then have "tracks_at sv_link sv_put ?W (fresh_server l) (fresh_server l')"
    by (rule tracks_atD [OF tracks_serve_and_bye])
  then show "tracks_at (\<lambda>l. l) (\<lambda>l _. l) (\<lambda>l. apsnd sv_link (?W (fresh_server l))) l l'"
    unfolding tracks_at_def [of "\<lambda>l. l"] by (cases rule: tracks_at_cases) (auto simp: same_def)
qed

lemma tracks_run_server: "tracks (\<lambda>l. l) (\<lambda>l _. l) (run_server A registry envs)"
proof -
  have "tracks (\<lambda>l. l) (\<lambda>l _. l) (configured A registry envs c m)" for c m
  proof (cases m)
    case (Configure target timeout_ms version slots)
    show ?thesis
      by (cases "version = PROTOCOL_VERSION"; simp add: configured_def [abs_def] Configure;
          intro tracks_try_then tracks_link_send bare.tracks_return tracks_session)
  qed (simp_all add: configured_def [abs_def] bare.tracks_return)
  then have "tracks (\<lambda>l. l) (\<lambda>l _. l)
      (\<lambda>l. case peer of Inl e \<Rightarrow> (Inl e, l) | Inr c \<Rightarrow> try_then (link_recv l) (configured A registry envs c))" for peer
    by (cases peer) (auto intro!: bare.tracks_return tracks_try_then tracks_link_recv)
  then have "tracks (\<lambda>l. l) (\<lambda>l _. l)
      (\<lambda>l. case link_peer l of Inl e \<Rightarrow> (Inl e, l) | Inr c \<Rightarrow> try_then (link_recv l) (configured A registry envs c))"
    by (rule bare.tracks_reading) simp
  then show ?thesis by (simp only: run_server_steps [abs_def])
qed

section \<open>The client\<close>

lemma tracks_at_collect_reports:
  "wait \<le> limit \<Longrightarrow> same (\<lambda>l. l) (\<lambda>l _. l) l l' \<Longrightarrow>
   tracks_at (\<lambda>l. l) (\<lambda>l _. l) (collect_reports debug limit rs) l l'"
proof (induction debug limit rs l arbitrary: l' rule: collect_reports.induct)
  case (1 debug limit rs l)
  show ?case
  proof (cases "rs_expected rs = {}")
    case True
    then show ?thesis using tracks_atD [OF bare.tracks_return "1.prems"(2)] by (simp add: collect_reports_next [abs_def])
  next
    case False
    have "tracks_at (\<lambda>l. l) (\<lambda>l _. l) (collect_next debug limit rs m) l1 l1'"
      if m: "await_report limit l = (Inr m, l1)" and same: "same (\<lambda>l. l) (\<lambda>l _. l) l1 l1'" for m l1 l1'
    proof (cases "\<exists>tid sent received err rs'. m = Report tid sent received err \<and>
        accept_report tid sent received err rs = Inr rs'")
      case True
      then obtain tid sent received err rs' where r: "m = Report tid sent received err"
        and a: "accept_report tid sent received err rs = Inr rs'" by blast
      from m r have recv: "(Some (Inr (Report tid sent received err)), l1) = link_recv_within limit l"
        by (auto simp: await_report_def split: prod.splits option.splits sum.splits)
      have "collect_next debug limit rs m = collect_reports debug limit rs'"
        by (simp add: collect_next_def r a fun_eq_iff)
      with "1.IH" [OF False recv refl refl refl a "1.prems"(1) same] show ?thesis by simp
    next
      case f: False
      have "\<exists>r. collect_next debug limit rs m = (\<lambda>l. (r, l))"
      proof (cases m)
        case (Report tid sent received err)
        with f show ?thesis
          by (cases "accept_report tid sent received err rs") (auto simp: collect_next_def fun_eq_iff)
      qed (auto simp: collect_next_def fun_eq_iff)
      then obtain r where "collect_next debug limit rs m = (\<lambda>l. (r, l))" by blast
      then show ?thesis using tracks_atD [OF bare.tracks_return same] by simp
    qed
    with "1.prems" have "tracks_at (\<lambda>l. l) (\<lambda>l _. l)
        (\<lambda>l. try_then (await_report limit l) (collect_next debug limit rs)) l l'"
      by (intro tracks_at_try_then tracks_atD [OF tracks_await_report] grows_collect_next)
    then show ?thesis by (simp add: collect_reports_next [abs_def] False)
  qed
qed

lemma tracks_collect_reports: "wait \<le> limit \<Longrightarrow> tracks (\<lambda>l. l) (\<lambda>l _. l) (collect_reports debug limit rs)"
  by (rule tracksI) (simp_all add: grows_def collect_reports_link tracks_at_collect_reports)

lemma tracks_client_send: "tracks cl_link cl_put (client_send m)"
proof -
  have "client_send m = on_link cl_link cl_put (link_send m)"
    by (simp add: client_send_def on_link_def fun_eq_iff)
  then show ?thesis by (simp add: cl.tracks_on_link [OF tracks_link_send])
qed

lemma tracks_record_batch: "tracks cl_link cl_put (record_batch cfg interactive batch rs)"
proof (rule cl.tracks_aside)
  fix st l
  let ?bp = "\<lparr>bp_completed = rs_completed rs, bp_errors = rs_errors rs, bp_fails = Map.empty, bp_client = st\<rparr>"
  have start: "\<lparr>bp_completed = rs_completed rs, bp_errors = rs_errors rs, bp_fails = Map.empty,
      bp_client = cl_put l st\<rparr> = bp_put l ?bp" by (simp add: bp_put_def)
  show "record_batch cfg interactive batch rs (cl_put l st) = apsnd (cl_put l) (record_batch cfg interactive batch rs st)"
    unfolding record_batch_def start record_entries_put
    by (auto simp: bp_put_def print_line_def split: prod.splits sum.splits)
  show "cl_link (snd (record_batch cfg interactive batch rs st)) = cl_link st"
    using record_entries_link [of cfg interactive batch ?bp]
    by (auto simp: record_batch_def print_line_def split: prod.splits sum.splits)
qed

lemma tracks_finish_batch:
  assumes patient: "wait \<le> receive_timeout cfg"
  shows "tracks cl_link cl_put (finish_batch cfg ce proto batch k)"
  by (cases "fst k")
    (simp_all add: finish_batch_def [abs_def] Let_def cl.tracks_return tracks_try_then
      cl.tracks_on_link [OF tracks_collect_reports [OF patient]] tracks_record_batch)

lemma tracks_execute_batch:
  assumes patient: "wait \<le> receive_timeout cfg"
  shows "tracks cl_link cl_put (execute_batch cfg ce proto batch)"
proof -
  note tracks_finish_batch [OF patient]
  then have "tracks cl_link cl_put
      (\<lambda>st. finish_batch cfg ce proto batch (link_local (cl_link st), length (outbox (cl_link st))) st)"
    by (rule cl.tracks_reading) simp
  then show ?thesis
    unfolding execute_batch_steps [abs_def]
    by (intro tracks_try_then cl.tracks_for_each tracks_client_send)
qed

lemma tracks_flush_batch:
  assumes patient: "wait \<le> receive_timeout cfg"
  shows "tracks cl_link cl_put (flush_batch cfg ce proto)"
proof -
  have "tracks cl_link cl_put (\<lambda>st. (Inr (), st\<lparr>cl_batch := []\<rparr>))"
    by (rule cl.tracks_aside) simp_all
  then have "tracks cl_link cl_put (\<lambda>st. try_then (execute_batch cfg ce proto batch st) (\<lambda>_ st'. (Inr (), st'\<lparr>cl_batch := []\<rparr>)))"
    for batch by (intro tracks_try_then tracks_execute_batch [OF patient])
  then show ?thesis
    unfolding flush_batch_def [abs_def] by (rule cl.tracks_reading) simp
qed

lemma tracks_scan_port:
  assumes patient: "wait \<le> receive_timeout cfg"
  shows "tracks cl_link cl_put (scan_port cfg ce proto name t t_str dir port)"
proof -
  let ?push = "push_entry name t t_str dir port"
  have "tracks cl_link cl_put (\<lambda>st. if full then flush_batch cfg ce proto st else (Inr (), st))" for full
    by (cases full) (simp_all add: tracks_flush_batch [OF patient] cl.tracks_return)
  then have "tracks cl_link cl_put (\<lambda>st. if length (cl_batch st) \<ge> unat (batch_size cfg)
      then flush_batch cfg ce proto st else (Inr (), st))"
    by (rule cl.tracks_reading) simp
  moreover have "beside cl_link cl_put ?push" by (simp add: beside_def push_entry_def)
  ultimately have "tracks cl_link cl_put (\<lambda>st. (\<lambda>st. if length (cl_batch st) \<ge> unat (batch_size cfg)
      then flush_batch cfg ce proto st else (Inr (), st)) (?push st))"
    by (rule cl.tracks_beside)
  then show ?thesis by (simp add: scan_port_def [abs_def] Let_def)
qed

lemma tracks_scan_direction:
  assumes patient: "wait \<le> receive_timeout cfg"
  shows "tracks cl_link cl_put (scan_direction cfg ce proto name t t_str s e dir)"
proof -
  have "tracks cl_link cl_put (\<lambda>st. if rest then flush_batch cfg ce proto st else (Inr (), st))" for rest
    by (cases rest) (simp_all add: tracks_flush_batch [OF patient] cl.tracks_return)
  then have "tracks cl_link cl_put (\<lambda>st. if cl_batch st \<noteq> [] then flush_batch cfg ce proto st else (Inr (), st))"
    by (rule cl.tracks_reading) simp
  then show ?thesis
    unfolding scan_direction_def [abs_def] by (intro tracks_try_then cl.tracks_for_each tracks_scan_port [OF patient])
qed

lemma tracks_scan_range:
  assumes patient: "wait \<le> receive_timeout cfg"
  shows "tracks cl_link cl_put (scan_range cfg ce proto name spec)"
proof -
  obtain t_str s e where spec: "spec = (t_str, s, e)" by (cases spec)
  have "tracks cl_link cl_put (\<lambda>st. for_each (scan_direction cfg ce proto name t t_str s e) (scan_directions cfg)
      (st\<lparr>cl_batch := []\<rparr>))" for t
    by (rule cl.tracks_beside [OF cl.tracks_for_each [OF tracks_scan_direction [OF patient]]]) (simp add: beside_def)
  then show ?thesis
    by (cases "transport_from_str t_str")
      (simp_all only: scan_range_def [abs_def] spec prod.case option.case tracks_if cl.tracks_return)
qed

lemma tracks_scan_test:
  assumes patient: "wait \<le> receive_timeout cfg"
  shows "tracks cl_link cl_put (scan_test cfg ce registry ranges name)"
  by (cases "find_protocol registry name")
    (simp_all add: scan_test_def [abs_def] cl.tracks_return cl.tracks_for_each tracks_scan_range [OF patient])

lemma tracks_recv_ack: "tracks cl_link cl_put recv_ack"
proof -
  have eq: "recv_ack = (\<lambda>st. try_then (on_link cl_link cl_put link_recv st) (\<lambda>m st. (check_ack m, st)))"
    by (auto simp: recv_ack_def on_link_def try_then_def fun_eq_iff split: prod.splits sum.splits)
  show ?thesis
    unfolding eq by (intro tracks_try_then cl.tracks_on_link tracks_link_recv cl.tracks_return)
qed

lemma tracks_await_bye: "tracks cl_link cl_put (await_bye ce)"
proof -
  define answer where "answer m (st :: client_state) =
    (case m of Bye s \<Rightarrow> Inr (client_summary st) | _ \<Rightarrow> Inl (''expected Bye, got '' @ ce_debug ce m))" for m st
  have eq: "await_bye ce = (\<lambda>st. try_then (apfst (map_err (\<lambda>e. ''recv Bye: '' @ e)) (on_link cl_link cl_put link_recv st))
      (\<lambda>m st. (answer m st, st)))"
  proof
    fix st :: client_state
    obtain r l where "link_recv (cl_link st) = (r, l)" by fastforce
    then show "await_bye ce st = try_then (apfst (map_err (\<lambda>e. ''recv Bye: '' @ e)) (on_link cl_link cl_put link_recv st))
      (\<lambda>m st. (answer m st, st))"
      by (auto simp: await_bye_def on_link_def answer_def client_summary_def split: sum.splits message.splits)
  qed
  have "tracks cl_link cl_put (\<lambda>st. (answer m st, st))" for m
    by (rule cl.tracks_reading [where F = "\<lambda>r st. (r, st)"])
      (simp_all add: cl.tracks_return answer_def client_summary_def split: message.splits)
  then show ?thesis
    unfolding eq by (intro tracks_try_then tracks_map_err cl.tracks_on_link tracks_link_recv)
qed

lemma tracks_client_scan:
  assumes patient: "wait \<le> receive_timeout cfg"
  shows "tracks cl_link cl_put (client_scan ce registry cfg ranges)"
proof -
  have "beside cl_link cl_put (\<lambda>st. st\<lparr>cl_stdout := cl_stdout st @ final_report cfg st\<rparr>)"
    by (simp add: beside_def final_report_def)
  from cl.tracks_beside [OF tracks_client_send this]
  have "tracks cl_link cl_put (\<lambda>st. client_send Done (st\<lparr>cl_stdout := cl_stdout st @ final_report cfg st\<rparr>))" .
  then show ?thesis
    unfolding client_scan_def [abs_def]
    by (intro tracks_try_then tracks_client_send tracks_recv_ack tracks_await_bye cl.tracks_for_each tracks_scan_test [OF patient])
qed

section \<open>Whole sessions\<close>

lemma server_tracks:
  assumes "rel es fs"
  obtains r l1 l1' where "run_server A registry envs (l\<lparr>inbox := es\<rparr>) = (r, l1)"
      "run_server A registry envs (l\<lparr>inbox := fs\<rparr>) = (r, l1')" "same (\<lambda>l. l) (\<lambda>l _. l) l1 l1'"
  | e l1 where "stops" "run_server A registry envs (l\<lparr>inbox := es\<rparr>) = (Inl e, l1)"
      "prefix (outbox l1) (outbox (snd (run_server A registry envs (l\<lparr>inbox := fs\<rparr>))))"
proof -
  have "same (\<lambda>l. l) (\<lambda>l _. l) (l\<lparr>inbox := es\<rparr>) (l\<lparr>inbox := fs\<rparr>)" using assms by (auto simp: same_def)
  then have "tracks_at (\<lambda>l. l) (\<lambda>l _. l) (run_server A registry envs) (l\<lparr>inbox := es\<rparr>) (l\<lparr>inbox := fs\<rparr>)"
    by (rule tracks_atD [OF tracks_run_server])
  then show ?thesis by (cases rule: tracks_at_cases) (use that in auto)
qed

lemma client_tracks:
  assumes "rel es fs" and "wait \<le> receive_timeout cfg"
  obtains r st st' where "run_client ce registry cfg (l\<lparr>inbox := es\<rparr>) = (r, st)"
      "run_client ce registry cfg (l\<lparr>inbox := fs\<rparr>) = (r, st')" "same cl_link cl_put st st'"
  | e st where "stops" "run_client ce registry cfg (l\<lparr>inbox := es\<rparr>) = (Inl e, st)"
      "prefix (outbox (cl_link st)) (outbox (cl_link (snd (run_client ce registry cfg (l\<lparr>inbox := fs\<rparr>)))))"
proof -
  have same: "same cl_link cl_put (initial_client (l\<lparr>inbox := es\<rparr>)) (initial_client (l\<lparr>inbox := fs\<rparr>))"
    using assms(1) by (auto simp: same_def initial_client_def)
  show ?thesis
  proof (cases "and_then (validate_port_ranges (cfg_port_ranges cfg))
      (\<lambda>_. complete_port_ranges registry (cfg_tests cfg) (cfg_port_ranges cfg))")
    case (Inl e)
    then have "run_client ce registry cfg (l\<lparr>inbox := fs\<rparr>) = (Inl e, initial_client (l\<lparr>inbox := fs\<rparr>))" for fs
      by (simp add: run_client_scan)
    from that(1) [OF this this same] show ?thesis .
  next
    case (Inr ranges)
    then have run: "run_client ce registry cfg (l\<lparr>inbox := fs\<rparr>) =
        client_scan ce registry cfg ranges (initial_client (l\<lparr>inbox := fs\<rparr>))" for fs
      by (simp add: run_client_scan)
    from tracks_atD [OF tracks_client_scan [OF assms(2)] same] show ?thesis
      by (cases rule: tracks_at_cases) (use that in \<open>auto simp: run\<close>)
  qed
qed

end

end
