(* ===== verification/Timing.thy ===== *)
theory Timing
  imports Session_View
begin

text \<open>
  Delays on the control connection. The server never gives up waiting, so its session does not depend
  on delays at all; the client's does not as long as no delay is longer than it waits for a report.
\<close>

primrec delay :: "inbox_event list \<Rightarrow> duration" where
  "delay [] = 0"
| "delay (e # es) = (case e of Silence d \<Rightarrow> d + delay es | _ \<Rightarrow> 0)"

text \<open>No message comes later than \<open>w\<close> after the one before it.\<close>

primrec prompt_within :: "duration \<Rightarrow> inbox_event list \<Rightarrow> bool" where
  "prompt_within w [] = True"
| "prompt_within w (e # es) \<longleftrightarrow> delay (e # es) \<le> w \<and> prompt_within w es"

fun is_silence :: "inbox_event \<Rightarrow> bool" where
  "is_silence (Silence d) = True"
| "is_silence (Arrives m) = False"
| "is_silence (RecvFault e) = False"

text \<open>The same events without delay.\<close>

definition undelayed :: "inbox_event list \<Rightarrow> inbox_event list" where
  "undelayed es = filter (\<lambda>e. \<not> is_silence e) es"

lemma undelayed_simps [simp]:
  "undelayed [] = []" "undelayed (Arrives m # es) = Arrives m # undelayed es"
  "undelayed (RecvFault e # es) = RecvFault e # undelayed es" "undelayed (Silence d # es) = undelayed es"
  by (simp_all add: undelayed_def)

lemma next_event_undelayed:
  "fst (next_event (undelayed es)) = fst (next_event es)" "snd (next_event (undelayed es)) = undelayed (snd (next_event es))"
  by (induction es rule: next_event.induct) simp_all

lemma next_event_prompt: "prompt_within w es \<Longrightarrow> prompt_within w (snd (next_event es))"
  by (induction es rule: next_event.induct) simp_all

lemma next_event_within_delay:
  "delay es \<le> t \<Longrightarrow> next_event_within t es = (Some (fst (next_event es)), snd (next_event es))"
  by (induction t es rule: next_event_within.induct) simp_all

lemma delay_undelayed: "delay (undelayed es) = 0"
  by (induction es) (auto split: inbox_event.splits simp: undelayed_def)

lemma prompt_delay: "prompt_within w es \<Longrightarrow> delay es \<le> w"
  by (cases es) simp_all

interpretation undelay: view "\<lambda>es fs. prompt_within w es \<and> fs = undelayed es" False w for w
proof
  fix es fs :: "inbox_event list" and t
  assume rel: "prompt_within w es \<and> fs = undelayed es"
  then show "fst (next_event fs) = fst (next_event es) \<and>
      (prompt_within w (snd (next_event es)) \<and> snd (next_event fs) = undelayed (snd (next_event es))) \<or>
      False \<and> isl (fst (next_event es))"
    by (simp add: next_event_undelayed next_event_prompt)
  assume "w \<le> t"
  moreover from rel have "delay es \<le> w" by (simp add: prompt_delay)
  ultimately have "next_event_within t es = (Some (fst (next_event es)), snd (next_event es))"
    "next_event_within t fs = (Some (fst (next_event fs)), snd (next_event fs))"
    using rel by (simp_all add: next_event_within_delay delay_undelayed)
  then show "fst (next_event_within t fs) = fst (next_event_within t es) \<and>
      (prompt_within w (snd (next_event_within t es)) \<and>
       snd (next_event_within t fs) = undelayed (snd (next_event_within t es))) \<or>
      False \<and> (\<exists>e. fst (next_event_within t es) = Some (Inl e))"
    using rel by (simp add: next_event_undelayed next_event_prompt)
qed

lemma prompt_within_some: "\<exists>w. prompt_within w es"
proof (induction es)
  case (Cons e es)
  then obtain w where w: "prompt_within w es" by blast
  have more: "prompt_within w fs \<Longrightarrow> w \<le> w' \<Longrightarrow> prompt_within w' fs" for w w' fs
    by (induction fs) auto
  have "prompt_within (max w (delay (e # es))) (e # es)" using more [OF w] by simp
  then show ?case by blast
qed simp

lemma server_undelayed:
  "run_server A registry envs (l\<lparr>inbox := undelayed es\<rparr>) =
     apsnd (\<lambda>l1. l1\<lparr>inbox := undelayed (inbox l1)\<rparr>) (run_server A registry envs (l\<lparr>inbox := es\<rparr>))"
proof -
  obtain w where "prompt_within w es" using prompt_within_some by blast
  then have "prompt_within w es \<and> undelayed es = undelayed es" by simp
  then show ?thesis
  proof (cases rule: undelay.server_tracks [where A = A and registry = registry and envs = envs and l = l])
    case (1 r l1 l1')
    then have "l1' = l1\<lparr>inbox := undelayed (inbox l1)\<rparr>" by (auto simp: undelay.same_def)
    with 1 show ?thesis by simp
  qed simp
qed

lemma client_undelayed:
  assumes "prompt_within (receive_timeout cfg) es"
  shows "run_client ce registry cfg (l\<lparr>inbox := undelayed es\<rparr>) =
     apsnd (\<lambda>st. cl_put ((cl_link st)\<lparr>inbox := undelayed (inbox (cl_link st))\<rparr>) st)
       (run_client ce registry cfg (l\<lparr>inbox := es\<rparr>))"
proof -
  from assms have "prompt_within (receive_timeout cfg) es \<and> undelayed es = undelayed es" by simp
  then show ?thesis
  proof (cases rule: undelay.client_tracks [where ce = ce and registry = registry and cfg = cfg and l = l])
    case (2 r st st')
    then have "st' = cl_put ((cl_link st)\<lparr>inbox := undelayed (inbox (cl_link st))\<rparr>) st"
      by (auto simp: undelay.same_def)
    with 2 show ?thesis by simp
  qed simp_all
qed

end
