(* ===== verification/Scan_Outcome.thy ===== *)
theory Scan_Outcome
  imports Session Timing
begin

text \<open>
  What a session computes: each planned test is run once by the server and once by the client, at the
  environments each has when its batch is due, and recorded with both results combined. Delays of the
  connection do not change it.
\<close>

section \<open>The outcomes of a scan\<close>

text \<open>The server's own result for the test number \<open>k\<close> of a batch.\<close>

definition server_result ::
  "addr_text \<Rightarrow> 'e client_env \<Rightarrow> 'e registry \<Rightarrow> client_config \<Rightarrow> 'e session_envs \<Rightarrow> socket_addr \<Rightarrow> nat \<Rightarrow>
   batch_entry list \<Rightarrow> nat \<Rightarrow> protocol_result" where
  "server_result A ce registry cfg envs c sent batch k =
     (let e = server_entry_of registry c
                (parse_configured_bind_addr A (show_socket (ce_text ce) (cfg_target_addr cfg))) (batch ! k)
      in run_protocol (sb_proto e) (envs sent k)
           (server_context (from_millis (unat (cfg_timeout_ms cfg))) e))"

text \<open>
  \<open>sent_c\<close> and \<open>sent_s\<close> count the messages each side has sent, which select its environments: the client
  has sent the batch when it runs its probes, the server has answered the batches before.
\<close>

primrec scan_outcomes ::
  "addr_text \<Rightarrow> 'e client_env \<Rightarrow> 'e registry \<Rightarrow> client_config \<Rightarrow> 'e session_envs \<Rightarrow> socket_addr \<Rightarrow> socket_addr \<Rightarrow>
   nat \<Rightarrow> nat \<Rightarrow> u32 \<Rightarrow> 'e scan_part list \<Rightarrow> outcome list" where
  "scan_outcomes A ce registry cfg envs a c sent_c sent_s n [] = []"
| "scan_outcomes A ce registry cfg envs a c sent_c sent_s n (part # parts) =
     (let batch = numbered part n (sp_ports part); sent_c' = sent_c + length batch + 1
      in map (\<lambda>k. \<lparr>oc_entry = batch ! k,
                     oc_remote = server_result A ce registry cfg envs c sent_s batch k,
                     oc_local = run_protocol (sp_proto part) (ce_envs ce sent_c' k)
                                  (client_context cfg a (batch ! k))\<rparr>) [0..<length batch] @
         scan_outcomes A ce registry cfg envs a c sent_c' (sent_s + length batch)
           (n + of_nat (length batch)) parts)"

lemma reported_for_server:
  assumes "distinct (map be_id batch)" and "k < length batch"
  shows "reported_for (run_server_batch timeout (envs sent) (map (server_entry_of registry c b) batch)) batch k =
     (let e = server_entry_of registry c b (batch ! k)
      in run_protocol (sb_proto e) (envs sent k) (server_context timeout e))"
proof -
  let ?es = "map (server_entry_of registry c b) batch"
  let ?rs = "run_server_batch timeout (envs sent) ?es"
  let ?jobs = "map (\<lambda>e. (sb_id e, sb_proto e, server_context timeout e)) ?es"
  have "mset (map fst ?rs) = mset (map be_id batch)"
    unfolding ids_run_server_batch by (simp add: comp_def server_entry_of_def)
  then have distinct: "distinct (map fst ?rs)" using assms(1) by (metis mset_eq_imp_distinct_iff)
  have "(k, ?jobs ! k) \<in> set (enumerate 0 ?jobs)" using assms(2) by (auto simp: in_set_enumerate_eq)
  then have "run_job (envs sent) (k, ?jobs ! k) \<in> set ?rs"
    by (simp add: run_server_batch_def set_run_concurrently)
  then have "(be_id (batch ! k), run_protocol (sb_proto (?es ! k)) (envs sent k) (server_context timeout (?es ! k)))
      \<in> set ?rs"
    using assms(2) by (simp add: run_job_def) (simp add: server_entry_of_def)
  from map_of_is_SomeI [OF distinct this] show ?thesis
    using assms(2) by (simp add: reported_for_def Let_def)
qed

lemma scan_outcomes_reported:
  assumes "\<And>part. part \<in> set parts \<Longrightarrow> length (sp_ports part) \<le> 65536"
  shows "reported_outcomes cfg ce a sent_c n parts
           (plan_replies A ce registry cfg envs c sent_s (numbered_batches n parts)) =
         scan_outcomes A ce registry cfg envs a c sent_c sent_s n parts"
  using assms
proof (induction parts arbitrary: sent_c sent_s n)
  case (Cons part parts)
  let ?batch = "numbered part n (sp_ports part)"
  have distinct: "distinct (map be_id ?batch)" by (rule numbered_ids) (simp add: Cons.prems)
  have len: "length ?batch = length (sp_ports part)" by (simp add: numbered_def)
  have "reported_for (run_server_batch (from_millis (unat (cfg_timeout_ms cfg))) (envs sent_s)
      (map (server_entry_of registry c
        (parse_configured_bind_addr A (show_socket (ce_text ce) (cfg_target_addr cfg)))) ?batch)) ?batch k =
      server_result A ce registry cfg envs c sent_s ?batch k" if "k < length ?batch" for k
    unfolding server_result_def by (rule reported_for_server [OF distinct that])
  moreover have "reported_outcomes cfg ce a (sent_c + length ?batch + 1) (n + of_nat (length ?batch)) parts
      (plan_replies A ce registry cfg envs c (sent_s + length ?batch)
        (numbered_batches (n + of_nat (length ?batch)) parts)) =
      scan_outcomes A ce registry cfg envs a c (sent_c + length ?batch + 1) (sent_s + length ?batch)
        (n + of_nat (length ?batch)) parts"
    by (rule Cons.IH) (simp add: Cons.prems)
  ultimately show ?case
    by (simp add: plan_replies_def Let_def batch_outcomes_def local_result_def len)
qed (simp add: plan_replies_def)

definition session_result ::
  "addr_text \<Rightarrow> 'e client_env \<Rightarrow> 'e registry \<Rightarrow> client_config \<Rightarrow> 'e session_envs \<Rightarrow> port_spec list \<Rightarrow>
   socket_addr \<Rightarrow> socket_addr \<Rightarrow> outcome list" where
  "session_result A ce registry cfg envs ranges a c =
     scan_outcomes A ce registry cfg envs a c 1 1 0 (scan_plan cfg registry ranges)"

text \<open>The tests of the outcomes are the planned tests, in order.\<close>

lemma scan_outcomes_entries:
  "map oc_entry (scan_outcomes A ce registry cfg envs a c sent_c sent_s n parts) =
     concat (numbered_batches n parts)"
proof (induction parts arbitrary: sent_c sent_s n)
  case (Cons part parts)
  have "length (numbered part n (sp_ports part)) = length (sp_ports part)" by (simp add: numbered_def)
  with Cons map_nth [of "numbered part n (sp_ports part)"] show ?case by (simp add: Let_def o_def)
qed simp

definition planned_of :: "batch_entry \<Rightarrow> planned" where
  "planned_of e = (be_test_name e, be_transport_str e, be_direction e, be_port e)"

lemma planned_of_numbered: "map planned_of (concat (numbered_batches n parts)) = concat (map part_tests parts)"
proof (induction parts arbitrary: n)
  case (Cons part parts)
  have "map planned_of (numbered part n ports) = map (\<lambda>p. (sp_name part, sp_transport_str part, sp_direction part, p)) ports"
    for ports
    by (rule nth_equalityI) (simp_all add: numbered_def planned_of_def nth_enumerate_eq)
  with Cons show ?case by (simp add: part_tests_def)
qed simp

text \<open>The server counted exactly its own results.\<close>

lemma results_summary_mset: "mset rs = mset rs' \<Longrightarrow> results_summary rs = results_summary rs'"
  by (simp add: results_summary_def size_mset [symmetric] mset_filter del: size_mset)

lemma mset_reported:
  assumes "distinct (map be_id batch)" and "mset (map fst rs) = mset (map be_id batch)"
  shows "mset (map (reported_for rs batch) [0..<length batch]) = mset (map snd rs)"
proof -
  have distinct: "distinct (map fst rs)" using assms by (metis mset_eq_imp_distinct_iff)
  have "map snd rs = map (\<lambda>i. the (map_of rs i)) (map fst rs)"
    using map_of_is_SomeI [OF distinct] by fastforce
  then have "mset (map snd rs) = mset (map (\<lambda>i. the (map_of rs i)) (map be_id batch))"
    using assms(2) by (metis mset_map)
  also have "map (\<lambda>i. the (map_of rs i)) (map be_id batch) = map (reported_for rs batch) [0..<length batch]"
    by (rule nth_equalityI) (simp_all add: reported_for_def)
  finally show ?thesis by (rule sym)
qed

lemma mset_remotes:
  assumes "\<And>part. part \<in> set parts \<Longrightarrow> length (sp_ports part) \<le> 65536"
    and "list_all2 (\<lambda>rs batch. mset (map fst rs) = mset (map be_id batch)) rss (numbered_batches n parts)"
  shows "mset (map oc_remote (reported_outcomes cfg ce a sent n parts rss)) = mset (map snd (concat rss))"
  using assms
proof (induction parts arbitrary: sent n rss)
  case (Cons part parts)
  then obtain rs rss' where rss: "rss = rs # rss'"
    and ids: "mset (map fst rs) = mset (map be_id (numbered part n (sp_ports part)))"
    and more: "list_all2 (\<lambda>rs batch. mset (map fst rs) = mset (map be_id batch)) rss'
       (numbered_batches (n + of_nat (length (sp_ports part))) parts)"
    by (auto simp: list_all2_Cons2)
  have "distinct (map be_id (numbered part n (sp_ports part)))"
    by (rule numbered_ids) (simp add: Cons.prems(1))
  from mset_reported [OF this ids] Cons.IH [OF _ more] Cons.prems(1) show ?case
    by (simp add: rss Let_def batch_outcomes_def o_def del: mset_map)
qed simp

text \<open>
  One session on healthy connections, with the reports \<open>rss\<close> the server sends to the batches; the server may
  have sent something before.
\<close>

lemma session_exchange:
  assumes "send_fault lc = (\<lambda>_. None)" and "link_local lc = Inr a" and "outbox lc = []"
    and "send_fault ls = (\<lambda>_. None)" and "link_peer ls = Inr c"
    and "validate_port_ranges (cfg_port_ranges cfg) = Inr ()"
    and "complete_port_ranges registry (cfg_tests cfg) (cfg_port_ranges cfg) = Inr ranges"
    and ocs: "ocs = scan_outcomes A ce registry cfg envs a c 1 (length (outbox ls) + 1) 0 (scan_plan cfg registry ranges)"
  obtains rss l st where
    "list_all2 (\<lambda>rs batch. mset (map fst rs) = mset (map be_id batch)) rss
       (numbered_batches 0 (scan_plan cfg registry ranges))"
    "run_server A registry envs (ls\<lparr>inbox := map Arrives (client_messages ce registry cfg ranges)\<rparr>) =
       (Inr (results_summary (map oc_remote ocs)), l)"
    "outbox l = outbox ls @ Ack True None # map report_of (concat rss) @ [Bye (results_summary (map oc_remote ocs))]"
    "run_client ce registry cfg (lc\<lparr>inbox := map Arrives
         (Ack True None # map report_of (concat rss) @ [Bye (results_summary (map oc_remote ocs))])\<rparr>) =
       (Inr (results_summary (map oc_result ocs)), st)"
    "outbox (cl_link st) = client_messages ce registry cfg ranges"
    "cl_results st = (if keeps_results cfg then map outcome_entry ocs else [])"
    "\<not> renders_live cfg ce \<longrightarrow> cl_stdout st = session_output cfg ocs"
proof -
  let ?plan = "scan_plan cfg registry ranges"
  define rss where "rss = plan_replies A ce registry cfg envs c (length (outbox ls) + 1) (numbered_batches 0 ?plan)"
  have ids: "list_all2 (\<lambda>rs batch. mset (map fst rs) = mset (map be_id batch)) rss (numbered_batches 0 ?plan)"
    unfolding rss_def plan_replies_def by (rule ids_server_replies)
  have small: "length (sp_ports p) \<le> 65536" if "p \<in> set ?plan" for p
    using sp_ports_plan [OF that] by simp
  have outcomes: "ocs = session_outcomes ce registry cfg ranges a rss"
    unfolding ocs rss_def session_outcomes_def by (rule scan_outcomes_reported [symmetric]) (rule small)
  have remotes: "results_summary (map snd (concat rss)) = results_summary (map oc_remote ocs)"
    unfolding outcomes session_outcomes_def
    by (rule results_summary_mset, rule mset_remotes [symmetric]) (use ids small in auto)
  let ?ls = "ls\<lparr>inbox := map Arrives (client_messages ce registry cfg ranges)\<rparr>"
  have "\<exists>l. run_server A registry envs ?ls = (Inr (results_summary (map snd (concat rss))), l) \<and>
      outbox l = outbox ?ls @ Ack True None # map report_of (concat rss) @ [Bye (results_summary (map snd (concat rss)))]"
    by (rule run_server_replies [where ranges = ranges]) (simp_all add: assms(4,5) rss_def)
  then obtain l where server: "run_server A registry envs ?ls = (Inr (results_summary (map oc_remote ocs)), l)"
    "outbox l = outbox ls @ Ack True None # map report_of (concat rss) @ [Bye (results_summary (map oc_remote ocs))]"
    unfolding remotes by auto
  let ?lc = "lc\<lparr>inbox := map Arrives
      (Ack True None # map report_of (concat rss) @ [Bye (results_summary (map oc_remote ocs))])\<rparr>"
  have "\<exists>st. run_client ce registry cfg ?lc = (Inr (results_summary (map oc_result ocs)), st) \<and>
      outbox (cl_link st) = client_messages ce registry cfg ranges \<and>
      cl_results st = (if keeps_results cfg then map outcome_entry ocs else []) \<and>
      (\<not> renders_live cfg ce \<longrightarrow> cl_stdout st = session_output cfg ocs)"
    by (rule run_client_outcomes [OF _ _ _ assms(6,7) _ ids outcomes]) (simp_all add: assms(1-3))
  with that [OF ids server] show ?thesis by blast
qed

section \<open>Properties\<close>

text \<open>
  Property C1: a session computes the scan. On healthy connections, however slowly messages reach the
  server and as long as none reaches the client later than it waits, the server ends with the counts of
  its own results, and the client has recorded, printed (off a live terminal) and counted exactly one
  result for each planned test, in order: its own where the server passed, and the server's error or
  failure otherwise.
\<close>

theorem session_computes_scan:
  assumes "send_fault lc = (\<lambda>_. None)" and "link_local lc = Inr a" and "outbox lc = []"
    and "send_fault ls = (\<lambda>_. None)" and "link_peer ls = Inr c" and "outbox ls = []"
    and "validate_port_ranges (cfg_port_ranges cfg) = Inr ()"
    and "complete_port_ranges registry (cfg_tests cfg) (cfg_port_ranges cfg) = Inr ranges"
    and "undelayed to_server = map Arrives (client_messages ce registry cfg ranges)"
    and "ocs = session_result A ce registry cfg envs ranges a c"
  shows "\<exists>l'. run_server A registry envs (ls\<lparr>inbox := to_server\<rparr>) =
             (Inr (results_summary (map oc_remote ocs)), l') \<and>
           map (te_test \<circ> outcome_entry) ocs = all_tests cfg registry ranges \<and>
           (\<forall>to_client. undelayed to_client = map Arrives (outbox l') \<longrightarrow>
              prompt_within (receive_timeout cfg) to_client \<longrightarrow>
              (\<exists>st'. run_client ce registry cfg (lc\<lparr>inbox := to_client\<rparr>) =
                   (Inr (results_summary (map oc_result ocs)), st') \<and>
                 outbox (cl_link st') = client_messages ce registry cfg ranges \<and>
                 cl_results st' = (if keeps_results cfg then map outcome_entry ocs else []) \<and>
                 (\<not> renders_live cfg ce \<longrightarrow> cl_stdout st' = session_output cfg ocs)))"
proof -
  have ocs: "ocs = scan_outcomes A ce registry cfg envs a c 1 (length (outbox ls) + 1) 0 (scan_plan cfg registry ranges)"
    by (simp add: assms(6,10) session_result_def)
  obtain rss l st where served: "run_server A registry envs (ls\<lparr>inbox := undelayed to_server\<rparr>) =
      (Inr (results_summary (map oc_remote ocs)), l)"
    and out: "outbox l = Ack True None # map report_of (concat rss) @ [Bye (results_summary (map oc_remote ocs))]"
    and scanned: "run_client ce registry cfg (lc\<lparr>inbox := map Arrives (outbox l)\<rparr>) =
      (Inr (results_summary (map oc_result ocs)), st)"
    and st: "outbox (cl_link st) = client_messages ce registry cfg ranges"
      "cl_results st = (if keeps_results cfg then map outcome_entry ocs else [])"
      "\<not> renders_live cfg ce \<longrightarrow> cl_stdout st = session_output cfg ocs"
    by (rule session_exchange [OF assms(1-5,7,8) ocs]) (simp add: assms(6,9))
  from served obtain l1 where server: "run_server A registry envs (ls\<lparr>inbox := to_server\<rparr>) =
      (Inr (results_summary (map oc_remote ocs)), l1)" and l1: "outbox l1 = outbox l"
    unfolding server_undelayed
    by (cases "run_server A registry envs (ls\<lparr>inbox := to_server\<rparr>)") auto
  have "\<exists>st'. run_client ce registry cfg (lc\<lparr>inbox := to_client\<rparr>) = (Inr (results_summary (map oc_result ocs)), st') \<and>
      outbox (cl_link st') = client_messages ce registry cfg ranges \<and>
      cl_results st' = (if keeps_results cfg then map outcome_entry ocs else []) \<and>
      (\<not> renders_live cfg ce \<longrightarrow> cl_stdout st' = session_output cfg ocs)"
    if "undelayed to_client = map Arrives (outbox l1)" and "prompt_within (receive_timeout cfg) to_client"
    for to_client
    using scanned st client_undelayed [OF that(2), of ce registry lc]
    by (cases "run_client ce registry cfg (lc\<lparr>inbox := to_client\<rparr>)") (auto simp: that(1) l1)
  moreover have "map (te_test \<circ> outcome_entry) ocs = all_tests cfg registry ranges"
  proof -
    have "map (te_test \<circ> outcome_entry) ocs = map planned_of (map oc_entry ocs)"
      by (simp add: te_test_def outcome_entry_def planned_of_def)
    then show ?thesis
      by (simp only: assms(10) session_result_def scan_outcomes_entries planned_of_numbered plan_covers)
  qed
  ultimately show ?thesis using server by blast
qed

lemma prompt_arrivals: "prompt_within w (map Arrives ms)"
  by (induction ms) simp_all

lemma undelayed_arrivals [simp]: "undelayed (map Arrives ms) = map Arrives ms"
  by (induction ms) simp_all

lemma demo_session_result:
  "map oc_remote (session_result demo_text demo_client demo_registry demo_config demo_envs [(''tcp'', 80, 81)] demo_addr demo_addr) =
     [Pass 1 1, Pass 1 1]"
  "map oc_result (session_result demo_text demo_client demo_registry demo_config demo_envs [(''tcp'', 80, 81)] demo_addr demo_addr) =
     [Pass 1 1, Pass 1 1]"
  by (simp_all add: session_result_def demo_plan numbered_def Let_def server_result_def server_entry_of_def oc_result_def
      demo_client_def)

text \<open>The request reaches the server after a quarter of an hour, its first answer the client after two seconds.\<close>

theorem session_computes_scan_witness:
  "\<exists>l' st'. run_server demo_text demo_registry demo_envs ((demo_link [])\<lparr>inbox := Silence 900000000000 #
         map Arrives (client_messages demo_client demo_registry demo_config [(''tcp'', 80, 81)])\<rparr>) =
       (Inr (results_summary [Pass 1 1, Pass 1 1]), l') \<and>
     run_client demo_client demo_registry demo_config
         ((demo_link [])\<lparr>inbox := Silence 2000000000 # map Arrives (outbox l')\<rparr>) =
       (Inr (results_summary [Pass 1 1, Pass 1 1]), st')"
proof -
  let ?to_server = "Silence 900000000000 #
         map Arrives (client_messages demo_client demo_registry demo_config [(''tcp'', 80, 81)])"
  have heard: "undelayed ?to_server = map Arrives (client_messages demo_client demo_registry demo_config [(''tcp'', 80, 81)])"
    by simp
  have prompt: "prompt_within (receive_timeout demo_config) (Silence 2000000000 # map Arrives ms)" for ms
  proof -
    have "delay (map Arrives ms) = 0" by (cases ms) simp_all
    moreover have "2000000000 \<le> receive_timeout demo_config"
      by (simp add: receive_timeout_def demo_config_def u64_saturating_add_def from_millis_def)
    ultimately show ?thesis by (simp add: prompt_arrivals)
  qed
  from session_computes_scan [OF demo_link_fields(3,5,2,3,4,2) demo_ranges heard refl,
      where A = demo_text and envs = demo_envs]
  obtain l' where "run_server demo_text demo_registry demo_envs ((demo_link [])\<lparr>inbox := ?to_server\<rparr>) =
       (Inr (results_summary [Pass 1 1, Pass 1 1]), l')"
    and all: "\<And>to_client. undelayed to_client = map Arrives (outbox l') \<Longrightarrow>
      prompt_within (receive_timeout demo_config) to_client \<Longrightarrow>
      \<exists>st'. run_client demo_client demo_registry demo_config ((demo_link [])\<lparr>inbox := to_client\<rparr>) =
        (Inr (results_summary [Pass 1 1, Pass 1 1]), st')"
    unfolding demo_session_result by blast
  with all [of "Silence 2000000000 # map Arrives (outbox l')", OF _ prompt] show ?thesis by auto
qed

section \<open>A server that stays silent\<close>

lemma next_event_within_late: "t < delay es \<Longrightarrow> fst (next_event_within t es) = None"
  by (induction t es rule: next_event_within.induct) auto

text \<open>
  Property C33: the client waits for a missing report as long as its timeout says and no longer. When
  some tests of a batch are reported and then nothing comes for longer, the batch fails with that
  reason, and none of its tests is recorded, counted or printed, the reported ones neither.
\<close>

theorem silent_server_ends_batch:
  assumes "distinct (map be_id batch)"
    and "send_fault (cl_link st) = (\<lambda>_. None)" and "link_local (cl_link st) = Inr a"
    and "distinct (map fst rs)" and "set (map fst rs) \<subset> set (map be_id batch)"
    and "inbox (cl_link st) = map Arrives (map report_of rs) @ es" and "receive_timeout cfg < delay es"
  shows "\<exists>st'. execute_batch cfg ce proto batch st = (Inl ''timeout waiting for server reports'', st') \<and>
           outbox (cl_link st') = outbox (cl_link st) @ batch_messages batch \<and>
           cl_results st' = cl_results st \<and> cl_stdout st' = cl_stdout st \<and>
           client_summary st' = client_summary st"
proof -
  let ?st2 = "sent_to st (batch_messages batch)"
  let ?done0 = "insert_results (run_client_batch cfg proto a (ce_envs ce (length (outbox (cl_link ?st2)))) batch)"
  let ?s0 = "\<lparr>rs_expected = set (map be_id batch), rs_completed = ?done0, rs_errors = Map.empty\<rparr>"
  have done0: "?done0 i = Some (the (?done0 i))" if "i \<in> set (map fst rs)" for i
  proof -
    have "i \<in> dom ?done0" using that assms(5) by (simp only: completed_dom) blast
    then show ?thesis by (auto simp only: dom_def option.sel)
  qed
  have "\<exists>s'. collect_reports (ce_debug ce) (receive_timeout cfg) ?s0 (cl_link ?st2) =
            collect_reports (ce_debug ce) (receive_timeout cfg) s' ((cl_link ?st2)\<lparr>inbox := es\<rparr>) \<and>
          rs_expected s' = rs_expected ?s0 - set (map fst rs) \<and>
          (\<forall>(i, remote) \<in> set rs. rs_completed s' i = Some (combined_result remote (the (?done0 i))) \<and>
              rs_errors s' i = remote_error remote) \<and>
          (\<forall>i. i \<notin> set (map fst rs) \<longrightarrow>
              rs_completed s' i = rs_completed ?s0 i \<and> rs_errors s' i = rs_errors ?s0 i)"
    by (rule collect_reports_some [OF assms(4)]) (use assms(5,6) done0 in auto)
  then obtain s' where some: "collect_reports (ce_debug ce) (receive_timeout cfg) ?s0 (cl_link ?st2) =
      collect_reports (ce_debug ce) (receive_timeout cfg) s' ((cl_link ?st2)\<lparr>inbox := es\<rparr>)"
    and "rs_expected s' = set (map be_id batch) - set (map fst rs)" by auto
  moreover from this(2) have "rs_expected s' \<noteq> {}" using assms(5) by blast
  moreover obtain l where "link_recv_within (receive_timeout cfg) ((cl_link ?st2)\<lparr>inbox := es\<rparr>) = (None, l)"
    and l: "outbox l = outbox (cl_link ?st2)"
    using next_event_within_late [OF assms(7)]
      link_recv_within_outbox(1) [of "receive_timeout cfg" "(cl_link ?st2)\<lparr>inbox := es\<rparr>"]
    by (cases "next_event_within (receive_timeout cfg) es") (simp add: link_recv_within_def)
  ultimately have "collect_reports (ce_debug ce) (receive_timeout cfg) ?s0 (cl_link ?st2) =
      (Inl ''timeout waiting for server reports'', l)"
    by (simp add: some) (subst collect_reports.simps, simp)
  then have "execute_batch cfg ce proto batch st = (Inl ''timeout waiting for server reports'', ?st2\<lparr>cl_link := l\<rparr>)"
    using assms(2,3)
    by (simp add: execute_batch_def client_sends_healthy client_send_healthy batch_messages_def Let_def)
  then show ?thesis using l by (simp add: client_summary_def)
qed

text \<open>Of two tests one is reported; the other report would come after three seconds.\<close>

theorem silent_server_ends_batch_witness:
  "\<exists>st'. execute_batch demo_config demo_client demo_proto [demo_entry, demo_entry\<lparr>be_id := 8\<rparr>]
           ((demo_state [])\<lparr>cl_link := (demo_link [])\<lparr>inbox :=
              [Arrives (report_of (7, Pass 1 1)), Silence 3000000000, Arrives (report_of (8, Pass 1 1))]\<rparr>\<rparr>) =
         (Inl ''timeout waiting for server reports'', st') \<and> cl_results st' = []"
proof -
  let ?st = "(demo_state [])\<lparr>cl_link := (demo_link [])\<lparr>inbox :=
              [Arrives (report_of (7, Pass 1 1)), Silence 3000000000, Arrives (report_of (8, Pass 1 1))]\<rparr>\<rparr>"
  have id7: "be_id demo_entry = 7" by (simp add: demo_entry_def)
  have "receive_timeout demo_config < delay [Silence 3000000000, Arrives (report_of (8, Pass 1 1))]"
    by (simp add: receive_timeout_def demo_config_def u64_saturating_add_def from_millis_def)
  moreover have "{7} \<subset> {7, 8 :: u32}" by auto
  ultimately show ?thesis
    using silent_server_ends_batch [of "[demo_entry, demo_entry\<lparr>be_id := 8\<rparr>]" ?st demo_addr "[(7, Pass 1 1)]"
      "[Silence 3000000000, Arrives (report_of (8, Pass 1 1))]" demo_config demo_client demo_proto]
    by (auto simp: id7 demo_state_def)
qed

end
