(* ===== verification/Main_Program.thy ===== *)
theory Main_Program
  imports Session Cli Tls_Setup Probe_Io Scan_Outcome
begin

text \<open>
  The two commands of the binary (\<open>src/main.rs\<close>): how the client resolves its addresses, checks its
  arguments, verifies the server and turns the outcome of the session into an exit code; how the
  server binds and serves one connection after the other.
\<close>

section \<open>Arguments and environment\<close>

record client_args =
  ca_server :: "string option"
  ca_port :: u16
  ca_control_server :: "string option"
  ca_target :: "string option"
  ca_test :: "string list"
  ca_port_range :: "string list"
  ca_bidir :: bool
  ca_timeout :: u64
  ca_fingerprint :: "string option"
  ca_json :: bool
  ca_json_export :: bool
  ca_parallel :: usize
  ca_quiet :: bool

text \<open>
  \<open>me_resolve\<close> is \<open>to_socket_addrs\<close>, \<open>me_tcp\<close> and \<open>me_handshake\<close> are the connection to an address and
  the TLS handshake over it, \<open>me_tls\<close> the TLS libraries.
\<close>

record 'e main_env =
  me_client :: "'e client_env"
  me_registry :: "'e registry"
  me_resolve :: "string \<Rightarrow> u16 \<Rightarrow> string + socket_addr list"
  me_tls :: tls_lib
  me_tcp :: "socket_addr \<Rightarrow> string + unit"
  me_handshake :: "socket_addr \<Rightarrow> string + bytes \<times> link"

text \<open>What the client leaves behind: exit code, the errors logged, the lines printed.\<close>

type_synonym exit = "nat \<times> string list \<times> output_line list"

section \<open>Addresses\<close>

definition strip_ipv6_brackets :: "string \<Rightarrow> string" where
  "strip_ipv6_brackets s =
     (case s of
        [] \<Rightarrow> s
      | c # t \<Rightarrow> if c = CHR ''['' \<and> t \<noteq> [] \<and> last t = CHR '']'' then butlast t else s)"

definition quoted :: "string \<Rightarrow> string" where
  "quoted s = quote @ s @ quote"

definition control_target :: "'e main_env \<Rightarrow> client_args \<Rightarrow> string + socket_addr" where
  "control_target env args =
     (case ca_control_server args of
        Some cs \<Rightarrow>
          (case parse_socket (ce_text (me_client env)) cs of
             Some a \<Rightarrow> Inr a
           | None \<Rightarrow> Inl ''--control-server must be ip:port (IPv6: [::1]:443)'')
      | None \<Rightarrow>
          (case ca_server args of
             Some given \<Rightarrow>
               let hostname = strip_ipv6_brackets given in
               (case me_resolve env hostname (ca_port args) of
                  Inr (a # _) \<Rightarrow> Inr a
                | Inr [] \<Rightarrow> Inl (''could not resolve server '' @ quoted hostname)
                | Inl e \<Rightarrow> Inl (''could not resolve server '' @ quoted hostname @ '': '' @ e))
           | None \<Rightarrow> Inl ''--server or --control-server is required''))"

definition target_addr :: "'e main_env \<Rightarrow> client_args \<Rightarrow> socket_addr \<Rightarrow> string + socket_addr" where
  "target_addr env args control =
     (case ca_target args of
        None \<Rightarrow> Inr (set_port 0 control)
      | Some target_str \<Rightarrow>
          (case me_resolve env (strip_ipv6_brackets target_str) 0 of
             Inr (a # _) \<Rightarrow> Inr a
           | Inr [] \<Rightarrow> Inl (''could not resolve '' @ quoted target_str @ '': no addresses'')
           | Inl e \<Rightarrow> Inl (''could not resolve '' @ quoted target_str @ '': '' @ e)))"

section \<open>Listing the tests, checking the arguments\<close>

fun layer_debug :: "layer \<Rightarrow> string" where
  "layer_debug L3 = ''L3''"
| "layer_debug L4 = ''L4''"
| "layer_debug L7 = ''L7''"

definition pad_right :: "nat \<Rightarrow> string \<Rightarrow> string" where
  "pad_right n s = s @ replicate (n - length s) (CHR '' '')"

definition list_tests :: "'e registry \<Rightarrow> output_line list" where
  "list_tests registry =
     PlainLine ''available tests:'' #
     concat (map (\<lambda>name.
       case find_protocol registry name of
         None \<Rightarrow> []
       | Some proto \<Rightarrow>
           [PlainLine (''  '' @ pad_right 12 name @ '' layer='' @ layer_debug (proto_layer proto) @
              '' transports='' @ join_strings '','' (map transport_as_str (proto_transports proto)))])
       (protocol_names registry))"

definition needs_port_range :: "'e registry \<Rightarrow> client_args \<Rightarrow> bool" where
  "needs_port_range registry args \<longleftrightarrow>
     ca_port_range args = [] \<and>
     list_ex (\<lambda>name. case find_protocol registry name of
                       None \<Rightarrow> False | Some p \<Rightarrow> proto_layer p \<noteq> L3) (ca_test args)"

definition port_range_required :: "string list" where
  "port_range_required =
     [''--port-range required for L4/L7 tests (e.g. --port-range tcp/1-1024)'',
      ''       ICMP tests (icmp-ping, icmp-full) work without --port-range'']"

definition config_of_args :: "client_args \<Rightarrow> port_spec list \<Rightarrow> socket_addr \<Rightarrow> client_config" where
  "config_of_args args ranges target =
     \<lparr>cfg_tests = ca_test args, cfg_port_ranges = ranges, cfg_bidir = ca_bidir args,
      cfg_timeout_ms = ca_timeout args, cfg_parallel = ca_parallel args, cfg_target_addr = target,
      cfg_json = ca_json args, cfg_json_export = ca_json_export args, cfg_quiet = ca_quiet args\<rparr>"

section \<open>The client\<close>

definition connect_pinned ::
  "'e main_env \<Rightarrow> string option \<Rightarrow> socket_addr \<Rightarrow> string + link" where
  "connect_pinned env connector control =
     map_err (\<lambda>e. ''cannot connect to '' @ show_socket (ce_text (me_client env)) control @ '': '' @ e)
       (client_tls_connect (me_tls env) (ce_text (me_client env)) (me_tcp env) (me_handshake env)
          connector control)"

definition hello_mismatch :: "u32 \<Rightarrow> string" where
  "hello_mismatch version =
     ''server protocol version '' @ show_word version @ '' does not match client version '' @
     show_word PROTOCOL_VERSION"

definition recv_hello :: "link \<Rightarrow> (string + string) \<times> link" where
  "recv_hello l =
     (case link_recv l of
        (Inr (Hello version fp), l') \<Rightarrow>
          (if version \<noteq> PROTOCOL_VERSION then Inl (hello_mismatch version) else Inr fp, l')
      | (Inr _, l') \<Rightarrow> (Inl ''unexpected message from server'', l')
      | (Inl e, l') \<Rightarrow> (Inl (''recv hello: '' @ e), l'))"

definition session_exit :: "(string + test_summary) \<times> client_state \<Rightarrow> exit" where
  "session_exit r =
     (case r of
        (Inl e, st) \<Rightarrow> (3, [''client error: '' @ e], cl_stdout st)
      | (Inr s, st) \<Rightarrow>
          (if summary_failed s > 0 \<or> summary_errors s > 0 then 1 else 0, [], cl_stdout st))"

definition client_main :: "'e main_env \<Rightarrow> client_args \<Rightarrow> exit" where
  "client_main env args =
     (case control_target env args of
        Inl e \<Rightarrow> (2, [e], [])
      | Inr control \<Rightarrow>
     (case target_addr env args control of
        Inl e \<Rightarrow> (2, [e], [])
      | Inr target \<Rightarrow>
     if ca_test args = [] then (0, [], list_tests (me_registry env))
     else if needs_port_range (me_registry env) args then (2, port_range_required, [])
     else
     (case parse_port_ranges (ca_port_range args) of
        Inl e \<Rightarrow> (2, [e], [])
      | Inr ranges \<Rightarrow>
     (case make_pinned_tls_connector (me_tls env) (ca_fingerprint args) of
        Inl e \<Rightarrow> (2, [e], [])
      | Inr connector \<Rightarrow>
     (case connect_pinned env connector control of
        Inl e \<Rightarrow> (3, [e], [])
      | Inr l \<Rightarrow>
     (case recv_hello l of
        (Inl e, _) \<Rightarrow> (3, [e], [])
      | (Inr fp, l') \<Rightarrow>
          session_exit (run_client (me_client env) (me_registry env)
                          (config_of_args args ranges target) l')))))))"

section \<open>The server\<close>

text \<open>
  The calls \<open>bind_with_reuse\<close> makes of the operating system; the socket is made for the family of
  the address.
\<close>

record bind_os =
  bo_resolve :: "string \<Rightarrow> io_error + socket_addr list"
  bo_socket :: "bool \<Rightarrow> io_error + unit"
  bo_reuse :: "io_error + unit"
  bo_bind :: "socket_addr \<Rightarrow> io_error + unit"
  bo_listen :: "nat \<Rightarrow> io_error + unit"

definition at_address :: "string \<Rightarrow> io_error + 'a \<Rightarrow> string \<times> io_error + 'a" where
  "at_address addr r = (case r of Inl e \<Rightarrow> Inl (addr, e) | Inr x \<Rightarrow> Inr x)"

definition bind_with_reuse :: "bind_os \<Rightarrow> string \<Rightarrow> string \<times> io_error + socket_addr" where
  "bind_with_reuse os addr =
     and_then (at_address addr (bo_resolve os addr)) (\<lambda>addrs.
       case addrs of
         [] \<Rightarrow> Inl (addr, \<lparr>io_kind_of = OtherKind, io_text = ''no address resolved''\<rparr>)
       | a # _ \<Rightarrow>
           and_then (at_address addr (bo_socket os (is_ipv4 a))) (\<lambda>_.
           and_then (at_address addr (bo_reuse os)) (\<lambda>_.
           and_then (at_address addr (bo_bind os a)) (\<lambda>_.
           and_then (at_address addr (bo_listen os 1024)) (\<lambda>_. Inr a)))))"

text \<open>What follows the last \<open>:\<close> of the address.\<close>

definition after_last_colon :: "string \<Rightarrow> string option" where
  "after_last_colon s = map_option (\<lambda>ab. rev (fst ab)) (split_once (CHR '':'') (rev s))"

definition bind_error :: "string \<times> io_error \<Rightarrow> string" where
  "bind_error be =
     (case be of (addr, e) \<Rightarrow>
        let has_port_443 = after_last_colon addr = Some ''443'';
            hint = (if has_port_443 \<and> io_kind_of e = PermissionDenied
                    then '' (port 443 requires root/sudo; use --bind with port > 1024)''
                    else if io_kind_of e = AddrInUse then '' (address already in use)''
                    else '''')
        in ''cannot bind '' @ addr @ '': '' @ io_text e @ hint)"

definition done_line :: "test_summary \<Rightarrow> string" where
  "done_line s =
     ''done: '' @ show_word (summary_passed s) @ '' passed, '' @ show_word (summary_failed s) @ '' failed, '' @
     show_word (summary_errors s) @ '' errors''"

definition serve_connection ::
  "addr_text \<Rightarrow> 'e registry \<Rightarrow> string \<Rightarrow> 'e session_envs \<Rightarrow> link \<Rightarrow> string \<times> link" where
  "serve_connection A registry fingerprint envs l =
     (case link_send (Hello PROTOCOL_VERSION fingerprint) l of
        (Inl e, l') \<Rightarrow> (''send hello: '' @ e, l')
      | (Inr _, l') \<Rightarrow>
          (case run_server A registry envs l' of
             (Inl e, l'') \<Rightarrow> (''server session error: '' @ e, l'')
           | (Inr s, l'') \<Rightarrow> (done_line s, l'')))"

primrec serve :: "addr_text \<Rightarrow> 'e registry \<Rightarrow> string \<Rightarrow> (link \<times> 'e session_envs) accept_event list \<Rightarrow>
    (string \<times> link option) list" where
  "serve A registry fingerprint [] = []"
| "serve A registry fingerprint (ev # evs) =
     (case server_tls_accept ev of
        Inl e \<Rightarrow> (''accept error: '' @ e, None)
      | Inr (l, envs) \<Rightarrow>
          (case serve_connection A registry fingerprint envs l of (line, l') \<Rightarrow> (line, Some l'))) #
     serve A registry fingerprint evs"

text \<open>
  The server command until the events given are served: its exit code if it stopped, and its log
  (without the lines that name the peer of a connection).
\<close>

definition server_main ::
  "addr_text \<Rightarrow> 'e registry \<Rightarrow> bind_os \<Rightarrow> tls_lib \<Rightarrow> string \<Rightarrow> (link \<times> 'e session_envs) accept_event list \<Rightarrow>
   nat option \<times> string list" where
  "server_main A registry os L addr evs =
     (case generate_ephemeral_cert L of
        Inl e \<Rightarrow> (Some 2, [e])
      | Inr (cert, fingerprint) \<Rightarrow>
          (case make_tls_acceptor L cert of
             Inl e \<Rightarrow> (Some 2, [''fingerprint: '' @ fingerprint, e])
           | Inr _ \<Rightarrow>
               (case bind_with_reuse os addr of
                  Inl be \<Rightarrow> (Some 3, [''fingerprint: '' @ fingerprint, bind_error be])
                | Inr a \<Rightarrow>
                    (None, [''fingerprint: '' @ fingerprint, ''listening on '' @ addr] @
                           map fst (serve A registry fingerprint evs)))))"

section \<open>The commands\<close>

datatype cli_command = ServerCommand string u8 | ClientCommand client_args u8

text \<open>\<open>parse\<close> of \<open>src/cli.rs\<close>, after clap: a subcommand must be given.\<close>

definition parse_command :: "cli_command option \<Rightarrow> string + cli_command" where
  "parse_command command =
     (case command of
        Some cmd \<Rightarrow> Inr cmd
      | None \<Rightarrow> Inl ''no command specified, use --help for usage'')"

text \<open>The log level \<open>init_tracing\<close> chooses.\<close>

definition tracing_level :: "u8 \<Rightarrow> string" where
  "tracing_level verbose =
     (if verbose = 0 then ''info'' else if verbose = 1 then ''debug'' else ''trace'')"

text \<open>
  What \<open>init_tracing\<close> asks of the logging library: the level where no directive says otherwise, the directive
  added after those of the environment, and that lines do not name their module.
\<close>

record log_setup =
  default_directive :: string
  added_directive :: string
  names_target :: bool

definition init_tracing :: "u8 \<Rightarrow> log_setup" where
  "init_tracing verbose =
     (let level = tracing_level verbose
      in \<lparr>default_directive = level, added_directive = ''bimap='' @ level, names_target = False\<rparr>)"

fun verbose_of :: "cli_command \<Rightarrow> u8" where
  "verbose_of (ServerCommand bind_addr verbose) = verbose"
| "verbose_of (ClientCommand args verbose) = verbose"

text \<open>
  The whole program: the set-up of the log if logging was started, exit code if it ended, log (of the client its
  errors), standard output.
\<close>

definition bimap_main ::
  "'e main_env \<Rightarrow> bind_os \<Rightarrow> (link \<times> 'e session_envs) accept_event list \<Rightarrow> cli_command option \<Rightarrow>
   log_setup option \<times> nat option \<times> string list \<times> output_line list" where
  "bimap_main env os evs command =
     (case parse_command command of
        Inl e \<Rightarrow> (None, Some 2, [''bimap: '' @ e], [])
      | Inr cmd \<Rightarrow>
          (Some (init_tracing (verbose_of cmd)),
           case cmd of
             ServerCommand addr v \<Rightarrow>
               (case server_main (ce_text (me_client env)) (me_registry env) os (me_tls env) addr evs of
                  (code, log) \<Rightarrow> (code, log, []))
           | ClientCommand args v \<Rightarrow>
               (case client_main env args of (code, errors, out) \<Rightarrow> (Some code, errors, out))))"

section \<open>Lemmas\<close>

lemma connect_pinned_Inr:
  "connect_pinned env pin control = Inr l \<longleftrightarrow>
     me_tcp env control = Inr () \<and> tl_server_name (me_tls env) = Inr () \<and>
     (\<exists>cert. me_handshake env control = Inr (cert, l) \<and> verify_server_cert (tl_hex (me_tls env)) pin cert = Inr ())"
  by (simp add: connect_pinned_def client_tls_connect_Inr)

lemma recv_hello_Inr:
  "recv_hello l = (Inr fp, l') \<longleftrightarrow> link_recv l = (Inr (Hello PROTOCOL_VERSION fp), l')"
  by (auto simp: recv_hello_def split: prod.splits sum.splits message.splits if_splits)

lemma session_exit_code:
  "fst (session_exit r) =
     (case fst r of Inl e \<Rightarrow> 3 | Inr s \<Rightarrow> if summary_failed s > 0 \<or> summary_errors s > 0 then 1 else 0)"
  by (auto simp: session_exit_def split: prod.splits sum.splits)

text \<open>Every way out of the client.\<close>

lemma client_main_cases:
  obtains (usage) e where "client_main env args = (2, e, [])"
    and "\<And>tcp dial. client_main (env\<lparr>me_tcp := tcp, me_handshake := dial\<rparr>) args = (2, e, [])"
  | (listing) "ca_test args = []" "client_main env args = (0, [], list_tests (me_registry env))"
  | (no_connection) e control where "control_target env args = Inr control"
      "connect_pinned env (ca_fingerprint args) control = Inl e" "fst (client_main env args) = 3"
  | (no_hello) e l l' control where "control_target env args = Inr control"
      "connect_pinned env (ca_fingerprint args) control = Inr l" "recv_hello l = (Inl e, l')"
      "fst (client_main env args) = 3"
  | (session) control target ranges l fp l' where "control_target env args = Inr control"
      "target_addr env args control = Inr target" "ca_test args \<noteq> []"
      "parse_port_ranges (ca_port_range args) = Inr ranges"
      "connect_pinned env (ca_fingerprint args) control = Inr l" "recv_hello l = (Inr fp, l')"
      "client_main env args = session_exit (run_client (me_client env) (me_registry env)
                                (config_of_args args ranges target) l')"
proof -
  have same: "control_target (env\<lparr>me_tcp := tcp, me_handshake := dial\<rparr>) args = control_target env args"
    "target_addr (env\<lparr>me_tcp := tcp, me_handshake := dial\<rparr>) args a = target_addr env args a" for tcp dial a
    by (simp_all add: control_target_def target_addr_def cong: option.case_cong)
  show ?thesis
  proof (cases "control_target env args")
    case (Inl e)
    then show ?thesis by (intro usage) (simp_all add: client_main_def same)
  next
    case control: (Inr control)
    show ?thesis
    proof (cases "target_addr env args control")
      case (Inl e)
      with control show ?thesis by (intro usage) (simp_all add: client_main_def same)
    next
      case target: (Inr target)
      consider "ca_test args = []" | "ca_test args \<noteq> []" "needs_port_range (me_registry env) args"
        | "ca_test args \<noteq> []" "\<not> needs_port_range (me_registry env) args" by blast
      then show ?thesis
      proof cases
        case 1
        with control target show ?thesis by (intro listing) (simp_all add: client_main_def)
      next
        case 2
        with control target show ?thesis by (intro usage) (simp_all add: client_main_def same)
      next
        case tests: 3
        show ?thesis
        proof (cases "parse_port_ranges (ca_port_range args)")
          case (Inl e)
          with tests control target show ?thesis by (intro usage) (simp_all add: client_main_def same)
        next
          case ranges: (Inr ranges)
          show ?thesis
          proof (cases "make_pinned_tls_connector (me_tls env) (ca_fingerprint args)")
            case (Inl e)
            with ranges tests control target show ?thesis
              by (intro usage) (simp_all add: client_main_def same)
          next
            case connector: (Inr u)
            then have "u = ca_fingerprint args" by (simp add: make_pinned_tls_connector_Inr)
            note before = control target tests ranges connector this
            show ?thesis
            proof (cases "connect_pinned env (ca_fingerprint args) control")
              case (Inl e)
              with before show ?thesis by (intro no_connection) (simp_all add: client_main_def)
            next
              case l: (Inr l)
              obtain r l' where r: "recv_hello l = (r, l')" by fastforce
              show ?thesis
              proof (cases r)
                case (Inl e)
                with before l r show ?thesis by (intro no_hello) (simp_all add: client_main_def)
              next
                case (Inr fp)
                with before l r show ?thesis by (intro session) (simp_all add: client_main_def)
              qed
            qed
          qed
        qed
      qed
    qed
  qed
qed

section \<open>A small instance\<close>

definition demo_args :: client_args where
  "demo_args =
     \<lparr>ca_server = Some ''[::1]'', ca_port = 443, ca_control_server = None, ca_target = None,
      ca_test = [''open''], ca_port_range = [show_port_spec (''tcp'', 80, 81)], ca_bidir = False, ca_timeout = 500,
      ca_fingerprint = Some ''SHA256:00ff'', ca_json = False, ca_json_export = False,
      ca_parallel = 1, ca_quiet = False\<rparr>"

text \<open>A server whose messages are known, behind the only address every name resolves to.\<close>

definition demo_main :: "message list \<Rightarrow> unit main_env" where
  "demo_main ms =
     \<lparr>me_client = demo_client, me_registry = demo_registry, me_resolve = (\<lambda>_ _. Inr [demo_addr]),
      me_tls = demo_tls, me_tcp = (\<lambda>_. Inr ()), me_handshake = (\<lambda>_. Inr ([], demo_link ms))\<rparr>"

lemma demo_main_fields [simp]:
  "me_client (demo_main ms) = demo_client" "me_registry (demo_main ms) = demo_registry"
  "tl_hex (me_tls (demo_main ms)) = (\<lambda>_. ''00ff'')" "tl_client_versions (me_tls (demo_main ms)) = Inr ()"
  "tl_server_name (me_tls (demo_main ms)) = Inr ()" "me_tcp (demo_main ms) = (\<lambda>_. Inr ())"
  "me_resolve (demo_main ms) = (\<lambda>_ _. Inr [demo_addr])"
  "me_handshake (demo_main ms) = (\<lambda>_. Inr ([], demo_link ms))"
  by (simp_all add: demo_main_def demo_tls_def)

lemma demo_port_range: "parse_port_ranges [show_port_spec (''tcp'', 80, 81)] = Inr [(''tcp'', 80, 81)]"
proof -
  have "parse_port_range (show_port_spec (''tcp'', 80, 81)) = Inr (''tcp'', 80, 81)"
    unfolding parse_port_range_denotes by (rule spec_denotes_show) (simp add: port_spec_ok_def)
  then show ?thesis by (simp add: parse_port_ranges_def)
qed

lemma demo_addresses:
  "control_target (demo_main ms) args = (case ca_control_server args of
     None \<Rightarrow> (case ca_server args of None \<Rightarrow> Inl ''--server or --control-server is required'' | Some _ \<Rightarrow> Inr demo_addr)
   | Some _ \<Rightarrow> Inl ''--control-server must be ip:port (IPv6: [::1]:443)'')"
  by (simp add: control_target_def demo_client_def demo_text_def split: option.splits)

section \<open>Properties\<close>

text \<open>What the two exit codes of a session and the one of a usage error mean.\<close>

lemma client_main_session:
  assumes "client_main env args = (code, errors, out)" and "code < 2" and "ca_test args \<noteq> []"
  obtains control cert l fp l' ranges target s st' where
    "control_target env args = Inr control" "me_handshake env control = Inr (cert, l)"
    "verify_server_cert (tl_hex (me_tls env)) (ca_fingerprint args) cert = Inr ()"
    "link_recv l = (Inr (Hello PROTOCOL_VERSION fp), l')"
    "parse_port_ranges (ca_port_range args) = Inr ranges"
    "run_client (me_client env) (me_registry env) (config_of_args args ranges target) l' = (Inr s, st')"
    "code = 0 \<longleftrightarrow> summary_failed s = 0 \<and> summary_errors s = 0"
proof (cases rule: client_main_cases [of env args])
  case (session control target ranges l fp l')
  let ?r = "run_client (me_client env) (me_registry env) (config_of_args args ranges target) l'"
  have code: "code = (case fst ?r of Inl e \<Rightarrow> 3
      | Inr s \<Rightarrow> if summary_failed s > 0 \<or> summary_errors s > 0 then 1 else 0)"
    using assms(1) session(7) session_exit_code [of ?r] by simp
  with assms(2) obtain s where s: "fst ?r = Inr s" by (cases "fst ?r") auto
  then obtain st' where run: "?r = (Inr s, st')" by (metis prod.collapse)
  from session(5) obtain cert where "me_handshake env control = Inr (cert, l)"
    and "verify_server_cert (tl_hex (me_tls env)) (ca_fingerprint args) cert = Inr ()"
    by (auto simp: connect_pinned_Inr)
  moreover have "link_recv l = (Inr (Hello PROTOCOL_VERSION fp), l')"
    using session(6) by (simp add: recv_hello_Inr)
  moreover have "code = 0 \<longleftrightarrow> summary_failed s = 0 \<and> summary_errors s = 0"
    using code s by (auto simp: word_gt_0)
  ultimately show ?thesis using that session(1,4) run by blast
qed (use assms in auto)

lemma client_main_usage:
  assumes "client_main env args = (code, errors, out)" and "ca_test args \<noteq> []"
  shows "code \<le> 3" and "code = 2 \<Longrightarrow> client_main (env\<lparr>me_tcp := tcp, me_handshake := dial\<rparr>) args = (2, errors, out)"
proof -
  have "code \<le> 3 \<and> (code = 2 \<longrightarrow> client_main (env\<lparr>me_tcp := tcp, me_handshake := dial\<rparr>) args = (2, errors, out))"
  proof (cases rule: client_main_cases [of env args])
    case (session control target ranges l fp l')
    with assms(1) session_exit_code
      [of "run_client (me_client env) (me_registry env) (config_of_args args ranges target) l'"]
    show ?thesis by (simp split: sum.splits if_splits)
  qed (use assms in auto)
  then show "code \<le> 3" and "code = 2 \<Longrightarrow> client_main (env\<lparr>me_tcp := tcp, me_handshake := dial\<rparr>) args = (2, errors, out)"
    by blast+
qed

text \<open>
  Property C27: exit codes 0 and 1 of a scan mean that the session took place: the server's
  certificate passed the pin, its version matched, and the session ended well; the code is 0 exactly
  when nothing failed. Exit code 2 is decided before any connection is opened.
\<close>

theorem client_exit_code_sound:
  assumes "client_main env args = (code, errors, out)" and "ca_test args \<noteq> []"
  shows "(code < 2 \<longrightarrow>
            (\<exists>control cert l fp l' ranges target s st'.
               control_target env args = Inr control \<and> me_handshake env control = Inr (cert, l) \<and>
               verify_server_cert (tl_hex (me_tls env)) (ca_fingerprint args) cert = Inr () \<and>
               link_recv l = (Inr (Hello PROTOCOL_VERSION fp), l') \<and>
               parse_port_ranges (ca_port_range args) = Inr ranges \<and>
               run_client (me_client env) (me_registry env) (config_of_args args ranges target) l' =
                 (Inr s, st') \<and>
               (code = 0 \<longleftrightarrow> summary_failed s = 0 \<and> summary_errors s = 0))) \<and>
         (code = 2 \<longrightarrow> (\<forall>tcp dial. client_main (env\<lparr>me_tcp := tcp, me_handshake := dial\<rparr>) args = (2, errors, out))) \<and>
         code \<le> 3"
  using client_main_usage [OF assms]
proof (intro conjI impI allI)
  assume "code < 2"
  then show "\<exists>control cert l fp l' ranges target s st'.
               control_target env args = Inr control \<and> me_handshake env control = Inr (cert, l) \<and>
               verify_server_cert (tl_hex (me_tls env)) (ca_fingerprint args) cert = Inr () \<and>
               link_recv l = (Inr (Hello PROTOCOL_VERSION fp), l') \<and>
               parse_port_ranges (ca_port_range args) = Inr ranges \<and>
               run_client (me_client env) (me_registry env) (config_of_args args ranges target) l' =
                 (Inr s, st') \<and>
               (code = 0 \<longleftrightarrow> summary_failed s = 0 \<and> summary_errors s = 0)"
    by (rule client_main_session [OF assms(1) _ assms(2)]) (intro exI conjI; assumption)
qed

theorem client_exit_code_sound_witness:
  "\<forall>tcp dial. client_main ((demo_main [])\<lparr>me_tcp := tcp, me_handshake := dial\<rparr>) (demo_args\<lparr>ca_port_range := []\<rparr>) =
     (2, port_range_required, [])"
proof -
  let ?args = "demo_args\<lparr>ca_port_range := []\<rparr>"
  have "control_target (demo_main []) ?args = Inr demo_addr"
    by (simp add: demo_addresses) (simp add: demo_args_def)
  moreover have "target_addr (demo_main []) ?args demo_addr = Inr (set_port 0 demo_addr)"
    by (simp add: target_addr_def demo_args_def)
  moreover have "ca_test ?args \<noteq> []" "needs_port_range (me_registry (demo_main [])) ?args"
    by (simp_all add: needs_port_range_def demo_args_def demo_proto_def)
  ultimately have "client_main (demo_main []) ?args = (2, port_range_required, [])"
    by (simp add: client_main_def)
  from client_exit_code_sound [OF this] show ?thesis by (simp add: demo_args_def)
qed

text \<open>One connection, seen from both programs.\<close>

lemma connection_agrees:
  assumes "hex_text (tl_hex (me_tls env) cert)"
    and "ca_fingerprint args \<in> {None, Some (cert_fingerprint (tl_hex (me_tls env)) cert)}"
    and "control_target env args = Inr control" and "target_addr env args control = Inr target"
    and "ca_test args \<noteq> []" and "\<not> needs_port_range (me_registry env) args"
    and "parse_port_ranges (ca_port_range args) = Inr ranges" and "tl_client_versions (me_tls env) = Inr ()"
    and "cfg = config_of_args args ranges target"
    and "complete_port_ranges (me_registry env) (ca_test args) ranges = Inr all_ranges"
    and "from_client = client_messages (me_client env) (me_registry env) cfg all_ranges"
    and "serve_connection A (me_registry env) (cert_fingerprint (tl_hex (me_tls env)) cert) envs
           (ls\<lparr>inbox := map Arrives from_client\<rparr>) = (line, ls')"
    and "me_handshake env control = Inr (cert, lc\<lparr>inbox := map Arrives (outbox ls')\<rparr>)"
    and "send_fault ls = (\<lambda>_. None)" and "link_peer ls = Inr c" and "outbox ls = []"
    and "send_fault lc = (\<lambda>_. None)" and "link_local lc = Inr a" and "outbox lc = []"
    and "me_tcp env control = Inr ()" and "tl_server_name (me_tls env) = Inr ()"
    and "ocs = scan_outcomes A (me_client env) (me_registry env) cfg envs a c 1 2 0
                 (scan_plan cfg (me_registry env) all_ranges)"
  shows "\<exists>st'. client_main env args = session_exit (Inr (results_summary (map oc_result ocs)), st') \<and>
           outbox (cl_link st') = from_client \<and>
           (\<not> renders_live cfg (me_client env) \<longrightarrow> cl_stdout st' = session_output cfg ocs) \<and>
           line = done_line (results_summary (map oc_remote ocs))"
proof -
  let ?fp = "cert_fingerprint (tl_hex (me_tls env)) cert"
  let ?ls = "(ls\<lparr>inbox := map Arrives from_client\<rparr>)\<lparr>outbox := [Hello PROTOCOL_VERSION ?fp]\<rparr>"
  let ?s = "results_summary (map oc_remote ocs)"
  have ok: "list_all port_spec_ok ranges"
    by (rule parse_port_ranges_ok [OF assms(7)])
  have valid: "validate_port_ranges (cfg_port_ranges cfg) = Inr ()"
    using ok by (auto simp: assms(9) config_of_args_def validate_port_ranges_def list_all_iff
        list_ex_iff port_spec_ok_def)
  have completed: "complete_port_ranges (me_registry env) (cfg_tests cfg) (cfg_port_ranges cfg) = Inr all_ranges"
    using assms(10) by (simp add: assms(9) config_of_args_def)
  let ?greeted = "ls\<lparr>outbox := [Hello PROTOCOL_VERSION ?fp]\<rparr>"
  have faultless: "send_fault ?greeted = (\<lambda>_. None)" "link_peer ?greeted = Inr c" by (simp_all add: assms(14,15))
  have swap: "?ls = ?greeted\<lparr>inbox := map Arrives from_client\<rparr>" by simp
  have ocs: "ocs = scan_outcomes A (me_client env) (me_registry env) cfg envs a c 1 (length (outbox ?greeted) + 1) 0
      (scan_plan cfg (me_registry env) all_ranges)" by (simp add: assms(22) numeral_2_eq_2)
  obtain rss l' st' where server: "run_server A (me_registry env) envs ?ls = (Inr ?s, l')"
    and out: "outbox l' = Hello PROTOCOL_VERSION ?fp # Ack True None # map report_of (concat rss) @ [Bye ?s]"
    and client: "run_client (me_client env) (me_registry env) cfg
        (lc\<lparr>inbox := map Arrives (Ack True None # map report_of (concat rss) @ [Bye ?s])\<rparr>) =
      (Inr (results_summary (map oc_result ocs)), st')"
    and st': "outbox (cl_link st') = from_client"
      "\<not> renders_live cfg (me_client env) \<longrightarrow> cl_stdout st' = session_output cfg ocs"
    unfolding swap unfolding assms(11) by (rule session_exchange [OF assms(17-19) faultless valid completed ocs]) simp
  have ls': "ls' = l'" and finished: "line = done_line ?s"
    using assms(12) server by (auto simp: serve_connection_def assms(14,16))
  let ?lc = "lc\<lparr>inbox := map Arrives (Ack True None # map report_of (concat rss) @ [Bye ?s])\<rparr>"
  have hello: "recv_hello (lc\<lparr>inbox := map Arrives (outbox ls')\<rparr>) = (Inr ?fp, ?lc)"
    by (simp add: recv_hello_Inr ls' out)
  have pin: "verify_server_cert (tl_hex (me_tls env)) (ca_fingerprint args) cert = Inr ()"
    using assms(2) verify_advertised [of "tl_hex (me_tls env)" cert 0 0] assms(1) by (auto simp: verify_server_cert_def)
  have "connect_pinned env (ca_fingerprint args) control =
      Inr (lc\<lparr>inbox := map Arrives (outbox ls')\<rparr>)"
    using pin by (simp add: connect_pinned_Inr assms(13,20,21))
  moreover have "make_pinned_tls_connector (me_tls env) (ca_fingerprint args) = Inr (ca_fingerprint args)"
    by (simp add: make_pinned_tls_connector_Inr assms(8))
  ultimately show ?thesis
    using assms(3-7) hello finished client st'
    by (intro exI [of _ st']) (simp add: client_main_def assms(9))
qed

definition demo_os :: bind_os where
  "demo_os =
     \<lparr>bo_resolve = (\<lambda>_. Inr [demo_addr]), bo_socket = (\<lambda>_. Inr ()), bo_reuse = Inr (),
      bo_bind = (\<lambda>_. Inr ()), bo_listen = (\<lambda>_. Inr ())\<rparr>"

lemma demo_server_setup:
  "generate_ephemeral_cert (me_tls (demo_main ms)) = Inr ([], ''SHA256:00ff'')"
  "make_tls_acceptor (me_tls (demo_main ms)) [] = Inr ()"
  "bind_with_reuse demo_os addr = Inr demo_addr"
  by (simp_all add: demo_main_def demo_tls_def demo_os_def generate_ephemeral_cert_def
      make_tls_acceptor_def bind_with_reuse_def at_address_def cert_fingerprint_def)

text \<open>The exit code of a session whose results are known; the counters are 32 bits wide.\<close>

lemma exit_of_results:
  assumes "length rs < 2 ^ 32"
  shows "fst (session_exit (Inr (results_summary rs), st)) = (if list_all is_pass rs then 0 else 1)"
proof -
  have pos: "0 < (of_nat (length (filter p rs)) :: u32) \<longleftrightarrow> (\<exists>r \<in> set rs. p r)" for p
  proof -
    have "length (filter p rs) < 2 ^ 32" using assms length_filter_le [of p rs] by linarith
    then have "(of_nat (length (filter p rs)) :: u32) = 0 \<longleftrightarrow> length (filter p rs) = 0"
      by (simp add: word_of_nat_eq_0_iff dvd_imp_le nat_dvd_not_less) (auto dest: nat_dvd_not_less)
    then show ?thesis by (auto simp: word_gt_0 filter_empty_conv)
  qed
  have "\<not> is_pass r \<longleftrightarrow> is_fail r \<or> is_error r" for r by (cases r) simp_all
  then show ?thesis
    unfolding session_exit_def results_summary_def by (auto simp: pos list_all_iff)
qed

text \<open>
  Property C3: the two programs agree. When the server program comes up and accepts a connection,
  and the client is pinned to the fingerprint this server logged (or to none), and there are fewer than
  2^32 tests, the client program that receives what the server sends has sent what the server was
  served, logs no error and exits with 0 exactly when every planned test passed at both ends, and with 1
  otherwise; off a live terminal its output is the lines and the report of these outcomes. The server logs
  the counts of its own results and goes on.
\<close>

theorem programs_agree:
  assumes "generate_ephemeral_cert (me_tls env) = Inr (cert, fp)" and "make_tls_acceptor (me_tls env) cert = Inr ()"
    and "bind_with_reuse os addr = Inr bound" and "hex_text (tl_hex (me_tls env) cert)"
    and "ca_fingerprint args \<in> {None, Some fp}"
    and "control_target env args = Inr control" and "target_addr env args control = Inr target"
    and "ca_test args \<noteq> []" and "\<not> needs_port_range (me_registry env) args"
    and "parse_port_ranges (ca_port_range args) = Inr ranges" and "tl_client_versions (me_tls env) = Inr ()"
    and "cfg = config_of_args args ranges target"
    and "complete_port_ranges (me_registry env) (ca_test args) ranges = Inr all_ranges"
    and "from_client = client_messages (me_client env) (me_registry env) cfg all_ranges"
    and "connection = (ls\<lparr>inbox := map Arrives from_client\<rparr>, envs)"
    and "serve (ce_text (me_client env)) (me_registry env) fp [Accepted connection] = [(line, Some ls')]"
    and "me_tcp env control = Inr ()" and "tl_server_name (me_tls env) = Inr ()"
    and "me_handshake env control = Inr (cert, lc\<lparr>inbox := map Arrives (outbox ls')\<rparr>)"
    and "send_fault ls = (\<lambda>_. None)" and "link_peer ls = Inr c" and "outbox ls = []"
    and "send_fault lc = (\<lambda>_. None)" and "link_local lc = Inr a" and "outbox lc = []"
    and "ocs = scan_outcomes (ce_text (me_client env)) (me_client env) (me_registry env) cfg envs a c 1 2 0
                 (scan_plan cfg (me_registry env) all_ranges)"
    and "length ocs < 2 ^ 32"
  shows "bimap_main env os [Accepted connection] (Some (ServerCommand addr v)) =
           (Some (init_tracing v), None,
            [''fingerprint: '' @ fp, ''listening on '' @ addr, done_line (results_summary (map oc_remote ocs))], []) \<and>
         (\<exists>st' out. outbox (cl_link st') = from_client \<and>
            client_main env args = session_exit (Inr (results_summary (map oc_result ocs)), st') \<and>
            (\<not> renders_live cfg (me_client env) \<longrightarrow> out = session_output cfg ocs) \<and>
            bimap_main env os' evs (Some (ClientCommand args v')) =
              (Some (init_tracing v'),
               Some (if list_all (\<lambda>oc. is_pass (oc_remote oc) \<and> is_pass (oc_local oc)) ocs then 0 else 1), [], out))"
proof
  have fp: "fp = cert_fingerprint (tl_hex (me_tls env)) cert"
    by (rule generate_ephemeral_cert_Inr [OF assms(1)])
  have served: "serve_connection (ce_text (me_client env)) (me_registry env) fp envs
      (ls\<lparr>inbox := map Arrives from_client\<rparr>) = (line, ls')"
    using assms(16) by (simp add: assms(15) split: prod.splits)
  have "\<exists>st'. client_main env args = session_exit (Inr (results_summary (map oc_result ocs)), st') \<and>
      outbox (cl_link st') = from_client \<and>
      (\<not> renders_live cfg (me_client env) \<longrightarrow> cl_stdout st' = session_output cfg ocs) \<and>
      line = done_line (results_summary (map oc_remote ocs))"
    by (rule connection_agrees [of env cert args control target ranges cfg all_ranges from_client
          "ce_text (me_client env)" envs ls line ls' lc c a ocs])
      (use assms served in \<open>simp_all add: fp\<close>)
  then obtain st' where client: "client_main env args = session_exit (Inr (results_summary (map oc_result ocs)), st')"
    "outbox (cl_link st') = from_client"
    "\<not> renders_live cfg (me_client env) \<longrightarrow> cl_stdout st' = session_output cfg ocs"
    and line: "line = done_line (results_summary (map oc_remote ocs))" by blast
  show "bimap_main env os [Accepted connection] (Some (ServerCommand addr v)) =
      (Some (init_tracing v), None,
       [''fingerprint: '' @ fp, ''listening on '' @ addr, done_line (results_summary (map oc_remote ocs))], [])"
    using assms(1-3,16) by (simp add: bimap_main_def parse_command_def server_main_def line)
  have "list_all is_pass (map oc_result ocs) \<longleftrightarrow> list_all (\<lambda>oc. is_pass (oc_remote oc) \<and> is_pass (oc_local oc)) ocs"
    by (simp add: list_all_iff oc_result_def combined_is_pass)
  with exit_of_results [of "map oc_result ocs" st'] assms(27)
  have "session_exit (Inr (results_summary (map oc_result ocs)), st') =
      (if list_all (\<lambda>oc. is_pass (oc_remote oc) \<and> is_pass (oc_local oc)) ocs then 0 else 1, [], cl_stdout st')"
    by (simp add: session_exit_def)
  with client show "\<exists>st' out. outbox (cl_link st') = from_client \<and>
      client_main env args = session_exit (Inr (results_summary (map oc_result ocs)), st') \<and>
      (\<not> renders_live cfg (me_client env) \<longrightarrow> out = session_output cfg ocs) \<and>
      bimap_main env os' evs (Some (ClientCommand args v')) =
        (Some (init_tracing v'),
         Some (if list_all (\<lambda>oc. is_pass (oc_remote oc) \<and> is_pass (oc_local oc)) ocs then 0 else 1), [], out)"
    by (intro exI [of _ st'] exI [of _ "cl_stdout st'"]) (simp add: bimap_main_def parse_command_def)
qed

lemma demo_program_outcomes:
  "map oc_remote (scan_outcomes demo_text demo_client demo_registry
       (config_of_args demo_args [(''tcp'', 80, 81)] (set_port 0 demo_addr)) demo_envs demo_addr demo_addr 1 2 0
       (scan_plan (config_of_args demo_args [(''tcp'', 80, 81)] (set_port 0 demo_addr)) demo_registry [(''tcp'', 80, 81)])) =
     [Pass 1 1, Pass 1 1]"
  "map oc_local (scan_outcomes demo_text demo_client demo_registry
       (config_of_args demo_args [(''tcp'', 80, 81)] (set_port 0 demo_addr)) demo_envs demo_addr demo_addr 1 2 0
       (scan_plan (config_of_args demo_args [(''tcp'', 80, 81)] (set_port 0 demo_addr)) demo_registry [(''tcp'', 80, 81)])) =
     [Pass 1 1, Pass 1 1]"
proof -
  let ?cfg = "config_of_args demo_args [(''tcp'', 80, 81)] (set_port 0 demo_addr)"
  have plan: "scan_plan ?cfg demo_registry [(''tcp'', 80, 81)] = scan_plan demo_config demo_registry [(''tcp'', 80, 81)]"
    unfolding demo_plan
    by (simp add: scan_plan_def plan_test_def plan_range_def plan_direction_def scan_directions_def batch_size_def
        config_of_args_def demo_args_def at_least_one_def transport_from_str_def port_span_def upt_rec chunks.simps)
  show "map oc_remote (scan_outcomes demo_text demo_client demo_registry ?cfg demo_envs demo_addr demo_addr 1 2 0
       (scan_plan ?cfg demo_registry [(''tcp'', 80, 81)])) = [Pass 1 1, Pass 1 1]"
    and "map oc_local (scan_outcomes demo_text demo_client demo_registry ?cfg demo_envs demo_addr demo_addr 1 2 0
       (scan_plan ?cfg demo_registry [(''tcp'', 80, 81)])) = [Pass 1 1, Pass 1 1]"
    unfolding plan
    by (simp_all add: demo_plan numbered_def Let_def server_result_def server_entry_of_def demo_client_def)
qed

theorem programs_agree_witness:
  "let from_client = client_messages demo_client demo_registry
         (config_of_args demo_args [(''tcp'', 80, 81)] (set_port 0 demo_addr)) [(''tcp'', 80, 81)];
       connection = ((demo_link [])\<lparr>inbox := map Arrives from_client\<rparr>, demo_envs);
       served = serve_connection demo_text demo_registry ''SHA256:00ff'' demo_envs (fst connection);
       env = demo_main (outbox (snd served))
   in bimap_main env demo_os [Accepted connection] (Some (ServerCommand ''[::]:443'' 0)) =
        (Some (init_tracing 0), None,
         [''fingerprint: SHA256:00ff'', ''listening on [::]:443'', ''done: 2 passed, 0 failed, 0 errors''], []) \<and>
      (\<exists>out. bimap_main env demo_os ([] :: (link \<times> unit session_envs) accept_event list)
           (Some (ClientCommand demo_args 1)) = (Some (init_tracing 1), Some 0, [], out))"
proof -
  let ?cfg = "config_of_args demo_args [(''tcp'', 80, 81)] (set_port 0 demo_addr)"
  let ?msgs = "client_messages demo_client demo_registry ?cfg [(''tcp'', 80, 81)]"
  let ?conn = "((demo_link [])\<lparr>inbox := map Arrives ?msgs\<rparr>, demo_envs)"
  let ?served = "serve_connection demo_text demo_registry ''SHA256:00ff'' demo_envs
                  ((demo_link [])\<lparr>inbox := map Arrives ?msgs\<rparr>)"
  let ?env = "demo_main (outbox (snd ?served))"
  let ?ocs = "scan_outcomes demo_text demo_client demo_registry ?cfg demo_envs demo_addr demo_addr 1 2 0
       (scan_plan ?cfg demo_registry [(''tcp'', 80, 81)])"
  have ce: "ce_text demo_client = demo_text" by (simp add: demo_client_def)
  have len: "length ?ocs = 2" using arg_cong [OF demo_program_outcomes(1), of length] by simp
  have all: "list_all (\<lambda>oc. is_pass (oc_remote oc) \<and> is_pass (oc_local oc)) ?ocs"
  proof -
    have "list_all is_pass (map oc_remote ?ocs)" "list_all is_pass (map oc_local ?ocs)"
      unfolding demo_program_outcomes by simp_all
    then show ?thesis by (simp add: list_all_iff)
  qed
  have "bimap_main ?env demo_os [Accepted ?conn] (Some (ServerCommand ''[::]:443'' 0)) =
      (Some (init_tracing 0), None,
       [''fingerprint: '' @ ''SHA256:00ff'', ''listening on '' @ ''[::]:443'',
        done_line (results_summary (map oc_remote ?ocs))], []) \<and>
    (\<exists>st' out. outbox (cl_link st') = ?msgs \<and>
       client_main ?env demo_args = session_exit (Inr (results_summary (map oc_result ?ocs)), st') \<and>
       (\<not> renders_live ?cfg (me_client ?env) \<longrightarrow> out = session_output ?cfg ?ocs) \<and>
       bimap_main ?env demo_os ([] :: (link \<times> unit session_envs) accept_event list) (Some (ClientCommand demo_args 1)) =
         (Some (init_tracing 1),
          Some (if list_all (\<lambda>oc. is_pass (oc_remote oc) \<and> is_pass (oc_local oc)) ?ocs then 0 else 1), [], out))"
  proof (rule programs_agree [where cert = "[]" and fp = "''SHA256:00ff''" and bound = demo_addr and
        control = demo_addr and target = "set_port 0 demo_addr" and envs = demo_envs and
        ls = "demo_link []" and ls' = "snd ?served" and line = "fst ?served" and lc = "demo_link []" and
        ranges = "[(''tcp'', 80, 81)]" and all_ranges = "[(''tcp'', 80, 81)]" and cfg = ?cfg and
        from_client = ?msgs and a = demo_addr and c = demo_addr])
    show "hex_text (tl_hex (me_tls ?env) [])" by (simp add: hex_text_def hex_digit_def)
    show "control_target ?env demo_args = Inr demo_addr"
      by (simp add: demo_addresses) (simp add: demo_args_def)
    show "target_addr ?env demo_args demo_addr = Inr (set_port 0 demo_addr)"
      by (simp add: target_addr_def demo_args_def)
    show "\<not> needs_port_range (me_registry ?env) demo_args"
      by (simp add: needs_port_range_def demo_args_def)
    show "parse_port_ranges (ca_port_range demo_args) = Inr [(''tcp'', 80, 81)]"
      using demo_port_range by (simp add: demo_args_def)
    show "complete_port_ranges (me_registry ?env) (ca_test demo_args) [(''tcp'', 80, 81)] =
        Inr [(''tcp'', 80, 81)]"
      using demo_ranges(2) by (simp add: demo_args_def demo_config_def)
    show "serve (ce_text (me_client ?env)) (me_registry ?env) ''SHA256:00ff'' [Accepted ?conn] =
        [(fst ?served, Some (snd ?served))]"
      by (simp add: ce split: prod.splits)
    show "me_handshake ?env demo_addr = Inr ([], (demo_link [])\<lparr>inbox := map Arrives (outbox (snd ?served))\<rparr>)"
      by (simp add: demo_link_def)
    show "length ?ocs < 2 ^ 32" by (simp only: len) simp
  qed (simp_all add: demo_args_def demo_server_setup ce)
  moreover have "done_line (results_summary (map oc_remote ?ocs)) = ''done: 2 passed, 0 failed, 0 errors''"
    unfolding demo_program_outcomes
    by (simp add: results_summary_def done_line_def show_word_def) code_simp
  ultimately show ?thesis using all by (auto simp: Let_def)
qed

end
