(* ===== verification/Exchange.thy ===== *)
theory Exchange
  imports Probe_Io
begin

text \<open>
  The exchange of a payload over a connection (\<open>src/test/exchange.rs\<close>): the initiator connects,
  with retries, writes the payload and expects it back; the target accepts, checks the payload and
  echoes it.
\<close>

section \<open>Payload and failures\<close>

definition kilobyte_payload :: bytes where
  "kilobyte_payload = map (\<lambda>index. word_of_nat (index div 4)) [0..<1024]"

definition failure :: "string \<Rightarrow> nat \<Rightarrow> nat \<Rightarrow> protocol_result" where
  "failure why sent received = Fail why (word_of_nat sent) (word_of_nat received)"

text \<open>The result of an operation under its timeout, or the failure it means for the probe.\<close>

definition perform ::
  "'a timed \<times> calls \<Rightarrow> string \<Rightarrow> nat \<Rightarrow> nat \<Rightarrow> (protocol_result + 'a) \<times> calls" where
  "perform operation stage sent received =
     (case operation of
        (Completed (Inr v), h) \<Rightarrow> (Inr v, h)
      | (Completed (Inl e), h) \<Rightarrow> (Inl (failure (stage @ '': '' @ io_text e) sent received), h)
      | (Elapsed, h) \<Rightarrow> (Inl (failure (stage @ '': timeout'') sent received), h))"

text \<open>\<open>Ok(result) | Err(result) => result\<close>.\<close>

fun either_result :: "(protocol_result + protocol_result) \<times> calls \<Rightarrow> protocol_result \<times> calls" where
  "either_result (Inl r, h) = (r, h)"
| "either_result (Inr r, h) = (r, h)"

section \<open>Connecting\<close>

definition pause :: "nat \<Rightarrow> duration \<Rightarrow> calls \<Rightarrow> calls" where
  "pause attempt d h = (if attempt > 0 then h @ [Sleep d] else h)"

primrec connect_attempts ::
  "net \<Rightarrow> socket_addr \<Rightarrow> duration \<Rightarrow> nat list \<Rightarrow> string \<Rightarrow> calls \<Rightarrow> (protocol_result + unit) \<times> calls" where
  "connect_attempts net target timeout [] reason h = (Inl (failure reason 0 0), h)"
| "connect_attempts net target timeout (attempt # rest) reason h =
     (case call_within net timeout (Connect target timeout) (net_unit net)
             (pause attempt (from_millis 100) h) of
        (Completed (Inr _), h') \<Rightarrow> (Inr (), h')
      | (Completed (Inl e), h') \<Rightarrow>
          if io_kind_of e = ConnectionRefused
          then connect_attempts net target timeout rest ''refused'' h'
          else (Inl (failure (''connect: '' @ io_text e) 0 0), h')
      | (Elapsed, h') \<Rightarrow> connect_attempts net target timeout rest ''timeout'' h')"

definition connect :: "net \<Rightarrow> socket_addr \<Rightarrow> duration \<Rightarrow> calls \<Rightarrow> (protocol_result + unit) \<times> calls" where
  "connect net target timeout h = connect_attempts net target timeout [0..<20] '''' h"

definition accept :: "net \<Rightarrow> socket_addr \<Rightarrow> duration \<Rightarrow> calls \<Rightarrow> (protocol_result + unit) \<times> calls" where
  "accept net address timeout h =
     (case call (TcpBind address) (net_unit net) h of
        (Inl e, h') \<Rightarrow> (Inl (Error (''bind: '' @ io_text e)), h')
      | (Inr _, h') \<Rightarrow>
          perform (call_within net timeout (TcpAccept timeout) (net_unit net) h') ''accept'' 0 0)"

section \<open>The two ends\<close>

definition roundtrip :: "net \<Rightarrow> bytes \<Rightarrow> duration \<Rightarrow> calls \<Rightarrow> protocol_result \<times> calls" where
  "roundtrip net payload timeout h =
     (let n = length payload in
      either_result
        (try_then (perform (write_all net payload timeout h) ''write'' 0 0) (\<lambda>_ h1.
         try_then (perform (read_exact net n timeout h1) ''read'' n 0) (\<lambda>received h2.
           (Inr (if received \<noteq> payload then failure ''mismatch'' n n
                 else Pass (word_of_nat n) (word_of_nat n)), h2)))))"

definition payload_differs :: string where
  "payload_differs = ''mismatch: received payload differs from expected data''"

definition echo :: "net \<Rightarrow> bytes \<Rightarrow> duration \<Rightarrow> calls \<Rightarrow> protocol_result \<times> calls" where
  "echo net payload timeout h =
     (let n = length payload in
      either_result
        (try_then (perform (read_exact net n timeout h) ''read'' 0 0) (\<lambda>received h1.
           if received \<noteq> payload then (Inr (failure payload_differs 0 n), h1)
           else try_then (perform (write_all net received timeout h1) ''write'' 0 n) (\<lambda>_ h2.
             (Inr (Pass (word_of_nat n) (word_of_nat n)), h2)))))"

section \<open>Lemmas\<close>

lemma length_kilobyte_payload [simp]: "length kilobyte_payload = 1024"
  by (simp add: kilobyte_payload_def)

lemma perform_simps [simp]:
  "perform (Completed (Inr v), h) stage s r = (Inr v, h)"
  "perform (Completed (Inl e), h) stage s r = (Inl (failure (stage @ '': '' @ io_text e) s r), h)"
  "perform (Elapsed, h) stage s r = (Inl (failure (stage @ '': timeout'') s r), h)"
  by (simp_all add: perform_def)

lemma failure_not_pass [simp]: "\<not> is_pass (failure why s r)" "failure why s r \<noteq> Pass a b"
  by (simp_all add: failure_def)

lemma perform_Inl_not_pass: "perform op stage s r = (Inl res, h) \<Longrightarrow> is_fail res"
  by (auto simp: perform_def failure_def split: prod.splits timed.splits sum.splits)

text \<open>A read that completes gave exactly the number of bytes asked for.\<close>

lemma exactly_Inr_iff: "exactly n r = Inr bs \<longleftrightarrow> (\<exists>xs. r = Inr (bs @ xs) \<and> length bs = n)"
proof
  assume "exactly n r = Inr bs"
  then obtain ys where "r = Inr ys" "n \<le> length ys" "bs = take n ys"
    by (auto simp: exactly_def and_then_Inr_iff split: if_splits)
  then show "\<exists>xs. r = Inr (bs @ xs) \<and> length bs = n"
    by (metis append_take_drop_id length_take min.absorb2)
qed (auto simp: exactly_def and_then_def)

lemma read_exact_Completed:
  "read_exact net n t h = (Completed (Inr bs), h') \<longleftrightarrow>
     h' = h @ [ReadExact n t] \<and> net_time net h' \<le> t \<and>
     (\<exists>xs. net_bytes net h' = Inr (bs @ xs)) \<and> length bs = n"
  by (auto simp: read_exact_def call_within_def exactly_Inr_iff)

lemma write_all_Completed:
  "write_all net bs t h = (Completed (Inr u), h') \<longleftrightarrow>
     h' = h @ [WriteAll bs (Some t)] \<and> net_time net h' \<le> t \<and> net_unit net h' = Inr ()"
  by (auto simp: write_all_def call_within_def)

lemma perform_Inr_iff: "perform op stage s r = (Inr v, h) \<longleftrightarrow> op = (Completed (Inr v), h)"
  by (auto simp: perform_def split: prod.splits timed.splits sum.splits)

lemma either_result_cases:
  "either_result r = (res, h) \<longleftrightarrow> r = (Inl res, h) \<or> r = (Inr res, h)"
  by (cases r; cases "fst r") auto

end
