(* ===== verification/Port_Probes.thy ===== *)
theory Port_Probes
  imports Exchange Result_Report Session_Link
begin

text \<open>
  The probes \<open>open\<close> and \<open>1kb\<close> (\<open>src/test/port.rs\<close>): the exchange of a payload over TCP, or over UDP
  with retries.
\<close>

section \<open>TCP\<close>

definition ONE_BYTE_PAYLOAD :: u8 where
  "ONE_BYTE_PAYLOAD = 0xAA"

definition tcp_initiator ::
  "net \<Rightarrow> socket_addr \<Rightarrow> bytes \<Rightarrow> duration \<Rightarrow> calls \<Rightarrow> protocol_result \<times> calls" where
  "tcp_initiator net target payload timeout h =
     (case connect net target timeout h of
        (Inr _, h') \<Rightarrow> roundtrip net payload timeout h'
      | (Inl result, h') \<Rightarrow> (result, h'))"

definition tcp_target ::
  "net \<Rightarrow> socket_addr \<Rightarrow> bytes \<Rightarrow> duration \<Rightarrow> calls \<Rightarrow> protocol_result \<times> calls" where
  "tcp_target net address payload timeout h =
     (case accept net address timeout h of
        (Inr _, h') \<Rightarrow> echo net payload timeout h'
      | (Inl result, h') \<Rightarrow> (result, h'))"

section \<open>UDP\<close>

text \<open>The unspecified address of the family of the target, port 0.\<close>

definition any_address :: "socket_addr \<Rightarrow> socket_addr" where
  "any_address target = (if is_ipv4 target then SocketV4 0 0 else SocketV6 0 0 0 0)"

definition recv_len_text :: "nat \<Rightarrow> nat \<Rightarrow> string" where
  "recv_len_text got want = ''recv len: '' @ show_nat got @ '' != '' @ show_nat want"

definition check_reply :: "bytes \<Rightarrow> bytes \<Rightarrow> protocol_result" where
  "check_reply payload received =
     (let n = length payload; k = length received in
      if k \<noteq> n then failure (recv_len_text k n) n k
      else if received \<noteq> payload then failure ''mismatch'' n k
      else Pass (word_of_nat n) (word_of_nat k))"

primrec udp_attempts ::
  "net \<Rightarrow> socket_addr \<Rightarrow> bytes \<Rightarrow> duration \<Rightarrow> nat list \<Rightarrow> string \<Rightarrow> calls \<Rightarrow> protocol_result \<times> calls" where
  "udp_attempts net target payload timeout [] reason h = (failure reason (length payload) 0, h)"
| "udp_attempts net target payload timeout (attempt # rest) reason h =
     (case send_to net payload target timeout (pause attempt (from_millis 200) h) of
        (Completed (Inl e), h1) \<Rightarrow> udp_attempts net target payload timeout rest (''send: '' @ io_text e) h1
      | (Elapsed, h1) \<Rightarrow> udp_attempts net target payload timeout rest ''send timeout'' h1
      | (Completed (Inr _), h1) \<Rightarrow>
          (case recv_from net (length payload + 1) timeout h1 of
             (Completed (Inr (received, source)), h2) \<Rightarrow>
               if source = target then (check_reply payload received, h2)
               else udp_attempts net target payload timeout rest ''recv from unexpected source'' h2
           | (Completed (Inl e), h2) \<Rightarrow>
               udp_attempts net target payload timeout rest (''recv: '' @ io_text e) h2
           | (Elapsed, h2) \<Rightarrow> udp_attempts net target payload timeout rest ''timeout'' h2))"

definition udp_initiator ::
  "net \<Rightarrow> socket_addr \<Rightarrow> bytes \<Rightarrow> duration \<Rightarrow> calls \<Rightarrow> protocol_result \<times> calls" where
  "udp_initiator net target payload timeout h =
     (case call (UdpBind (any_address target)) (net_unit net) h of
        (Inl e, h') \<Rightarrow> (Error (''udp bind: '' @ io_text e), h')
      | (Inr _, h') \<Rightarrow> udp_attempts net target payload timeout [0..<5] '''' h')"

text \<open>What the target does with a datagram: it answers the right payload with itself.\<close>

definition udp_answer ::
  "net \<Rightarrow> bytes \<Rightarrow> duration \<Rightarrow> bytes \<Rightarrow> socket_addr \<Rightarrow> calls \<Rightarrow> protocol_result \<times> calls" where
  "udp_answer net payload timeout received source h =
     (let k = length received in
      if k \<noteq> length payload then (failure (recv_len_text k (length payload)) 0 k, h)
      else if received \<noteq> payload then (failure payload_differs 0 k, h)
      else (case send_to net received source timeout h of
              (Completed (Inr _), h') \<Rightarrow> (Pass (word_of_nat k) (word_of_nat k), h')
            | (Completed (Inl e), h') \<Rightarrow> (failure (''send: '' @ io_text e) 0 k, h')
            | (Elapsed, h') \<Rightarrow> (failure ''send timeout'' 0 k, h')))"

primrec udp_target_attempts ::
  "net \<Rightarrow> bytes \<Rightarrow> duration \<Rightarrow> nat \<Rightarrow> string \<Rightarrow> calls \<Rightarrow> protocol_result \<times> calls" where
  "udp_target_attempts net payload timeout 0 reason h = (failure reason 0 0, h)"
| "udp_target_attempts net payload timeout (Suc n) reason h =
     (case recv_from net (length payload + 1) (from_secs 1) h of
        (Completed (Inr (received, source)), h1) \<Rightarrow> udp_answer net payload timeout received source h1
      | (Completed (Inl e), h1) \<Rightarrow> udp_target_attempts net payload timeout n (''recv: '' @ io_text e) h1
      | (Elapsed, h1) \<Rightarrow> udp_target_attempts net payload timeout n ''recv timeout'' h1)"

definition udp_target ::
  "net \<Rightarrow> socket_addr \<Rightarrow> bytes \<Rightarrow> duration \<Rightarrow> calls \<Rightarrow> protocol_result \<times> calls" where
  "udp_target net address payload timeout h =
     (case call (UdpBind address) (net_unit net) h of
        (Inl e, h') \<Rightarrow> (Error (''udp bind: '' @ io_text e), h')
      | (Inr _, h') \<Rightarrow> udp_target_attempts net payload timeout 5 '''' h')"

section \<open>The probes\<close>

definition run_exchange :: "bytes \<Rightarrow> net \<Rightarrow> test_context \<Rightarrow> calls \<Rightarrow> protocol_result \<times> calls" where
  "run_exchange payload net ctx h =
     (case (ctx_transport ctx, ctx_direction ctx) of
        (Tcp, ClientToServer) \<Rightarrow> tcp_initiator net (ctx_target_addr ctx) payload (ctx_timeout ctx) h
      | (Tcp, ServerToClient) \<Rightarrow> tcp_target net (ctx_target_addr ctx) payload (ctx_timeout ctx) h
      | (Udp, ClientToServer) \<Rightarrow> udp_initiator net (ctx_target_addr ctx) payload (ctx_timeout ctx) h
      | (Udp, ServerToClient) \<Rightarrow> udp_target net (ctx_target_addr ctx) payload (ctx_timeout ctx) h
      | (Icmp, _) \<Rightarrow> (Error ''ICMP not supported by port tests'', h))"

definition open_test :: "net test_protocol" where
  "open_test =
     \<lparr>proto_name = ''open'', proto_layer = L4, proto_transports = [Tcp, Udp],
      proto_run = run_from_start (run_exchange [ONE_BYTE_PAYLOAD])\<rparr>"

definition kb_test :: "net test_protocol" where
  "kb_test =
     \<lparr>proto_name = ''1kb'', proto_layer = L4, proto_transports = [Tcp, Udp],
      proto_run = run_from_start (run_exchange kilobyte_payload)\<rparr>"

section \<open>TCP: both ends of a connection\<close>

text \<open>A network on which every call ends in time and no operation without data fails.\<close>

definition prompt :: "net \<Rightarrow> duration \<Rightarrow> bool" where
  "prompt net t \<longleftrightarrow> (\<forall>h. net_time net h \<le> t) \<and> (\<forall>h. net_unit net h = Inr ())"

lemma prompt_call [simp]:
  assumes "prompt net t"
  shows "call_within net t c answer h = (Completed (answer (h @ [c])), h @ [c])"
    and "net_unit net h = Inr ()"
  using assms by (simp_all add: prompt_def call_within_def)

lemma prompt_connect: "prompt net t \<Longrightarrow> connect net a t h = (Inr (), h @ [Connect a t])"
  by (simp add: connect_def upt_rec [of 0] pause_def)

lemma prompt_accept: "prompt net t \<Longrightarrow> accept net a t h = (Inr (), h @ [TcpBind a, TcpAccept t])"
  by (simp add: accept_def call_def)

lemma prompt_write_all: "prompt net t \<Longrightarrow> write_all net bs t h = (Completed (Inr ()), h @ [WriteAll bs (Some t)])"
  by (simp add: write_all_def)

lemma prompt_read_exact:
  "prompt net t \<Longrightarrow> read_exact net n t h =
     (Completed (exactly n (net_bytes net (h @ [ReadExact n t]))), h @ [ReadExact n t])"
  by (simp add: read_exact_def)

text \<open>The bytes an end wrote to its connection.\<close>

fun written_by :: "io_call \<Rightarrow> bytes" where
  "written_by (WriteAll bs t) = bs"
| "written_by _ = []"

definition written :: "calls \<Rightarrow> bytes" where
  "written h = concat (map written_by h)"

lemma written_simps [simp]: "written [] = []" "written (c # h) = written_by c @ written h"
  "written (h @ h') = written h @ written h'"
  by (simp_all add: written_def)

lemma echo_prompt:
  assumes "prompt net t" and "net_bytes net (h @ [ReadExact (length p) t]) = Inr bs" and "length bs = length p"
  shows "echo net p t h =
    (if bs = p
     then (Pass (word_of_nat (length p)) (word_of_nat (length p)),
           h @ [ReadExact (length p) t, WriteAll p (Some t)])
     else (failure payload_differs 0 (length p), h @ [ReadExact (length p) t]))"
  using assms
  by (simp add: echo_def Let_def prompt_read_exact prompt_write_all exactly_def and_then_def)

lemma roundtrip_prompt:
  assumes "prompt net t"
    and "net_bytes net (h @ [WriteAll p (Some t), ReadExact (length p) t]) = Inr bs"
    and "length bs = length p"
  shows "roundtrip net p t h =
    (if bs = p then Pass (word_of_nat (length p)) (word_of_nat (length p))
     else failure ''mismatch'' (length p) (length p),
     h @ [WriteAll p (Some t), ReadExact (length p) t])"
  using assms
  by (simp add: roundtrip_def Let_def prompt_read_exact prompt_write_all exactly_def and_then_def)

lemma roundtrip_silence:
  assumes "prompt net t" and "net_bytes net (h @ [WriteAll p (Some t), ReadExact (length p) t]) = Inr []"
    and "p \<noteq> []"
  shows "roundtrip net p t h =
    (failure ''read: early eof'' (length p) 0, h @ [WriteAll p (Some t), ReadExact (length p) t])"
  using assms
  by (simp add: roundtrip_def Let_def prompt_read_exact prompt_write_all exactly_def and_then_def early_eof_def)

text \<open>The two ends, joined by a path that changes what is sent by \<open>f\<close> and what comes back by \<open>g\<close>.\<close>

lemma tcp_ends:
  assumes "prompt ni t" and "prompt nt t" and "p \<noteq> []"
    and "\<And>bs. length (f bs) = length bs" and "\<And>bs. length (g bs) = length bs"
    and "\<And>h. net_bytes nt h = Inr (f (written (snd (tcp_initiator ni target p t []))))"
    and "\<And>h. net_bytes ni h = Inr (g (written (snd (tcp_target nt address p t []))))"
  shows "fst (tcp_target nt address p t []) =
           (if f p = p then Pass (word_of_nat (length p)) (word_of_nat (length p))
            else failure payload_differs 0 (length p))"
    and "fst (tcp_initiator ni target p t []) =
           (if f p \<noteq> p then failure ''read: early eof'' (length p) 0
            else if g p = p then Pass (word_of_nat (length p)) (word_of_nat (length p))
            else failure ''mismatch'' (length p) (length p))"
proof -
  let ?n = "length p"
  obtain r where hi: "tcp_initiator ni target p t [] =
      (r, [Connect target t, WriteAll p (Some t), ReadExact ?n t])"
    using assms(1) by (cases "exactly ?n (net_bytes ni [Connect target t, WriteAll p (Some t), ReadExact ?n t])")
      (simp_all add: tcp_initiator_def prompt_connect roundtrip_def Let_def prompt_read_exact prompt_write_all)
  then have bt: "net_bytes nt h = Inr (f p)" for h using assms(6) by simp
  have lp: "length (f p) = ?n" using assms(4) by simp
  have rt: "tcp_target nt address p t [] =
      (if f p = p
       then (Pass (word_of_nat ?n) (word_of_nat ?n),
             [TcpBind address, TcpAccept t, ReadExact ?n t, WriteAll p (Some t)])
       else (failure payload_differs 0 ?n, [TcpBind address, TcpAccept t, ReadExact ?n t]))"
    by (simp add: tcp_target_def prompt_accept [OF assms(2)] echo_prompt [OF assms(2) bt lp])
  then show "fst (tcp_target nt address p t []) =
      (if f p = p then Pass (word_of_nat ?n) (word_of_nat ?n) else failure payload_differs 0 ?n)"
    by simp
  from rt have bi: "net_bytes ni h = Inr (if f p = p then g p else [])" for h
    using assms(5) [of "[]"] assms(7) by simp
  show "fst (tcp_initiator ni target p t []) =
      (if f p \<noteq> p then failure ''read: early eof'' ?n 0
       else if g p = p then Pass (word_of_nat ?n) (word_of_nat ?n) else failure ''mismatch'' ?n ?n)"
  proof (cases "f p = p")
    case True
    with bi have "net_bytes ni h = Inr (g p)" for h by simp
    from roundtrip_prompt [OF assms(1) this assms(5)] True show ?thesis
      by (simp add: tcp_initiator_def prompt_connect [OF assms(1)])
  next
    case False
    with bi have "net_bytes ni h = Inr []" for h by simp
    from roundtrip_silence [OF assms(1) this assms(3)] False show ?thesis
      by (simp add: tcp_initiator_def prompt_connect [OF assms(1)])
  qed
qed

text \<open>Any bytes may arrive at either end: too few, others, or more than the payload.\<close>

lemma echo_arrived:
  assumes "prompt net t" and "\<And>h. net_bytes net h = Inr bs"
  shows "echo net p t h =
    (if length bs < length p then (failure ''read: early eof'' 0 0, h @ [ReadExact (length p) t])
     else if take (length p) bs \<noteq> p then (failure payload_differs 0 (length p), h @ [ReadExact (length p) t])
     else (Pass (word_of_nat (length p)) (word_of_nat (length p)),
           h @ [ReadExact (length p) t, WriteAll (take (length p) bs) (Some t)]))"
  using assms
  by (simp add: echo_def Let_def prompt_read_exact prompt_write_all exactly_def and_then_def early_eof_def)

lemma roundtrip_arrived:
  assumes "prompt net t" and "\<And>h. net_bytes net h = Inr bs"
  shows "roundtrip net p t h =
    (if length bs < length p then failure ''read: early eof'' (length p) 0
     else if take (length p) bs \<noteq> p then failure ''mismatch'' (length p) (length p)
     else Pass (word_of_nat (length p)) (word_of_nat (length p)),
     h @ [WriteAll p (Some t), ReadExact (length p) t])"
  using assms
  by (simp add: roundtrip_def Let_def prompt_read_exact prompt_write_all exactly_def and_then_def early_eof_def)

text \<open>What the two ends make of it, joined by a path of which nothing is assumed.\<close>

lemma tcp_ends_any_path:
  assumes "prompt ni t" and "prompt nt t"
    and "\<And>h. net_bytes nt h = Inr (f (written (snd (tcp_initiator ni target p t []))))"
    and "\<And>h. net_bytes ni h = Inr (g (written (snd (tcp_target nt address p t []))))"
  defines "n \<equiv> length p" and "back \<equiv> (if take (length p) (f p) = p then p else [])"
  shows "fst (tcp_target nt address p t []) =
      (if length (f p) < n then failure ''read: early eof'' 0 0
       else if take n (f p) \<noteq> p then failure payload_differs 0 n else Pass (word_of_nat n) (word_of_nat n))"
    and "fst (tcp_initiator ni target p t []) =
      (if length (g back) < n then failure ''read: early eof'' n 0
       else if take n (g back) \<noteq> p then failure ''mismatch'' n n else Pass (word_of_nat n) (word_of_nat n))"
proof -
  define from_target where "from_target = g (written (snd (tcp_target nt address p t [])))"
  have bi: "net_bytes ni h = Inr from_target" for h using assms(4) by (simp add: from_target_def)
  have hi: "tcp_initiator ni target p t [] =
      (fst (roundtrip ni p t [Connect target t]), [Connect target t, WriteAll p (Some t), ReadExact (length p) t])"
    by (simp add: tcp_initiator_def prompt_connect [OF assms(1)] roundtrip_arrived [OF assms(1) bi])
  then have bt: "net_bytes nt h = Inr (f p)" for h using assms(3) by simp
  have ht: "tcp_target nt address p t [] = echo nt p t [TcpBind address, TcpAccept t]"
    by (simp add: tcp_target_def prompt_accept [OF assms(2)])
  show "fst (tcp_target nt address p t []) =
      (if length (f p) < n then failure ''read: early eof'' 0 0
       else if take n (f p) \<noteq> p then failure payload_differs 0 n else Pass (word_of_nat n) (word_of_nat n))"
    by (simp add: ht echo_arrived [OF assms(2) bt] n_def)
  have "take n (f p) \<noteq> p" if "length (f p) < n" using that by (auto simp: n_def)
  then have "from_target = g back"
    by (auto simp: from_target_def ht echo_arrived [OF assms(2) bt] back_def n_def)
  then show "fst (tcp_initiator ni target p t []) =
      (if length (g back) < n then failure ''read: early eof'' n 0
       else if take n (g back) \<noteq> p then failure ''mismatch'' n n else Pass (word_of_nat n) (word_of_nat n))"
    by (simp add: hi roundtrip_arrived [OF assms(1) bi] n_def)
qed

section \<open>UDP: what a pass means\<close>

text \<open>The datagrams a probe sent.\<close>

fun sent_datagram :: "io_call \<Rightarrow> (bytes \<times> socket_addr) list" where
  "sent_datagram (SendTo bs a t) = [(bs, a)]"
| "sent_datagram _ = []"

definition sends :: "calls \<Rightarrow> (bytes \<times> socket_addr) list" where
  "sends h = concat (map sent_datagram h)"

lemma sends_simps [simp]: "sends [] = []" "sends (c # h) = sent_datagram c @ sends h"
  "sends (h @ h') = sends h @ sends h'"
  by (simp_all add: sends_def)

lemma sends_pause [simp]: "sends (pause attempt d h) = sends h"
  by (simp add: pause_def)

lemma send_to_calls: "send_to net bs a t h = (x, h') \<Longrightarrow> h' = h @ [SendTo bs a (Some t)]"
  by (auto simp: send_to_def call_within_def)

lemma recv_from_calls: "recv_from net n t h = (x, h') \<Longrightarrow> h' = h @ [RecvFrom n t]"
  by (auto simp: recv_from_def call_within_def)

lemma recv_from_Completed:
  "recv_from net n t h = (Completed (Inr (bs, a)), h') \<longleftrightarrow>
     h' = h @ [RecvFrom n t] \<and> net_time net h' \<le> t \<and>
     (\<exists>data. net_datagram net h' = Inr (data, a) \<and> bs = take n data)"
  by (auto simp: recv_from_def call_within_def and_then_Inr_iff)

text \<open>One attempt after the other: nothing but the payload is sent, once for each attempt at most.\<close>

lemma udp_attempts_sends:
  "udp_attempts net target p t attempts reason h = (r, h') \<Longrightarrow>
     \<exists>k \<le> length attempts. sends h' = sends h @ replicate k (p, target)"
proof (induction attempts arbitrary: reason h)
  case Nil
  then show ?case by simp
next
  case (Cons attempt rest)
  obtain x h1 where send: "send_to net p target t (pause attempt (from_millis 200) h) = (x, h1)"
    by fastforce
  obtain y h2 where recv: "recv_from net (length p + 1) t h1 = (y, h2)" by fastforce
  have sends: "sends h1 = sends h @ [(p, target)]" "sends h2 = sends h1"
    using send_to_calls [OF send] recv_from_calls [OF recv] by simp_all
  have again: "\<exists>k \<le> length (attempt # rest). sends h' = sends h @ replicate k (p, target)"
    if "udp_attempts net target p t rest reason' g = (r, h')" and "sends g = sends h1" for reason' g
  proof -
    from Cons.IH [OF that(1)] obtain k where "k \<le> length rest" "sends h' = sends g @ replicate k (p, target)"
      by blast
    with that(2) sends show ?thesis by (intro exI [of _ "Suc k"]) simp
  qed
  from Cons.prems send recv consider
      reason' where "udp_attempts net target p t rest reason' h1 = (r, h')"
    | reason' where "udp_attempts net target p t rest reason' h2 = (r, h')" | "h' = h2"
    by (auto split: timed.splits sum.splits if_splits)
  then show ?case
  proof cases
    case 3
    with sends show ?thesis by (intro exI [of _ 1]) simp
  qed (use again sends in blast)+
qed

lemma check_reply_Pass:
  "check_reply p received = Pass s r \<longleftrightarrow>
     received = p \<and> s = word_of_nat (length p) \<and> r = word_of_nat (length p)"
  by (auto simp: check_reply_def Let_def)

lemma udp_attempts_Pass:
  "udp_attempts net target p t attempts reason h = (Pass s r, h') \<Longrightarrow>
     s = word_of_nat (length p) \<and> r = word_of_nat (length p) \<and> net_datagram net h' = Inr (p, target) \<and>
     last h' = RecvFrom (length p + 1) t \<and> net_time net h' \<le> t"
proof (induction attempts arbitrary: reason h)
  case Nil
  then show ?case by simp
next
  case (Cons attempt rest)
  obtain x h1 where send: "send_to net p target t (pause attempt (from_millis 200) h) = (x, h1)"
    by fastforce
  obtain y h2 where recv: "recv_from net (length p + 1) t h1 = (y, h2)" by fastforce
  from Cons.prems send recv consider
      reason' g where "udp_attempts net target p t rest reason' g = (Pass s r, h')"
    | received where "y = Completed (Inr (received, target))" "check_reply p received = Pass s r" "h' = h2"
    by (auto split: timed.splits sum.splits if_splits)
  then show ?case
  proof cases
    case 1
    then show ?thesis by (rule Cons.IH)
  next
    case 2
    with recv obtain data where data: "net_datagram net h2 = Inr (data, target)"
      "received = take (length p + 1) data" "h2 = h1 @ [RecvFrom (length p + 1) t]" "net_time net h2 \<le> t"
      by (auto simp: recv_from_Completed)
    moreover from 2(2) have "received = p" "s = word_of_nat (length p)" "r = word_of_nat (length p)"
      by (simp_all add: check_reply_Pass)
    moreover have "data = p"
    proof -
      from data(2) \<open>received = p\<close> have "min (length data) (length p + 1) = length p"
        by (metis length_take)
      then have "length data \<le> length p + 1" by simp
      with data(2) \<open>received = p\<close> show ?thesis by simp
    qed
    ultimately show ?thesis using 2(3) by simp
  qed
qed

section \<open>Properties\<close>

text \<open>
  Property C9: on a prompt network the two ends of a TCP exchange detect every change of the payload.
  They both pass exactly when it arrives unchanged in both directions. A change on the way out is
  seen by the target, which reports the difference, and the initiator gets no echo; a change on the
  way back is seen by the initiator, but under a reason the report of payload differences does not
  look for.
\<close>

theorem tcp_exchange_detects_change:
  assumes "prompt ni t" and "prompt nt t" and "p \<noteq> []"
    and "\<And>bs. length (f bs) = length bs" and "\<And>bs. length (g bs) = length bs"
    and "\<And>h. net_bytes nt h = Inr (f (written (snd (tcp_initiator ni target p t []))))"
    and "\<And>h. net_bytes ni h = Inr (g (written (snd (tcp_target nt address p t []))))"
  shows "(is_pass (fst (tcp_initiator ni target p t [])) \<and> is_pass (fst (tcp_target nt address p t [])) \<longleftrightarrow>
            f p = p \<and> g p = p) \<and>
         (f p \<noteq> p \<longrightarrow> fst (tcp_target nt address p t []) = failure payload_differs 0 (length p) \<and>
                    contains_str payload_mismatch payload_differs \<and>
                    is_fail (fst (tcp_initiator ni target p t []))) \<and>
         (f p = p \<and> g p \<noteq> p \<longrightarrow>
            fst (tcp_initiator ni target p t []) = failure ''mismatch'' (length p) (length p) \<and>
            \<not> contains_str payload_mismatch ''mismatch'')"
proof -
  have "contains_str payload_mismatch payload_differs" "\<not> contains_str payload_mismatch ''mismatch''"
    by (simp_all add: payload_mismatch_def payload_differs_def)
  moreover note tcp_ends [where f = f and g = g, OF assms]
  ultimately show ?thesis by (auto simp: failure_def)
qed

text \<open>The path that adds one to every byte, both ways: what the two ends write.\<close>

lemma demo_change:
  "written (snd (tcp_initiator demo_net demo_addr [0xAA] 5 [])) = [0xAA]"
  "written (snd (tcp_target (demo_net\<lparr>net_bytes := \<lambda>_. Inr [0xAB]\<rparr>) demo_addr [0xAA] 5 [])) = []"
proof -
  let ?nt = "demo_net\<lparr>net_bytes := \<lambda>_. Inr [0xAB]\<rparr>"
  have p: "prompt demo_net 5" "prompt ?nt 5" by (simp_all add: prompt_def)
  show "written (snd (tcp_initiator demo_net demo_addr [0xAA] 5 [])) = [0xAA]"
    using roundtrip_silence [OF p(1), of "[Connect demo_addr 5]" "[0xAA]"]
    by (simp add: tcp_initiator_def prompt_connect [OF p(1)])
  show "written (snd (tcp_target ?nt demo_addr [0xAA] 5 [])) = []"
    using echo_prompt [OF p(2), of "[TcpBind demo_addr, TcpAccept 5]" "[0xAA]" "[0xAB]"]
    by (simp add: tcp_target_def prompt_accept [OF p(2)])
qed

theorem tcp_exchange_detects_change_witness:
  "fst (tcp_target (demo_net\<lparr>net_bytes := \<lambda>_. Inr [0xAB]\<rparr>) demo_addr [0xAA] 5 []) =
     failure payload_differs 0 1"
proof -
  let ?f = "map ((+) 1) :: bytes \<Rightarrow> bytes"
  let ?nt = "demo_net\<lparr>net_bytes := \<lambda>_. Inr [0xAB]\<rparr>"
  have p: "prompt demo_net 5" "prompt ?nt 5" by (simp_all add: prompt_def)
  show ?thesis
    using tcp_exchange_detects_change [OF p, of "[0xAA]" ?f ?f demo_addr demo_addr] by (simp add: demo_change)
qed

text \<open>
  Property C23: a UDP initiator sends nothing but its payload, to its target only and at most five
  times; and it passes only on a datagram that came from the target within the timeout and equals
  the payload.
\<close>

theorem udp_initiator_sound:
  assumes "udp_initiator net target p t [] = (result, h)"
  shows "\<exists>k \<le> 5. sends h = replicate k (p, target) \<and>
           (\<forall>s r. result = Pass s r \<longrightarrow>
              s = word_of_nat (length p) \<and> r = word_of_nat (length p) \<and>
              net_datagram net h = Inr (p, target) \<and> last h = RecvFrom (length p + 1) t \<and> net_time net h \<le> t)"
proof (cases "net_unit net [UdpBind (any_address target)]")
  case (Inl e)
  with assms show ?thesis by (auto simp: udp_initiator_def call_def)
next
  case (Inr u)
  with assms have run: "udp_attempts net target p t [0..<5] '''' [UdpBind (any_address target)] = (result, h)"
    by (simp add: udp_initiator_def call_def)
  from udp_attempts_sends [OF run] obtain k where "k \<le> 5" "sends h = replicate k (p, target)" by auto
  moreover from run have "s = word_of_nat (length p) \<and> r = word_of_nat (length p) \<and>
      net_datagram net h = Inr (p, target) \<and> last h = RecvFrom (length p + 1) t \<and> net_time net h \<le> t"
    if "result = Pass s r" for s r using that udp_attempts_Pass by blast
  ultimately show ?thesis by blast
qed

theorem udp_initiator_sound_witness:
  "\<exists>h. udp_initiator (demo_net\<lparr>net_datagram := \<lambda>_. Inr ([0xAA], demo_addr)\<rparr>) demo_addr [0xAA] 5 [] =
         (Pass 1 1, h) \<and> length (sends h) \<le> 5"
proof -
  let ?net = "demo_net\<lparr>net_datagram := \<lambda>_. Inr ([0xAA], demo_addr)\<rparr>"
  have "fst (udp_initiator ?net demo_addr [0xAA] 5 []) = Pass 1 1"
    by (simp add: udp_initiator_def call_def upt_rec [of 0] pause_def send_to_def recv_from_def
        call_within_def and_then_def check_reply_def)
  then obtain h where "udp_initiator ?net demo_addr [0xAA] 5 [] = (Pass 1 1, h)"
    by (metis prod.collapse)
  with udp_initiator_sound [OF this] show ?thesis by auto
qed

end
