(* ===== verification/Tls_Probe.thy ===== *)
theory Tls_Probe
  imports Exchange
begin

text \<open>
  The probe \<open>tls\<close> (\<open>src/test/tls_test.rs\<close>): the kilobyte exchange over a TLS connection without a
  pin. Configuration and certificate are made by the functions of the control connection
  (\<open>Tls_Setup\<close>); the bytes written and read are those of the TLS stream.
\<close>

definition tls_setup :: "string + 'a \<Rightarrow> calls \<Rightarrow> (protocol_result + 'a) \<times> calls" where
  "tls_setup r h = (map_err Error r, h)"

definition handshake :: "net \<Rightarrow> duration \<Rightarrow> calls \<Rightarrow> (protocol_result + unit) \<times> calls" where
  "handshake net timeout h =
     perform (call_within net timeout (Handshake timeout) (net_unit net) h) ''tls-handshake'' 0 0"

definition tls_initiator ::
  "net \<Rightarrow> socket_addr \<Rightarrow> duration \<Rightarrow> calls \<Rightarrow> (protocol_result + protocol_result) \<times> calls" where
  "tls_initiator net target timeout h =
     try_then (tls_setup (make_tls_connector (net_tls net)) h) (\<lambda>_ h0.
     try_then (tls_setup (map_err (\<lambda>e. ''server name: '' @ e) (tl_server_name (net_tls net))) h0) (\<lambda>_ h1.
     try_then (connect net target timeout h1) (\<lambda>_ h2.
     try_then (handshake net timeout h2) (\<lambda>_ h3.
       (case roundtrip net kilobyte_payload timeout h3 of (r, h4) \<Rightarrow> (Inr r, h4))))))"

definition tls_target ::
  "net \<Rightarrow> socket_addr \<Rightarrow> duration \<Rightarrow> calls \<Rightarrow> (protocol_result + protocol_result) \<times> calls" where
  "tls_target net address timeout h =
     try_then (tls_setup (generate_ephemeral_cert (net_tls net)) h) (\<lambda>(certificate, _) h0.
     try_then (tls_setup (make_tls_acceptor (net_tls net) certificate) h0) (\<lambda>_ h1.
     try_then (accept net address timeout h1) (\<lambda>_ h2.
     try_then (handshake net timeout h2) (\<lambda>_ h3.
       (case echo net kilobyte_payload timeout h3 of (r, h4) \<Rightarrow> (Inr r, h4))))))"

definition tls_run :: "net \<Rightarrow> test_context \<Rightarrow> calls \<Rightarrow> protocol_result \<times> calls" where
  "tls_run net ctx h =
     either_result
       (case ctx_direction ctx of
          ClientToServer \<Rightarrow> tls_initiator net (ctx_target_addr ctx) (ctx_timeout ctx) h
        | ServerToClient \<Rightarrow> tls_target net (ctx_target_addr ctx) (ctx_timeout ctx) h)"

definition tls_test :: "net test_protocol" where
  "tls_test =
     \<lparr>proto_name = ''tls'', proto_layer = L7, proto_transports = [Tcp],
      proto_run = run_from_start tls_run\<rparr>"

end
