(* ===== verification/Dns_Packet.thy ===== *)
theory Dns_Packet
  imports Bimap_Prelude
begin

text \<open>
  DNS messages as the probe builds and reads them (\<open>src/packet/dns.rs\<close>). The wire format is the
  library's (hickory-proto): its encoder, decoder, names and the equality of questions are parameters.
\<close>

section \<open>The library\<close>

datatype record_type = TypeA | OtherType u16

datatype rdata = RDataA "32 word" | OtherRData bytes

record dns_query =
  dq_name :: string
  dq_type :: record_type

record dns_record =
  dr_name :: string
  dr_ttl :: u32
  dr_data :: rdata

text \<open>The parts of \<open>Message\<close> the code sets or reads; \<open>dm_code\<close> 0 is \<open>NoError\<close>.\<close>

record dns_message =
  dm_id :: u16
  dm_response :: bool
  dm_recursion_desired :: bool
  dm_code :: nat
  dm_queries :: "dns_query list"
  dm_answers :: "dns_record list"

record dns_lib =
  name_from_utf8 :: "string \<Rightarrow> string + string"
  default_name :: string
  emit :: "dns_message \<Rightarrow> string + bytes"
  from_bytes :: "bytes \<Rightarrow> string + dns_message"
  same_query :: "dns_query \<Rightarrow> dns_query \<Rightarrow> bool"

text \<open>\<open>Message::new()\<close>.\<close>

definition new_message :: dns_message where
  "new_message =
     \<lparr>dm_id = 0, dm_response = False, dm_recursion_desired = False, dm_code = 0, dm_queries = [],
      dm_answers = []\<rparr>"

section \<open>Building and parsing\<close>

definition query_message :: "string \<Rightarrow> u16 \<Rightarrow> dns_message" where
  "query_message name qid =
     new_message\<lparr>dm_id := qid, dm_recursion_desired := True,
       dm_queries := [\<lparr>dq_name = name, dq_type = TypeA\<rparr>]\<rparr>"

definition build_dns_query :: "dns_lib \<Rightarrow> string \<Rightarrow> u16 \<Rightarrow> string + bytes" where
  "build_dns_query D domain qid =
     and_then (map_err (\<lambda>e. ''invalid name: '' @ e) (name_from_utf8 D domain)) (\<lambda>name.
       map_err (\<lambda>e. ''encode query: '' @ e) (emit D (query_message name qid)))"

definition parse_dns_message :: "dns_lib \<Rightarrow> bytes \<Rightarrow> string + dns_message" where
  "parse_dns_message D bytes = map_err (\<lambda>e. ''decode: '' @ e) (from_bytes D bytes)"

text \<open>The answer is always the address 10.0.0.1 for the first name asked for.\<close>

definition response_message :: "dns_lib \<Rightarrow> dns_message \<Rightarrow> dns_message" where
  "response_message D query =
     new_message\<lparr>dm_id := dm_id query, dm_response := True, dm_recursion_desired := True, dm_code := 0,
       dm_queries := dm_queries query,
       dm_answers :=
         [\<lparr>dr_name = (case dm_queries query of [] \<Rightarrow> default_name D | q # _ \<Rightarrow> dq_name q),
           dr_ttl = 300, dr_data = RDataA 0x0A000001\<rparr>]\<rparr>"

definition build_dns_response :: "dns_lib \<Rightarrow> dns_message \<Rightarrow> string + bytes" where
  "build_dns_response D query =
     map_err (\<lambda>e. ''encode response: '' @ e) (emit D (response_message D query))"

lemma query_message_fields [simp]:
  "dm_id (query_message n i) = i" "dm_queries (query_message n i) = [\<lparr>dq_name = n, dq_type = TypeA\<rparr>]"
  "dm_response (query_message n i) = False"
  by (simp_all add: query_message_def new_message_def)

lemma response_message_fields [simp]:
  "dm_id (response_message D q) = dm_id q" "dm_queries (response_message D q) = dm_queries q"
  "dm_response (response_message D q)"
  by (simp_all add: response_message_def new_message_def)

end
