(* ===== verification/Dns_Probe.thy ===== *)
theory Dns_Probe
  imports Port_Probes Dns_Packet
begin

text \<open>
  The probe \<open>dns\<close> (\<open>src/test/dns.rs\<close>): a query and its response over UDP, with retries, or over TCP
  with a length prefix, under one deadline for the whole exchange.
\<close>

section \<open>Responses\<close>

definition validate_dns_response :: "dns_lib \<Rightarrow> bytes \<Rightarrow> bytes \<Rightarrow> string + unit" where
  "validate_dns_response D query_bytes response_bytes =
     and_then (parse_dns_message D query_bytes) (\<lambda>query.
     and_then (parse_dns_message D response_bytes) (\<lambda>response.
       if \<not> dm_response response then Inl ''dns-malformed: not a response''
       else if dm_id response \<noteq> dm_id query then Inl ''dns-mismatch: transaction ID''
       else if \<not> list_all2 (same_query D) (dm_queries response) (dm_queries query) \<or> dm_queries query = []
       then Inl ''dns-mismatch: question section''
       else Inr ()))"

text \<open>The identifier comes from a counter all runs of the probe share.\<close>

definition next_query :: "dns_lib \<Rightarrow> net \<Rightarrow> calls \<Rightarrow> (protocol_result + bytes) \<times> calls" where
  "next_query D net h =
     (case call FetchId (net_id net) h of (qid, h') \<Rightarrow>
        (map_err (\<lambda>e. Error (''query: '' @ e)) (build_dns_query D ''bimap.test'' qid), h'))"

section \<open>UDP\<close>

primrec dns_udp_attempts ::
  "dns_lib \<Rightarrow> net \<Rightarrow> socket_addr \<Rightarrow> bytes \<Rightarrow> duration \<Rightarrow> duration \<Rightarrow> nat list \<Rightarrow> string \<Rightarrow> calls \<Rightarrow>
   protocol_result \<times> calls" where
  "dns_udp_attempts D net target query timeout receive_timeout [] last_err h =
     (failure last_err (length query) 0, h)"
| "dns_udp_attempts D net target query timeout receive_timeout (attempt # rest) last_err h =
     (let again = dns_udp_attempts D net target query timeout receive_timeout rest in
      case send_to net query target timeout (pause attempt (from_millis 20) h) of
        (Completed (Inl e), h1) \<Rightarrow> again (''send: '' @ io_text e) h1
      | (Elapsed, h1) \<Rightarrow> again ''send timeout: deadline has elapsed'' h1
      | (Completed (Inr _), h1) \<Rightarrow>
          (case recv_from net 1500 receive_timeout h1 of
             (Completed (Inr (response, source)), h2) \<Rightarrow>
               (case validate_dns_response D query response of
                  Inr _ \<Rightarrow> (Pass (word_of_nat (length query)) (word_of_nat (length response)), h2)
                | Inl e \<Rightarrow> again (''dns-malformed: '' @ e) h2)
           | (Completed (Inl e), h2) \<Rightarrow> again (''recv: '' @ io_text e) h2
           | (Elapsed, h2) \<Rightarrow> again ''timeout'' h2))"

definition dns_udp_initiator ::
  "dns_lib \<Rightarrow> net \<Rightarrow> socket_addr \<Rightarrow> duration \<Rightarrow> calls \<Rightarrow> protocol_result \<times> calls" where
  "dns_udp_initiator D net target timeout h =
     (case call (UdpBind (any_address target)) (net_unit net) h of
        (Inl e, h') \<Rightarrow> (Error (''bind: '' @ io_text e), h')
      | (Inr _, h') \<Rightarrow>
          either_result (try_then (next_query D net h') (\<lambda>query h1.
            (case dns_udp_attempts D net target query timeout (min (timeout div 5) (from_millis 200))
                    [0..<5] '''' h1 of (r, h2) \<Rightarrow> (Inr r, h2)))))"

text \<open>What the target does with a datagram it received.\<close>

definition dns_answer :: "dns_lib \<Rightarrow> net \<Rightarrow> bytes \<Rightarrow> socket_addr \<Rightarrow> calls \<Rightarrow> protocol_result \<times> calls" where
  "dns_answer D net received source h =
     (let n = length received in
      case parse_dns_message D received of
        Inl e \<Rightarrow> (failure (''dns-malformed: '' @ e) 0 n, h)
      | Inr query \<Rightarrow>
          (case build_dns_response D query of
             Inl e \<Rightarrow> (Error (''response: '' @ e), h)
           | Inr response \<Rightarrow>
               (case call (SendTo response source None) (net_unit net) h of
                  (Inl e, h') \<Rightarrow> (failure (''send response: '' @ io_text e) (length response) n, h')
                | (Inr _, h') \<Rightarrow> (Pass (word_of_nat (length response)) (word_of_nat n), h'))))"

primrec dns_udp_target_attempts ::
  "dns_lib \<Rightarrow> net \<Rightarrow> nat \<Rightarrow> string \<Rightarrow> calls \<Rightarrow> protocol_result \<times> calls" where
  "dns_udp_target_attempts D net 0 last_err h = (failure last_err 0 0, h)"
| "dns_udp_target_attempts D net (Suc n) last_err h =
     (case recv_from net 1500 (from_millis 1000) h of
        (Completed (Inr (received, source)), h1) \<Rightarrow> dns_answer D net received source h1
      | (Completed (Inl e), h1) \<Rightarrow> dns_udp_target_attempts D net n (''recv: '' @ io_text e) h1
      | (Elapsed, h1) \<Rightarrow> dns_udp_target_attempts D net n ''recv timeout'' h1)"

definition dns_udp_target :: "dns_lib \<Rightarrow> net \<Rightarrow> socket_addr \<Rightarrow> calls \<Rightarrow> protocol_result \<times> calls" where
  "dns_udp_target D net addr h =
     (case call (UdpBind addr) (net_unit net) h of
        (Inl e, h') \<Rightarrow> (Error (''bind: '' @ io_text e), h')
      | (Inr _, h') \<Rightarrow> dns_udp_target_attempts D net 5 '''' h')"

section \<open>TCP\<close>

text \<open>An operation under its timeout, with the reasons of its two ways to fail.\<close>

definition stage ::
  "'a timed \<times> calls \<Rightarrow> string \<Rightarrow> string \<Rightarrow> nat \<Rightarrow> nat \<Rightarrow> (protocol_result + 'a) \<times> calls" where
  "stage operation on_error on_timeout sent received =
     (case operation of
        (Completed (Inr v), h) \<Rightarrow> (Inr v, h)
      | (Completed (Inl e), h) \<Rightarrow> (Inl (failure (on_error @ io_text e) sent received), h)
      | (Elapsed, h) \<Rightarrow> (Inl (failure on_timeout sent received), h))"

definition framed :: "bytes \<Rightarrow> bytes" where
  "framed message = to_be_bytes (word_of_nat (length message)) @ message"

definition frame_length :: "bytes \<Rightarrow> nat" where
  "frame_length len_buf = unat (from_be_bytes (len_buf ! 0) (len_buf ! 1))"

definition dns_tcp_initiator ::
  "dns_lib \<Rightarrow> net \<Rightarrow> socket_addr \<Rightarrow> duration \<Rightarrow> calls \<Rightarrow> protocol_result \<times> calls" where
  "dns_tcp_initiator D net target timeout h =
     either_result
       (try_then (connect net target timeout h) (\<lambda>_ h0.
        try_then (next_query D net h0) (\<lambda>query h1.
        let sent = length (framed query) in
        try_then (stage (write_all net (framed query) timeout h1) ''write: '' ''timeout'' sent 0) (\<lambda>_ h2.
        try_then (stage (call_within net timeout (Flush timeout) (net_unit net) h2) ''flush: '' ''timeout''
                    sent 0) (\<lambda>_ h3.
        try_then (stage (read_exact net 2 timeout h3) ''read len: '' ''timeout'' sent 0) (\<lambda>len_buf h4.
        let response_len = frame_length len_buf in
        if response_len = 0 then (Inr (failure ''dns-malformed: bad length'' sent 0), h4)
        else try_then (stage (read_exact net response_len timeout h4) ''read body: '' ''timeout'' sent 0)
          (\<lambda>response h5.
             (Inr (case validate_dns_response D query response of
                     Inr _ \<Rightarrow> Pass (word_of_nat sent) (word_of_nat (2 + response_len))
                   | Inl e \<Rightarrow> failure e sent (2 + response_len)), h5))))))))"

definition dns_tcp_answer :: "dns_lib \<Rightarrow> net \<Rightarrow> bytes \<Rightarrow> calls \<Rightarrow> protocol_result \<times> calls" where
  "dns_tcp_answer D net query_buf h =
     (let query_len = length query_buf in
      case parse_dns_message D query_buf of
        Inl e \<Rightarrow> (failure (''dns-malformed: '' @ e) 0 query_len, h)
      | Inr query \<Rightarrow>
          (case build_dns_response D query of
             Inl e \<Rightarrow> (Error (''response: '' @ e), h)
           | Inr response \<Rightarrow>
               let sent = length (framed response) in
               (case call (WriteAll (framed response) None) (net_unit net) h of
                  (Inl e, h') \<Rightarrow> (failure (''write: '' @ io_text e) sent (2 + query_len), h')
                | (Inr _, h') \<Rightarrow> (Pass (word_of_nat sent) (word_of_nat (2 + query_len)), h'))))"

definition dns_tcp_target ::
  "dns_lib \<Rightarrow> net \<Rightarrow> socket_addr \<Rightarrow> duration \<Rightarrow> calls \<Rightarrow> protocol_result \<times> calls" where
  "dns_tcp_target D net addr timeout h =
     (case call (TcpBind addr) (net_unit net) h of
        (Inl e, h0) \<Rightarrow> (Error (''bind: '' @ io_text e), h0)
      | (Inr _, h0) \<Rightarrow>
          either_result
            (try_then (stage (call_within net timeout (TcpAccept timeout) (net_unit net) h0)
                         ''accept: '' ''timeout'' 0 0) (\<lambda>_ h1.
             try_then (stage (read_exact net 2 timeout h1) ''read len: '' ''read len: timeout'' 0 0)
               (\<lambda>len_buf h2.
             let query_len = frame_length len_buf in
             if query_len = 0 then (Inr (failure (''invalid query length: '' @ show_nat query_len) 0 0), h2)
             else try_then (stage (read_exact net query_len timeout h2) ''read body: '' ''read body: timeout''
                              0 (2 + query_len)) (\<lambda>query_buf h3.
               (case dns_tcp_answer D net query_buf h3 of (r, h4) \<Rightarrow> (Inr r, h4)))))))"

section \<open>The probe\<close>

definition dns_operation :: "dns_lib \<Rightarrow> net \<Rightarrow> test_context \<Rightarrow> calls \<Rightarrow> protocol_result \<times> calls" where
  "dns_operation D net ctx h =
     (case (ctx_transport ctx, ctx_direction ctx) of
        (Tcp, ClientToServer) \<Rightarrow> dns_tcp_initiator D net (ctx_target_addr ctx) (ctx_timeout ctx) h
      | (Tcp, ServerToClient) \<Rightarrow> dns_tcp_target D net (ctx_target_addr ctx) (ctx_timeout ctx) h
      | (Udp, ClientToServer) \<Rightarrow> dns_udp_initiator D net (ctx_target_addr ctx) (ctx_timeout ctx) h
      | (Udp, ServerToClient) \<Rightarrow> dns_udp_target D net (ctx_target_addr ctx) h
      | (Icmp, _) \<Rightarrow> (Error ''ICMP not supported by DNS test'', h))"

definition dns_run :: "dns_lib \<Rightarrow> net \<Rightarrow> test_context \<Rightarrow> calls \<Rightarrow> protocol_result \<times> calls" where
  "dns_run D net ctx h =
     (case dns_operation D net ctx h of (r, h') \<Rightarrow>
        (if elapsed net h' - elapsed net h \<le> ctx_timeout ctx then r else Fail ''timeout'' 0 0, h'))"

definition dns_test :: "dns_lib \<Rightarrow> net test_protocol" where
  "dns_test D =
     \<lparr>proto_name = ''dns'', proto_layer = L7, proto_transports = [Tcp, Udp],
      proto_run = run_from_start (dns_run D)\<rparr>"

section \<open>What a response must be\<close>

lemma validate_dns_response_iff:
  "validate_dns_response D q r = Inr u \<longleftrightarrow>
     (\<exists>query response. from_bytes D q = Inr query \<and> from_bytes D r = Inr response \<and>
        dm_response response \<and> dm_id response = dm_id query \<and> dm_queries query \<noteq> [] \<and>
        list_all2 (same_query D) (dm_queries response) (dm_queries query))"
  by (auto simp: validate_dns_response_def parse_dns_message_def and_then_Inr_iff split: if_splits)

lemma next_query_ok:
  assumes "name_from_utf8 D ''bimap.test'' = Inr n"
    and "emit D (query_message n (net_id net (h @ [FetchId]))) = Inr q"
  shows "next_query D net h = (Inr q, h @ [FetchId])"
  using assms by (simp add: next_query_def call_def build_dns_query_def and_then_def)

section \<open>TCP: both ends of a connection\<close>

text \<open>The bytes read before the last call; a stream gives the bytes its peer wrote, in order.\<close>

fun read_size :: "io_call \<Rightarrow> nat" where
  "read_size (ReadExact n t) = n"
| "read_size _ = 0"

definition bytes_read :: "calls \<Rightarrow> nat" where
  "bytes_read h = sum_list (map read_size h)"

definition streams_from :: "net \<Rightarrow> calls \<Rightarrow> bool" where
  "streams_from net peer \<longleftrightarrow> (\<forall>h. net_bytes net h = Inr (drop (bytes_read (butlast h)) (written peer)))"

lemma read_streamed:
  assumes "prompt net t" and "streams_from net peer" and "written peer = before @ bs @ after"
    and "bytes_read h = length before" and "length bs = n"
  shows "read_exact net n t h = (Completed (Inr bs), h @ [ReadExact n t])"
  using assms by (simp add: prompt_read_exact streams_from_def exactly_def and_then_def)

lemma frame_length_framed [simp]:
  "length bs < 65536 \<Longrightarrow> frame_length (to_be_bytes (word_of_nat (length bs))) = length bs"
  unfolding frame_length_def from_to_be_bytes by (simp add: unat_of_nat)

lemma length_framed [simp]: "length (framed bs) = length bs + 2"
  by (simp add: framed_def)

lemma stage_simps [simp]:
  "stage (Completed (Inr v), h) e t s r = (Inr v, h)"
  "stage (Completed (Inl x), h) e t s r = (Inl (failure (e @ io_text x) s r), h)"
  "stage (Elapsed, h) e t s r = (Inl (failure t s r), h)"
  by (simp_all add: stage_def)

text \<open>The initiator has written its query before it reads, whatever it reads.\<close>

lemma dns_tcp_initiator_writes:
  assumes "prompt net t" and "next_query D net [Connect target t] = (Inr q, [Connect target t, FetchId])"
  shows "written (snd (dns_tcp_initiator D net target t [])) = framed q"
proof -
  let ?h = "[Connect target t, FetchId, WriteAll (framed q) (Some t), Flush t, ReadExact 2 t]"
  show ?thesis
  proof (cases "exactly 2 (net_bytes net ?h)")
    case (Inl e)
    then show ?thesis
      by (simp add: dns_tcp_initiator_def prompt_connect prompt_write_all prompt_read_exact assms
          prompt_call(2) [OF assms(1)] Let_def)
  next
    case (Inr len)
    then show ?thesis
      by (cases "exactly (frame_length len) (net_bytes net (?h @ [ReadExact (frame_length len) t]))")
        (simp_all add: dns_tcp_initiator_def prompt_connect prompt_write_all prompt_read_exact assms
          prompt_call(2) [OF assms(1)] Let_def)
  qed
qed

lemma dns_tcp_target_ok:
  assumes "prompt net t" and "streams_from net peer" and "written peer = framed q"
    and "0 < length q" and "length q < 65536" and "from_bytes D q = Inr m"
    and "emit D (response_message D m) = Inr r"
  shows "dns_tcp_target D net address t [] =
    (Pass (word_of_nat (2 + length r)) (word_of_nat (2 + length q)),
     [TcpBind address, TcpAccept t, ReadExact 2 t, ReadExact (length q) t, WriteAll (framed r) None])"
proof -
  let ?len = "to_be_bytes (word_of_nat (length q))"
  have "read_exact net 2 t [TcpBind address, TcpAccept t] =
      (Completed (Inr ?len), [TcpBind address, TcpAccept t] @ [ReadExact 2 t])"
    by (rule read_streamed [OF assms(1,2), of "[]" _ q])
      (simp_all add: assms(3) framed_def bytes_read_def)
  moreover have "read_exact net (length q) t [TcpBind address, TcpAccept t, ReadExact 2 t] =
      (Completed (Inr q), [TcpBind address, TcpAccept t, ReadExact 2 t] @ [ReadExact (length q) t])"
    by (rule read_streamed [OF assms(1,2), of ?len _ "[]"])
      (simp_all add: assms(3) framed_def bytes_read_def)
  ultimately show ?thesis
    using assms(4-7) prompt_call(2) [OF assms(1)]
    by (simp add: dns_tcp_target_def call_def prompt_call(1) [OF assms(1)] Let_def dns_tcp_answer_def
        parse_dns_message_def build_dns_response_def add.commute)
qed

lemma dns_tcp_initiator_ok:
  assumes "prompt net t" and "next_query D net [Connect target t] = (Inr q, [Connect target t, FetchId])"
    and "streams_from net peer" and "written peer = framed r" and "0 < length r" and "length r < 65536"
    and "validate_dns_response D q r = Inr ()"
  shows "fst (dns_tcp_initiator D net target t []) =
    Pass (word_of_nat (2 + length q)) (word_of_nat (2 + length r))"
proof -
  let ?len = "to_be_bytes (word_of_nat (length r))"
  let ?h = "[Connect target t, FetchId, WriteAll (framed q) (Some t), Flush t]"
  have "read_exact net 2 t ?h = (Completed (Inr ?len), ?h @ [ReadExact 2 t])"
    by (rule read_streamed [OF assms(1,3), of "[]" _ r])
      (simp_all add: assms(4) framed_def bytes_read_def)
  moreover have "read_exact net (length r) t (?h @ [ReadExact 2 t]) =
      (Completed (Inr r), (?h @ [ReadExact 2 t]) @ [ReadExact (length r) t])"
    by (rule read_streamed [OF assms(1,3), of ?len _ "[]"])
      (simp_all add: assms(4) framed_def bytes_read_def)
  ultimately show ?thesis
    using assms(5-7)
    by (simp add: dns_tcp_initiator_def prompt_connect prompt_write_all assms(1,2)
        prompt_call(2) [OF assms(1)] Let_def add.commute)
qed

section \<open>UDP: the source of a response\<close>

text \<open>The same network, but the datagrams carry other source addresses.\<close>

definition with_sources :: "(calls \<Rightarrow> socket_addr) \<Rightarrow> net \<Rightarrow> net" where
  "with_sources source net =
     net\<lparr>net_datagram := \<lambda>h. and_then (net_datagram net h) (\<lambda>(bs, _). Inr (bs, source h))\<rparr>"

lemma recv_from_sources:
  "recv_from (with_sources source net) n t h =
     (case recv_from net n t h of
        (Completed (Inr (bs, _)), h') \<Rightarrow> (Completed (Inr (bs, source h')), h')
      | (r, h') \<Rightarrow> (r, h'))"
  by (cases "net_datagram net (h @ [RecvFrom n t])")
    (auto simp: recv_from_def call_within_def with_sources_def and_then_def split: prod.splits)

lemma with_sources_calls [simp]:
  "call_within (with_sources source net) = call_within net" "net_unit (with_sources source net) = net_unit net"
  "send_to (with_sources source net) = send_to net" "next_query D (with_sources source net) = next_query D net"
  by (simp_all add: with_sources_def call_within_def send_to_def next_query_def fun_eq_iff)

lemma dns_udp_attempts_sources:
  "dns_udp_attempts D (with_sources source net) target q t rt attempts e h =
     dns_udp_attempts D net target q t rt attempts e h"
proof (induction attempts arbitrary: e h)
  case Nil
  then show ?case by simp
next
  case (Cons attempt rest)
  then show ?case
    by (auto simp: recv_from_sources Let_def split: prod.splits timed.splits sum.splits)
qed

section \<open>Properties\<close>

text \<open>
  Property C17: the two ends of the DNS probe over TCP agree. When the library parses back the query
  and the response it encoded and they fit the length prefix, then on a prompt connection that
  delivers what was written both ends pass, each having received what the other sent.
\<close>

theorem dns_tcp_ends_agree:
  assumes "prompt ni t" and "prompt nt t"
    and "name_from_utf8 D ''bimap.test'' = Inr n"
    and "emit D (query_message n (net_id ni [Connect target t, FetchId])) = Inr q"
    and "from_bytes D q = Inr m" and "m = query_message n (net_id ni [Connect target t, FetchId])"
    and "emit D (response_message D m) = Inr r" and "from_bytes D r = Inr (response_message D m)"
    and "\<And>x. same_query D x x"
    and "0 < length q" and "length q < 65536" and "0 < length r" and "length r < 65536"
    and "streams_from nt (snd (dns_tcp_initiator D ni target t []))"
    and "streams_from ni (snd (dns_tcp_target D nt address t []))"
  shows "fst (dns_tcp_initiator D ni target t []) = Pass (word_of_nat (2 + length q)) (word_of_nat (2 + length r)) \<and>
         fst (dns_tcp_target D nt address t []) = Pass (word_of_nat (2 + length r)) (word_of_nat (2 + length q))"
proof -
  have query: "next_query D ni [Connect target t] = (Inr q, [Connect target t, FetchId])"
    using next_query_ok [OF assms(3), of ni "[Connect target t]" q] assms(4) by simp
  note wi = dns_tcp_initiator_writes [OF assms(1) query]
  note target = dns_tcp_target_ok [OF assms(2,14) wi assms(10,11,5,7), of address]
  then have wt: "written (snd (dns_tcp_target D nt address t [])) = framed r" by simp
  have "validate_dns_response D q r = Inr ()"
    using assms(5,6,8,9) by (auto simp: validate_dns_response_iff)
  from dns_tcp_initiator_ok [OF assms(1) query assms(15) wt assms(12,13) this] target show ?thesis by simp
qed

text \<open>A library that knows two messages: the query with the number 7, and the response to it.\<close>

definition demo_query :: dns_message where
  "demo_query = query_message ''bimap.test'' 7"

definition demo_dns :: dns_lib where
  "demo_dns =
     \<lparr>name_from_utf8 = Inr, default_name = [],
      emit = (\<lambda>m. Inr (if dm_response m then [1] else [0])),
      from_bytes = (\<lambda>bs. Inr (if bs = [0] then demo_query
         else \<lparr>dm_id = 7, dm_response = True, dm_recursion_desired = True, dm_code = 0,
               dm_queries = dm_queries demo_query,
               dm_answers = [\<lparr>dr_name = ''bimap.test'', dr_ttl = 300, dr_data = RDataA 0x0A000001\<rparr>]\<rparr>)),
      same_query = (=)\<rparr>"

theorem dns_tcp_ends_agree_witness:
  "fst (dns_tcp_target demo_dns
          (demo_net\<lparr>net_bytes := \<lambda>h. Inr (drop (bytes_read (butlast h)) [0, 1, 0])\<rparr>) demo_addr 5 []) = Pass 3 3"
proof -
  let ?ni = "demo_net\<lparr>net_bytes := \<lambda>h. Inr (drop (bytes_read (butlast h)) [0, 1, 1])\<rparr>"
  let ?nt = "demo_net\<lparr>net_bytes := \<lambda>h. Inr (drop (bytes_read (butlast h)) [0, 1, 0])\<rparr>"
  have p: "prompt ?ni 5" "prompt ?nt 5" by (simp_all add: prompt_def)
  have f: "framed [0] = [0, 1, 0]" "framed [1] = [0, 1, 1]" by (simp_all add: framed_def to_be_bytes_def)
  have lib: "name_from_utf8 demo_dns ''bimap.test'' = Inr ''bimap.test''"
    "emit demo_dns (query_message n i) = Inr [0]" "emit demo_dns (response_message demo_dns m) = Inr [1]"
    "from_bytes demo_dns [0] = Inr demo_query" "same_query demo_dns x x"
    "from_bytes demo_dns [1] = Inr (response_message demo_dns demo_query)" for n i x m
    by (simp_all add: demo_dns_def demo_query_def response_message_def new_message_def query_message_def)
  have query: "next_query demo_dns ?ni [Connect demo_addr 5] = (Inr [0], [Connect demo_addr 5, FetchId])"
    using next_query_ok [OF lib(1), of ?ni "[Connect demo_addr 5]" "[0]"] lib by simp
  have "written (snd (dns_tcp_initiator demo_dns ?ni demo_addr 5 [])) = [0, 1, 0]"
    using dns_tcp_initiator_writes [OF p(1) query] f by simp
  then have s: "streams_from ?nt (snd (dns_tcp_initiator demo_dns ?ni demo_addr 5 []))"
    by (simp add: streams_from_def)
  have "written (snd (dns_tcp_target demo_dns ?nt demo_addr 5 [])) = [0, 1, 1]"
    using dns_tcp_target_ok [OF p(2) s, of "[0]" demo_dns demo_query "[1]" demo_addr]
      dns_tcp_initiator_writes [OF p(1) query] lib f by simp
  then have s': "streams_from ?ni (snd (dns_tcp_target demo_dns ?nt demo_addr 5 []))"
    by (simp add: streams_from_def)
  show ?thesis
    using dns_tcp_ends_agree [OF p lib(1) lib(2) lib(4) _ lib(3,6,5) _ _ _ _ s s']
    by (simp add: demo_query_def)
qed

text \<open>
  Property C24: over UDP the result of the DNS probe does not depend on where its responses come from:
  a response from any address is taken as the target's.
\<close>

theorem dns_udp_ignores_source:
  "dns_udp_initiator D (with_sources source net) target t h = dns_udp_initiator D net target t h"
  by (cases "net_unit net (h @ [UdpBind (any_address target)])")
    (simp_all add: dns_udp_initiator_def dns_udp_attempts_sources call_def)

end
