(* ===== verification/Icmp_Packet.thy ===== *)
theory Icmp_Packet
  imports Bimap_Prelude
begin

text \<open>
  ICMP packets: the types the full scan sends (\<open>src/packet/icmp.rs\<close>), the request the probe builds
  and the test whether a packet is its reply (\<open>src/test/icmp.rs\<close>). The checksum and the reading of the
  IP header are the library's (pnet).
\<close>

section \<open>Types\<close>

definition ICMP_TYPE_ECHO_REPLY :: u8 where
  "ICMP_TYPE_ECHO_REPLY = 0"

definition ALL_ICMP_TYPES :: "(u8 \<times> string) list" where
  "ALL_ICMP_TYPES =
     [(0, ''echo-reply''),
      (3, ''dest-unreachable''),
      (4, ''source-quench''),
      (5, ''redirect''),
      (8, ''echo-request''),
      (9, ''router-advertisement''),
      (10, ''router-solicitation''),
      (11, ''time-exceeded''),
      (12, ''param-problem''),
      (13, ''timestamp''),
      (14, ''timestamp-reply''),
      (15, ''info-request''),
      (16, ''info-reply''),
      (17, ''address-mask''),
      (18, ''address-mask-reply''),
      (30, ''traceroute''),
      (31, ''datagram-conversion''),
      (33, ''ipv6-where-are-you''),
      (34, ''ipv6-i-am-here''),
      (35, ''mobile-registration''),
      (37, ''domain-name-request''),
      (38, ''domain-name-reply''),
      (40, ''photuris''),
      (42, ''extended-echo'')]"

section \<open>The library\<close>

record ipv4_view =
  get_header_length :: u8
  get_source :: "32 word"

record pnet_lib =
  pnet_checksum :: "bytes \<Rightarrow> nat \<Rightarrow> u16"
  ipv4_new :: "bytes \<Rightarrow> ipv4_view option"

section \<open>Requests\<close>

definition build_icmp_echo :: "pnet_lib \<Rightarrow> u8 \<Rightarrow> u16 \<Rightarrow> u16 \<Rightarrow> bytes \<Rightarrow> bytes" where
  "build_icmp_echo P icmp_type ident seq payload =
     (let packet = [icmp_type, 0] @ [0, 0] @ to_be_bytes ident @ to_be_bytes seq @ payload;
          csum = pnet_checksum P packet (length packet)
      in take 2 packet @ to_be_bytes csum @ drop 4 packet)"

definition bimap_bytes :: bytes where
  "bimap_bytes = bytes_of_string ''bimap''"

definition request_payload :: "u8 \<Rightarrow> bytes" where
  "request_payload icmp_type =
     (if icmp_type = 13 then replicate 12 0
      else if icmp_type = 15 then []
      else if icmp_type = 17 then replicate 4 0
      else bimap_bytes)"

section \<open>Replies\<close>

definition ip_header_len :: "pnet_lib \<Rightarrow> bytes \<Rightarrow> nat option" where
  "ip_header_len P buf = map_option (\<lambda>packet. unat (get_header_length packet) * 4) (ipv4_new P buf)"

definition expected_type_of :: "u8 \<Rightarrow> u8 option" where
  "expected_type_of icmp_type =
     (if icmp_type = 8 then Some ICMP_TYPE_ECHO_REPLY
      else if icmp_type = 13 then Some 14
      else if icmp_type = 15 then Some 16
      else if icmp_type = 17 then Some 18
      else if icmp_type = 42 then Some 43
      else None)"

text \<open>The payload a reply must carry, if any, and its least length.\<close>

definition expected_reply_payload :: "u8 \<Rightarrow> bytes option \<times> nat" where
  "expected_reply_payload icmp_type =
     (if icmp_type = 8 then (Some bimap_bytes, 5)
      else if icmp_type = 13 then (None, 12)
      else if icmp_type = 15 then (None, 0)
      else if icmp_type = 17 then (None, 4)
      else (None, 0))"

definition reply_matches ::
  "bytes \<Rightarrow> nat \<Rightarrow> u8 \<Rightarrow> u16 \<Rightarrow> u16 \<Rightarrow> bytes option \<Rightarrow> nat \<Rightarrow> bool" where
  "reply_matches packet offset expected_type ident sequence expected_payload minimum_payload_len =
     (if offset + 8 > length packet \<or> packet ! offset \<noteq> expected_type then False
      else
        let reply_id = from_be_bytes (packet ! (offset + 4)) (packet ! (offset + 5));
            reply_sequence = from_be_bytes (packet ! (offset + 6)) (packet ! (offset + 7));
            payload = drop (offset + 8) packet
        in reply_id = ident \<and> reply_sequence = sequence \<and> length payload \<ge> minimum_payload_len \<and>
           (case expected_payload of None \<Rightarrow> True | Some expected \<Rightarrow> payload = expected))"

text \<open>Whether a received packet is the reply to the request with this type, number and sequence.\<close>

definition is_reply :: "pnet_lib \<Rightarrow> 32 word \<Rightarrow> u16 \<Rightarrow> u16 \<Rightarrow> u8 \<Rightarrow> bytes \<Rightarrow> bool" where
  "is_reply P dest ident seq icmp_type packet =
     (case ip_header_len P packet of
        None \<Rightarrow> False
      | Some offset \<Rightarrow>
          if offset + 8 > length packet then False
          else
            let source_matches =
                  (case ipv4_new P packet of None \<Rightarrow> False | Some view \<Rightarrow> get_source view = dest);
                (expected_payload, minimum_payload_len) = expected_reply_payload icmp_type
            in (case expected_type_of icmp_type of
                  None \<Rightarrow> False
                | Some expected_type \<Rightarrow>
                    reply_matches packet offset expected_type ident seq expected_payload
                      minimum_payload_len) \<and> source_matches)"

section \<open>Lemmas\<close>

lemma to_be_bytes_nth:
  "from_be_bytes (to_be_bytes w ! 0) (to_be_bytes w ! Suc 0) = w"
  using from_to_be_bytes [of w] by (simp only: One_nat_def)

lemma build_icmp_echo_parts:
  "build_icmp_echo P ty ident seq payload =
     [ty, 0] @ to_be_bytes (pnet_checksum P ([ty, 0, 0, 0] @ to_be_bytes ident @ to_be_bytes seq @ payload)
                  (8 + length payload)) @ to_be_bytes ident @ to_be_bytes seq @ payload"
  by (simp add: build_icmp_echo_def Let_def eval_nat_numeral)

text \<open>A packet built with a header in front is a reply exactly when its four parts fit.\<close>

lemma reply_matches_built:
  "reply_matches (header @ build_icmp_echo P ty ident seq payload) (length header) ty' ident' seq' expected least \<longleftrightarrow>
     ty = ty' \<and> ident = ident' \<and> seq = seq' \<and> least \<le> length payload \<and>
     (case expected of None \<Rightarrow> True | Some e \<Rightarrow> payload = e)"
proof -
  define c where "c = to_be_bytes (pnet_checksum P ([ty, 0, 0, 0] @ to_be_bytes ident @ to_be_bytes seq @ payload)
                  (8 + length payload))"
  obtain c1 c2 where c: "c = [c1, c2]" by (simp add: c_def to_be_bytes_def)
  obtain i1 i2 where i: "to_be_bytes ident = [i1, i2]" by (simp add: to_be_bytes_def)
  obtain s1 s2 where s: "to_be_bytes seq = [s1, s2]" by (simp add: to_be_bytes_def)
  have built: "build_icmp_echo P ty ident seq payload = [ty, 0, c1, c2, i1, i2, s1, s2] @ payload"
    unfolding build_icmp_echo_parts c_def [symmetric] unfolding c i s by simp
  have "from_be_bytes i1 i2 = ident" "from_be_bytes s1 s2 = seq"
    using to_be_bytes_nth [of ident] to_be_bytes_nth [of seq] by (simp_all add: i s del: from_be_bytes.simps)
  then show ?thesis
    by (auto simp: reply_matches_def built nth_append Let_def simp del: from_be_bytes.simps)
qed

lemma expected_type_of_reply [simp]: "expected_type_of 0 = None"
  by (simp add: expected_type_of_def)

lemma is_replyD:
  assumes "is_reply P dest ident seq ty packet"
  obtains view expected where "ipv4_new P packet = Some view" and "get_source view = dest"
    and "expected_type_of ty = Some expected"
    and "reply_matches packet (unat (get_header_length view) * 4) expected ident seq
           (fst (expected_reply_payload ty)) (snd (expected_reply_payload ty))"
  using assms
  by (auto simp: is_reply_def ip_header_len_def split: option.splits if_splits prod.splits)

end
