(* ===== verification/Icmp_Probe.thy ===== *)
theory Icmp_Probe
  imports Probe_Io Exchange Icmp_Packet
begin

text \<open>
  The probes \<open>icmp-ping\<close>, which runs the \<open>ping\<close> command, and \<open>icmp-full\<close>, which sends one request of
  every ICMP type over raw sockets and waits for the reply (\<open>src/test/icmp.rs\<close>).
\<close>

section \<open>Sockets\<close>

definition close_fd :: "nat \<Rightarrow> calls \<Rightarrow> calls" where
  "close_fd fd h = h @ [CloseFd fd]"

definition has_icmp_capability :: "net \<Rightarrow> calls \<Rightarrow> bool \<times> calls" where
  "has_icmp_capability net h =
     (case call (RawSocket SockDgram) (net_fd net) h of
        (Inr fd, h1) \<Rightarrow> (True, close_fd fd h1)
      | (Inl _, h1) \<Rightarrow>
          (case call (RawSocket SockRaw) (net_fd net) h1 of
             (Inr fd, h2) \<Rightarrow> (True, close_fd fd h2)
           | (Inl _, h2) \<Rightarrow> (False, h2)))"

definition create_raw_socket :: "net \<Rightarrow> calls \<Rightarrow> (string + nat) \<times> calls" where
  "create_raw_socket net h =
     (case call (RawSocket SockRaw) (net_fd net) h of
        (Inr fd, h1) \<Rightarrow> (Inr fd, h1)
      | (Inl err, h1) \<Rightarrow> (Inl (''socket: '' @ io_text err), h1))"

text \<open>A receive timeout of zero would mean to wait for ever, hence at least a microsecond.\<close>

definition from_micros :: "nat \<Rightarrow> duration" where
  "from_micros us = us * 1000"

definition timeval_of :: "duration \<Rightarrow> timeval" where
  "timeval_of timeout =
     (let t = max timeout (from_micros 1)
      in (t div from_secs 1, t mod from_secs 1 div from_micros 1))"

definition set_socket_timeout :: "net \<Rightarrow> nat \<Rightarrow> duration \<Rightarrow> calls \<Rightarrow> (string + unit) \<times> calls" where
  "set_socket_timeout net fd timeout h =
     (case call (SetRcvTimeo fd (timeval_of timeout)) (net_unit net) h of
        (Inl err, h1) \<Rightarrow> (Inl (''setsockopt: '' @ io_text err), h1)
      | (Inr _, h1) \<Rightarrow> (Inr (), h1))"

lemma set_socket_timeout_calls:
  "set_socket_timeout net fd t h = (r, h1) \<Longrightarrow> h1 = h @ [SetRcvTimeo fd (timeval_of t)]"
  by (auto simp: set_socket_timeout_def call_def split: sum.splits)

definition ipv4_octets :: "32 word \<Rightarrow> bytes" where
  "ipv4_octets a = map (\<lambda>k. word_of_nat (unat a div 256 ^ k mod 256)) [3, 2, 1, 0]"

definition to_sockaddr_in :: "32 word \<Rightarrow> sockaddr_in" where
  "to_sockaddr_in addr = \<lparr>sin_port = 0, sin_addr = ipv4_octets addr\<rparr>"

section \<open>One request and its reply\<close>

definition no_permission :: string where
  "no_permission = ''permission: ICMP requires root or CAP_NET_RAW''"

text \<open>
  The loop that waits for the reply. Each turn asks for the receive timeout that is left, and the
  clock advances over every call, so there are at most as many turns as the timeout has nanoseconds.
\<close>

function wait_for_reply ::
  "pnet_lib \<Rightarrow> net \<Rightarrow> 32 word \<Rightarrow> u16 \<Rightarrow> u16 \<Rightarrow> u8 \<Rightarrow> duration \<Rightarrow> nat \<Rightarrow> u64 \<Rightarrow> duration \<Rightarrow> calls \<Rightarrow>
   protocol_result \<times> calls" where
  "wait_for_reply P net dest ident seq icmp_type timeout fd sent start h =
     (let waited = elapsed net h - start in
      if waited \<ge> timeout then (Fail ''timeout'' sent 0, close_fd fd h)
      else (case set_socket_timeout net fd (timeout - waited) h of
              (Inl e, h1) \<Rightarrow> (Error e, close_fd fd h1)
            | (Inr _, h1) \<Rightarrow>
                (case call (RawRecv fd 1500) (net_raw net) h1 of
                   (Inl err, h2) \<Rightarrow>
                     (Fail (if io_kind_of err = WouldBlock \<or> io_kind_of err = TimedOut then ''timeout''
                            else ''no-reply: '' @ io_text err) sent 0, close_fd fd h2)
                 | (Inr packet, h2) \<Rightarrow>
                     if is_reply P dest ident seq icmp_type (take 1500 packet)
                     then (Pass sent (word_of_nat (length (take 1500 packet))), close_fd fd h2)
                     else wait_for_reply P net dest ident seq icmp_type timeout fd sent start h2)))"
  by pat_completeness auto

termination
  by (relation "measure (\<lambda>(P, net, dest, ident, seq, ty, timeout, fd, sent, start, h).
        start + timeout - elapsed net h)")
    (auto simp: call_def dest!: sym [THEN set_socket_timeout_calls] intro!: diff_less_mono2)

declare wait_for_reply.simps [simp del]

definition send_icmp_echo_raw ::
  "pnet_lib \<Rightarrow> net \<Rightarrow> 32 word \<Rightarrow> u16 \<Rightarrow> u16 \<Rightarrow> u8 \<Rightarrow> duration \<Rightarrow> calls \<Rightarrow> protocol_result \<times> calls" where
  "send_icmp_echo_raw P net dest ident seq icmp_type timeout h =
     (case has_icmp_capability net h of
        (False, h1) \<Rightarrow> (Error no_permission, h1)
      | (True, h1) \<Rightarrow>
     (case create_raw_socket net h1 of
        (Inl e, h2) \<Rightarrow> (Error e, h2)
      | (Inr fd, h2) \<Rightarrow>
     (case set_socket_timeout net fd timeout h2 of
        (Inl e, h3) \<Rightarrow> (Error e, close_fd fd h3)
      | (Inr _, h3) \<Rightarrow>
          let packet = build_icmp_echo P icmp_type ident seq (request_payload icmp_type) in
     (case call (RawSend fd packet (to_sockaddr_in dest)) (net_sent net) h3 of
        (Inl err, h4) \<Rightarrow> (Error (''sendto: '' @ io_text err), close_fd fd h4)
      | (Inr sent, h4) \<Rightarrow>
          wait_for_reply P net dest ident seq icmp_type timeout fd (word_of_nat sent) (elapsed net h4) h4))))"

section \<open>icmp-ping\<close>

definition show_ipv4 :: "32 word \<Rightarrow> string" where
  "show_ipv4 a = join_strings ''.'' (map (\<lambda>b. show_nat (unat b)) (ipv4_octets a))"

definition show_code :: "int \<Rightarrow> string" where
  "show_code c = (if c < 0 then ''-'' @ show_nat (nat (- c)) else show_nat (nat c))"

definition ping_args :: "duration \<Rightarrow> 32 word \<Rightarrow> string list" where
  "ping_args timeout dest =
     [''-c'', ''1'', ''-n'', ''-W'', show_nat (max (timeout div from_secs 1) 1), show_ipv4 dest]"

definition icmp_ping_run :: "net \<Rightarrow> test_context \<Rightarrow> calls \<Rightarrow> protocol_result \<times> calls" where
  "icmp_ping_run net ctx h =
     (if ctx_direction ctx = ServerToClient then (Pass 0 0, h)
      else (case addr_ip (ctx_target_addr ctx) of
              V6 _ \<Rightarrow> (Error ''IPv6 not supported'', h)
            | V4 dest \<Rightarrow>
                (case call (Ping (ping_args (ctx_timeout ctx) dest)) (net_ping net) h of
                   (Inr (Some code), h1) \<Rightarrow>
                     (if code = 0 then Pass 13 13 else Fail (''ping exit='' @ show_code code) 13 0, h1)
                 | (Inr None, h1) \<Rightarrow> (Fail (''ping exit='' @ show_code (- 1)) 13 0, h1)
                 | (Inl e, h1) \<Rightarrow> (Error (''ping: '' @ io_text e), h1))))"

definition icmp_ping_test :: "net test_protocol" where
  "icmp_ping_test =
     \<lparr>proto_name = ''icmp-ping'', proto_layer = L3, proto_transports = [Icmp],
      proto_run = run_from_start icmp_ping_run\<rparr>"

section \<open>icmp-full\<close>

record scan_totals =
  st_sent :: u64
  st_received :: u64
  st_failures :: "string list"
  st_errors :: "string list"

definition type_reason :: "u8 \<Rightarrow> string \<Rightarrow> string \<Rightarrow> string" where
  "type_reason icmp_type name reason =
     ''type '' @ show_nat (unat icmp_type) @ '' ('' @ name @ ''): '' @ reason"

definition add_result :: "u8 \<Rightarrow> string \<Rightarrow> protocol_result \<Rightarrow> scan_totals \<Rightarrow> scan_totals" where
  "add_result icmp_type name result st =
     (case result of
        Pass s r \<Rightarrow> st\<lparr>st_sent := st_sent st + s, st_received := st_received st + r\<rparr>
      | Fail reason s r \<Rightarrow>
          st\<lparr>st_sent := st_sent st + s, st_received := st_received st + r,
             st_failures := st_failures st @ [type_reason icmp_type name reason]\<rparr>
      | Error reason \<Rightarrow> st\<lparr>st_errors := st_errors st @ [type_reason icmp_type name reason]\<rparr>)"

definition per_type_timeout :: "duration \<Rightarrow> duration" where
  "per_type_timeout timeout = max (timeout div length ALL_ICMP_TYPES) (from_millis 1)"

definition probe_type ::
  "pnet_lib \<Rightarrow> net \<Rightarrow> 32 word \<Rightarrow> duration \<Rightarrow> duration \<Rightarrow> nat \<Rightarrow> u8 \<Rightarrow> calls \<Rightarrow> protocol_result \<times> calls" where
  "probe_type P net dest timeout started idx icmp_type h =
     (let remaining = timeout - (elapsed net h - started) in
      if remaining = 0 then (Fail ''timeout'' 0 0, h)
      else (case call FetchId (net_id net) h of (ident, h1) \<Rightarrow>
              send_icmp_echo_raw P net dest ident (word_of_nat idx) icmp_type
                (max (min (per_type_timeout timeout) remaining) (from_micros 1)) h1))"

primrec probe_types ::
  "pnet_lib \<Rightarrow> net \<Rightarrow> 32 word \<Rightarrow> duration \<Rightarrow> duration \<Rightarrow> (nat \<times> u8 \<times> string) list \<Rightarrow> scan_totals \<Rightarrow> calls \<Rightarrow>
   scan_totals \<times> calls" where
  "probe_types P net dest timeout started [] st h = (st, h)"
| "probe_types P net dest timeout started (entry # rest) st h =
     (case entry of (idx, icmp_type, name) \<Rightarrow>
        (case probe_type P net dest timeout started idx icmp_type h of (result, h1) \<Rightarrow>
           probe_types P net dest timeout started rest (add_result icmp_type name result st) h1))"

definition scan_result :: "scan_totals \<Rightarrow> protocol_result" where
  "scan_result st =
     (if st_errors st \<noteq> [] then Error (join_strings ''; '' (st_errors st @ st_failures st))
      else if st_failures st \<noteq> [] then
        Fail (join_strings ''; '' (st_failures st)) (st_sent st) (st_received st)
      else Pass (st_sent st) (st_received st))"

definition scan_types :: "pnet_lib \<Rightarrow> net \<Rightarrow> 32 word \<Rightarrow> duration \<Rightarrow> calls \<Rightarrow> protocol_result \<times> calls" where
  "scan_types P net dest timeout h =
     (case probe_types P net dest timeout (elapsed net h) (enumerate 0 ALL_ICMP_TYPES)
             \<lparr>st_sent = 0, st_received = 0, st_failures = [], st_errors = []\<rparr> h of
        (st, h1) \<Rightarrow>
          (case call JoinBlocking (net_join net) h1 of
             (Inr _, h2) \<Rightarrow> (scan_result st, h2)
           | (Inl e, h2) \<Rightarrow> (Error (''icmp worker: '' @ e), h2)))"

definition icmp_full_run :: "pnet_lib \<Rightarrow> net \<Rightarrow> test_context \<Rightarrow> calls \<Rightarrow> protocol_result \<times> calls" where
  "icmp_full_run P net ctx h =
     (case has_icmp_capability net h of
        (False, h1) \<Rightarrow> (Error no_permission, h1)
      | (True, h1) \<Rightarrow>
          if ctx_direction ctx = ServerToClient then (Pass 0 0, h1)
          else (case addr_ip (ctx_target_addr ctx) of
                  V6 _ \<Rightarrow> (Error ''IPv6 not supported'', h1)
                | V4 dest \<Rightarrow> scan_types P net dest (ctx_timeout ctx) h1))"

definition icmp_full_test :: "pnet_lib \<Rightarrow> net test_protocol" where
  "icmp_full_test P =
     \<lparr>proto_name = ''icmp-full'', proto_layer = L3, proto_transports = [Icmp],
      proto_run = run_from_start (icmp_full_run P)\<rparr>"

section \<open>Sockets are closed\<close>

text \<open>
  The raw sockets a list of calls opened, and those it closed, in order; and whether the system accepted,
  right before each receive, a receive timeout for its socket that is not the zero that means none.
\<close>

definition opened_by :: "net \<Rightarrow> calls \<Rightarrow> nat list" where
  "opened_by net h =
     (case last h of
        RawSocket _ \<Rightarrow> (case net_fd net h of Inr fd \<Rightarrow> [fd] | Inl _ \<Rightarrow> [])
      | _ \<Rightarrow> [])"

definition opened :: "net \<Rightarrow> calls \<Rightarrow> nat list" where
  "opened net h = concat (map (\<lambda>k. opened_by net (take (Suc k) h)) [0..<length h])"

fun closed_by :: "io_call \<Rightarrow> nat list" where
  "closed_by (CloseFd fd) = [fd]"
| "closed_by _ = []"

definition closed :: "calls \<Rightarrow> nat list" where
  "closed h = concat (map closed_by h)"

definition guarded_last :: "net \<Rightarrow> calls \<Rightarrow> bool" where
  "guarded_last net h =
     (case last h of
        RawRecv fd n \<Rightarrow>
          butlast h \<noteq> [] \<and>
          (case last (butlast h) of
             SetRcvTimeo fd' tv \<Rightarrow> fd' = fd \<and> tv \<noteq> (0, 0) \<and> net_unit net (butlast h) = Inr ()
           | _ \<Rightarrow> False)
      | _ \<Rightarrow> True)"

definition guarded :: "net \<Rightarrow> calls \<Rightarrow> bool" where
  "guarded net h \<longleftrightarrow> list_all (\<lambda>k. guarded_last net (take (Suc k) h)) [0..<length h]"

definition settled :: "net \<Rightarrow> calls \<Rightarrow> bool" where
  "settled net h \<longleftrightarrow> opened net h = closed h \<and> guarded net h"

text \<open>In between, one socket may be open.\<close>

definition holding :: "net \<Rightarrow> nat \<Rightarrow> calls \<Rightarrow> bool" where
  "holding net fd h \<longleftrightarrow> opened net h = closed h @ [fd] \<and> guarded net h"

lemma opened_snoc: "opened net (h @ [c]) = opened net h @ opened_by net (h @ [c])"
proof -
  have before: "map (\<lambda>k. opened_by net (take (Suc k) (h @ [c]))) [0..<length h] =
      map (\<lambda>k. opened_by net (take (Suc k) h)) [0..<length h]"
    by (rule map_cong) auto
  have "opened net (h @ [c]) =
      concat (map (\<lambda>k. opened_by net (take (Suc k) (h @ [c]))) [0..<length h]) @ opened_by net (h @ [c])"
    by (simp add: opened_def del: take_append)
  then show ?thesis by (simp only: before opened_def)
qed

lemma closed_snoc: "closed (h @ [c]) = closed h @ closed_by c"
  by (simp add: closed_def)

lemma guarded_snoc [simp]: "guarded net (h @ [c]) \<longleftrightarrow> guarded net h \<and> guarded_last net (h @ [c])"
  by (auto simp: guarded_def list_all_iff less_Suc_eq)

lemma settled_Nil [simp]: "settled net []"
  by (simp add: settled_def opened_def closed_def guarded_def)

lemma settled_snoc:
  "settled net h \<Longrightarrow> opened_by net (h @ [c]) = [] \<Longrightarrow> closed_by c = [] \<Longrightarrow> guarded_last net (h @ [c]) \<Longrightarrow> settled net (h @ [c])"
  by (simp add: settled_def opened_snoc closed_snoc)

lemma holding_snoc:
  "holding net fd h \<Longrightarrow> opened_by net (h @ [c]) = [] \<Longrightarrow> closed_by c = [] \<Longrightarrow> guarded_last net (h @ [c]) \<Longrightarrow>
     holding net fd (h @ [c])"
  by (simp add: holding_def opened_snoc closed_snoc)

lemma holding_close [intro]: "holding net fd h \<Longrightarrow> settled net (close_fd fd h)"
  by (simp add: holding_def settled_def close_fd_def opened_snoc closed_snoc opened_by_def guarded_last_def)

lemma settled_open:
  "settled net h \<Longrightarrow> net_fd net (h @ [RawSocket ty]) = Inr fd \<Longrightarrow> holding net fd (h @ [RawSocket ty])"
  "settled net h \<Longrightarrow> net_fd net (h @ [RawSocket ty]) = Inl e \<Longrightarrow> settled net (h @ [RawSocket ty])"
  by (simp_all add: holding_def settled_def opened_snoc closed_snoc opened_by_def guarded_last_def)

lemma timeval_of_nonzero: "timeval_of t \<noteq> (0, 0)"
proof
  define s where "s = max t (from_micros 1)"
  assume "timeval_of t = (0, 0)"
  then have "s div from_secs 1 = 0" "s mod from_secs 1 div from_micros 1 = 0"
    by (simp_all add: timeval_of_def s_def Let_def)
  then have "s < from_secs 1" "s mod from_secs 1 < from_micros 1"
    by (simp_all add: from_secs_def from_micros_def div_eq_0_iff)
  then have "s < from_micros 1" by simp
  then show False by (simp add: s_def)
qed

lemma has_icmp_capability_settled:
  assumes "settled net h" and "has_icmp_capability net h = (b, h')"
  shows "settled net h'"
proof (cases "net_fd net (h @ [RawSocket SockDgram])")
  case (Inr fd)
  with assms settled_open(1) [OF assms(1) Inr] show ?thesis
    by (auto simp: has_icmp_capability_def call_def)
next
  case (Inl e)
  let ?h = "h @ [RawSocket SockDgram]"
  from settled_open(2) [OF assms(1) Inl] have s: "settled net ?h" .
  show ?thesis
  proof (cases "net_fd net (?h @ [RawSocket SockRaw])")
    case (Inl e')
    with \<open>net_fd net ?h = Inl e\<close> assms(2) settled_open(2) [OF s Inl] show ?thesis
      by (simp add: has_icmp_capability_def call_def)
  next
    case (Inr fd)
    with \<open>net_fd net ?h = Inl e\<close> assms(2) holding_close [OF settled_open(1) [OF s Inr]] show ?thesis
      by (simp add: has_icmp_capability_def call_def)
  qed
qed

lemma set_socket_timeout_holding:
  "holding net fd h \<Longrightarrow> set_socket_timeout net fd t h = (r, h') \<Longrightarrow> holding net fd h'"
  by (auto dest!: set_socket_timeout_calls intro!: holding_snoc simp: opened_by_def guarded_last_def)

text \<open>A receive right after its timeout was accepted.\<close>

lemma holding_recv:
  assumes "holding net fd h" and "set_socket_timeout net fd t h = (Inr (), h')"
  shows "holding net fd (h' @ [RawRecv fd n])"
proof (rule holding_snoc [OF set_socket_timeout_holding [OF assms]])
  from assms(2) have "h' = h @ [SetRcvTimeo fd (timeval_of t)]" "net_unit net h' = Inr ()"
    by (auto simp: set_socket_timeout_def call_def split: sum.splits)
  then show "guarded_last net (h' @ [RawRecv fd n])"
    using timeval_of_nonzero by (simp add: guarded_last_def butlast_append)
qed (simp_all add: opened_by_def)

lemma wait_for_reply_settled:
  "holding net fd h \<Longrightarrow> wait_for_reply P net dest ident seq ty timeout fd sent start h = (r, h') \<Longrightarrow>
     settled net h'"
proof (induction P net dest ident seq ty timeout fd sent start h rule: wait_for_reply.induct)
  case (1 P net dest ident seq ty timeout fd sent start h)
  obtain x h1 where set: "set_socket_timeout net fd (timeout - (elapsed net h - start)) h = (x, h1)"
    by fastforce
  obtain y h2 where recv: "call (RawRecv fd 1500) (net_raw net) h1 = (y, h2)" by fastforce
  have h1: "holding net fd h1" by (rule set_socket_timeout_holding [OF "1.prems"(1) set])
  have h2: "holding net fd h2" if "x = Inr ()"
    using recv holding_recv [OF "1.prems"(1)] set that by (auto simp: call_def)
  show ?case
  proof (cases "\<exists>packet. elapsed net h - start < timeout \<and> x = Inr () \<and> y = Inr packet \<and>
      \<not> is_reply P dest ident seq ty (take 1500 packet)")
    case True
    then obtain packet where run: "\<not> timeout \<le> elapsed net h - start" "x = Inr ()" "y = Inr packet"
      "\<not> is_reply P dest ident seq ty (take 1500 packet)" by auto
    with "1.prems"(2) set recv
    have "wait_for_reply P net dest ident seq ty timeout fd sent start h2 = (r, h')"
      by (simp add: wait_for_reply.simps [of P net dest ident seq ty timeout fd sent start h])
    from "1.IH" [OF refl run(1) set [symmetric] run(2) recv [symmetric] run(3,4) h2 [OF run(2)] this] show ?thesis .
  next
    case False
    with "1.prems" set recv h1 h2 show ?thesis
      by (auto simp: wait_for_reply.simps [of P net dest ident seq ty timeout fd sent start h] Let_def not_le
          split: if_splits sum.splits)
  qed
qed

lemma send_icmp_echo_raw_settled:
  assumes "settled net h"
  shows "settled net (snd (send_icmp_echo_raw P net dest ident seq ty timeout h))"
proof -
  obtain b h1 where cap: "has_icmp_capability net h = (b, h1)" by fastforce
  have s1: "settled net h1" by (rule has_icmp_capability_settled [OF assms cap])
  show ?thesis
  proof (cases "net_fd net (h1 @ [RawSocket SockRaw])")
    case (Inl e)
    with cap settled_open(2) [OF s1] show ?thesis
      by (cases b) (use s1 in \<open>auto simp: send_icmp_echo_raw_def create_raw_socket_def call_def\<close>)
  next
    case fd: (Inr fd)
    let ?h2 = "h1 @ [RawSocket SockRaw]"
    let ?packet = "RawSend fd (build_icmp_echo P ty ident seq (request_payload ty)) (to_sockaddr_in dest)"
    obtain x h3 where set: "set_socket_timeout net fd timeout ?h2 = (x, h3)" by fastforce
    have h3: "holding net fd h3" by (rule set_socket_timeout_holding [OF settled_open(1) [OF s1 fd] set])
    have h4: "holding net fd (h3 @ [?packet])" by (rule holding_snoc [OF h3]) (simp_all add: opened_by_def guarded_last_def)
    have wait: "settled net (snd (wait_for_reply P net dest ident seq ty timeout fd sent start (h3 @ [?packet])))"
      for sent start using wait_for_reply_settled [OF h4] by (metis prod.collapse)
    show ?thesis
    proof (cases b)
      case True
      with cap fd set h3 h4 wait show ?thesis
        by (auto simp: send_icmp_echo_raw_def create_raw_socket_def call_def Let_def split: sum.splits)
    qed (use cap s1 in \<open>simp add: send_icmp_echo_raw_def\<close>)
  qed
qed

lemma probe_type_settled:
  "settled net h \<Longrightarrow> settled net (snd (probe_type P net dest timeout started idx ty h))"
  by (auto simp: probe_type_def call_def Let_def opened_by_def guarded_last_def
      intro!: send_icmp_echo_raw_settled settled_snoc)

lemma probe_types_settled:
  "settled net h \<Longrightarrow> settled net (snd (probe_types P net dest timeout started entries st h))"
proof (induction entries arbitrary: st h)
  case Nil
  then show ?case by simp
next
  case (Cons entry rest)
  obtain idx ty name where e: "entry = (idx, ty, name)" by (cases entry)
  obtain result h1 where p: "probe_type P net dest timeout started idx ty h = (result, h1)" by fastforce
  with probe_type_settled [OF Cons.prems, of P dest timeout started idx ty] have "settled net h1" by simp
  from Cons.IH [OF this] e p show ?case by simp
qed

lemma scan_types_settled:
  assumes "settled net h"
  shows "settled net (snd (scan_types P net dest timeout h))"
proof -
  obtain st h1 where types: "probe_types P net dest timeout (elapsed net h) (enumerate 0 ALL_ICMP_TYPES)
      \<lparr>st_sent = 0, st_received = 0, st_failures = [], st_errors = []\<rparr> h = (st, h1)" by fastforce
  with probe_types_settled [OF assms, of P dest timeout "elapsed net h" "enumerate 0 ALL_ICMP_TYPES"
      "\<lparr>st_sent = 0, st_received = 0, st_failures = [], st_errors = []\<rparr>"]
  have "settled net (h1 @ [JoinBlocking])" by (intro settled_snoc) (simp_all add: opened_by_def guarded_last_def)
  with types show ?thesis by (auto simp: scan_types_def call_def split: sum.splits)
qed

lemma icmp_full_settled:
  assumes "settled net h"
  shows "settled net (snd (icmp_full_run P net ctx h))"
proof -
  obtain b h1 where cap: "has_icmp_capability net h = (b, h1)" by fastforce
  then have "settled net h1" by (rule has_icmp_capability_settled [OF assms])
  with cap show ?thesis
    by (auto simp: icmp_full_run_def scan_types_settled split: bool.splits ip_addr.splits)
qed

section \<open>What a pass means\<close>

lemma wait_for_reply_Pass:
  "wait_for_reply P net dest ident seq ty timeout fd sent start h = (Pass s r, h') \<Longrightarrow>
     \<exists>h2 packet. h' = close_fd fd h2 \<and> net_raw net h2 = Inr packet \<and>
       is_reply P dest ident seq ty (take 1500 packet) \<and> r = word_of_nat (length (take 1500 packet)) \<and> s = sent"
proof (induction P net dest ident seq ty timeout fd sent start h rule: wait_for_reply.induct)
  case (1 P net dest ident seq ty timeout fd sent start h)
  obtain x h1 where set: "set_socket_timeout net fd (timeout - (elapsed net h - start)) h = (x, h1)"
    by fastforce
  obtain y h2 where recv: "call (RawRecv fd 1500) (net_raw net) h1 = (y, h2)" by fastforce
  note step = wait_for_reply.simps [of P net dest ident seq ty timeout fd sent start h]
  from "1.prems" set recv obtain packet where
    run: "\<not> timeout \<le> elapsed net h - start" "x = Inr ()" "y = Inr packet"
    by (auto simp: step Let_def split: if_splits sum.splits)
  show ?case
  proof (cases "is_reply P dest ident seq ty (take 1500 packet)")
    case True
    with "1.prems" set recv run show ?thesis by (auto simp: step call_def)
  next
    case False
    with "1.prems" set recv run
    have "wait_for_reply P net dest ident seq ty timeout fd sent start h2 = (Pass s r, h')"
      by (simp add: step)
    from "1.IH" [OF refl run(1) set [symmetric] run(2) recv [symmetric] run(3) False this] show ?thesis .
  qed
qed

lemma send_icmp_echo_raw_Pass:
  assumes "send_icmp_echo_raw P net dest ident seq ty timeout h = (Pass s r, h')"
  shows "\<exists>h2 packet fd. h' = close_fd fd h2 \<and> net_raw net h2 = Inr packet \<and>
           is_reply P dest ident seq ty (take 1500 packet) \<and> r = word_of_nat (length (take 1500 packet))"
  using assms wait_for_reply_Pass
  by (fastforce simp: send_icmp_echo_raw_def Let_def split: prod.splits bool.splits sum.splits)

text \<open>A type without an expected reply cannot pass.\<close>

lemma no_reply_no_pass:
  assumes "expected_type_of ty = None"
  shows "\<not> is_pass (fst (send_icmp_echo_raw P net dest ident seq ty timeout h))"
proof
  assume pass: "is_pass (fst (send_icmp_echo_raw P net dest ident seq ty timeout h))"
  then obtain s r where "fst (send_icmp_echo_raw P net dest ident seq ty timeout h) = Pass s r"
    by (cases "fst (send_icmp_echo_raw P net dest ident seq ty timeout h)") simp_all
  then obtain h' where "send_icmp_echo_raw P net dest ident seq ty timeout h = (Pass s r, h')"
    by (metis prod.collapse)
  from send_icmp_echo_raw_Pass [OF this] obtain packet where
    "is_reply P dest ident seq ty (take 1500 packet)" by blast
  with assms show False by (auto elim: is_replyD)
qed

definition has_complaint :: "scan_totals \<Rightarrow> bool" where
  "has_complaint st \<longleftrightarrow> st_failures st \<noteq> [] \<or> st_errors st \<noteq> []"

lemma add_result_complaint:
  "has_complaint st \<Longrightarrow> has_complaint (add_result ty name result st)"
  "\<not> is_pass result \<Longrightarrow> has_complaint (add_result ty name result st)"
  by (cases result; simp add: has_complaint_def add_result_def)+

lemma probe_types_complaint:
  "has_complaint st \<Longrightarrow> has_complaint (fst (probe_types P net dest timeout started entries st h))"
  by (induction entries arbitrary: st h) (auto simp: add_result_complaint split: prod.splits)

lemma probe_type_no_pass:
  "expected_type_of ty = None \<Longrightarrow> \<not> is_pass (fst (probe_type P net dest timeout started idx ty h))"
  by (auto simp: probe_type_def call_def Let_def no_reply_no_pass)

lemma scan_types_no_pass: "\<not> is_pass (fst (scan_types P net dest timeout h))"
proof -
  let ?st = "\<lparr>st_sent = 0, st_received = 0, st_failures = [], st_errors = []\<rparr>"
  obtain rest where all: "enumerate 0 ALL_ICMP_TYPES = (0, 0, ''echo-reply'') # rest"
    by (simp add: ALL_ICMP_TYPES_def)
  obtain result h1 where first: "probe_type P net dest timeout (elapsed net h) 0 0 h = (result, h1)"
    by fastforce
  have "\<not> is_pass result"
    using probe_type_no_pass [of 0 P net dest timeout "elapsed net h" 0 h] first by simp
  then have "has_complaint (fst (probe_types P net dest timeout (elapsed net h) (enumerate 0 ALL_ICMP_TYPES) ?st h))"
    unfolding all using probe_types_complaint [OF add_result_complaint(2)] first by simp
  then show ?thesis
    by (auto simp: scan_types_def call_def scan_result_def has_complaint_def split: prod.splits sum.splits)
qed

section \<open>Properties\<close>

text \<open>
  Property C19: whatever the system answers, the full scan closes every raw socket it opens, in the
  order it opened them, and never waits on a socket without a receive timeout: right before each receive
  the system accepted one for the same socket, and it was not zero.
\<close>

theorem icmp_full_closes_sockets:
  "opened net (snd (icmp_full_run P net ctx [])) = closed (snd (icmp_full_run P net ctx [])) \<and>
   guarded net (snd (icmp_full_run P net ctx []))"
  using icmp_full_settled [OF settled_Nil, of net P ctx] by (simp add: settled_def)

text \<open>
  Property C20: a request over a raw socket passes only on a packet that came from the address it was
  sent to, has the type that answers its type, its number and its sequence number, and the payload
  expected of such a reply; and of the packets the request builder makes exactly those match.
\<close>

theorem icmp_reply_authentic:
  assumes "send_icmp_echo_raw P net dest ident seq ty timeout h = (Pass s r, h')"
  shows "\<exists>packet view expected. net_raw net (butlast h') = Inr packet \<and>
     ipv4_new P (take 1500 packet) = Some view \<and> get_source view = dest \<and>
     expected_type_of ty = Some expected \<and>
     (\<forall>header ty' ident' seq' payload.
        take 1500 packet = header @ build_icmp_echo P ty' ident' seq' payload \<and>
        length header = unat (get_header_length view) * 4 \<longrightarrow>
        ty' = expected \<and> ident' = ident \<and> seq' = seq \<and> snd (expected_reply_payload ty) \<le> length payload)"
proof -
  from send_icmp_echo_raw_Pass [OF assms] obtain h2 packet fd where
    h': "h' = close_fd fd h2" and raw: "net_raw net h2 = Inr packet"
    and reply: "is_reply P dest ident seq ty (take 1500 packet)" by blast
  from reply obtain view expected where view: "ipv4_new P (take 1500 packet) = Some view"
    "get_source view = dest" "expected_type_of ty = Some expected"
    and matches: "reply_matches (take 1500 packet) (unat (get_header_length view) * 4) expected ident seq
           (fst (expected_reply_payload ty)) (snd (expected_reply_payload ty))"
    by (rule is_replyD)
  have "ty' = expected \<and> ident' = ident \<and> seq' = seq \<and> snd (expected_reply_payload ty) \<le> length payload"
    if "take 1500 packet = header @ build_icmp_echo P ty' ident' seq' payload"
      "length header = unat (get_header_length view) * 4" for header ty' ident' seq' payload
    using matches reply_matches_built [of header P ty' ident' seq' payload expected ident seq]
    unfolding that(1) that(2) [symmetric] by blast
  with raw view show ?thesis by (auto simp: h' close_fd_def)
qed

text \<open>A library that reads every packet as one without IP header, from 127.0.0.1, and an echo.\<close>

definition demo_pnet :: pnet_lib where
  "demo_pnet =
     \<lparr>pnet_checksum = (\<lambda>_ _. 0), ipv4_new = (\<lambda>_. Some \<lparr>get_header_length = 0, get_source = 0x7F000001\<rparr>)\<rparr>"

definition echo_net :: net where
  "echo_net = demo_net\<lparr>net_raw := \<lambda>_. Inr (build_icmp_echo demo_pnet 0 7 9 bimap_bytes)\<rparr>"

lemma length_bimap_bytes [simp]: "length bimap_bytes = 5"
  by (simp add: bimap_bytes_def bytes_of_string_def)

lemma demo_echo: "is_reply demo_pnet 0x7F000001 7 9 8 (build_icmp_echo demo_pnet 0 7 9 bimap_bytes)"
  "length (build_icmp_echo demo_pnet 0 7 9 bimap_bytes) = 13"
  using reply_matches_built [of "[]" demo_pnet 0 7 9 bimap_bytes 0 7 9 "Some bimap_bytes" 5]
  by (simp_all add: is_reply_def ip_header_len_def demo_pnet_def expected_reply_payload_def
      expected_type_of_def ICMP_TYPE_ECHO_REPLY_def build_icmp_echo_parts)

theorem icmp_reply_authentic_witness:
  "\<exists>h. send_icmp_echo_raw demo_pnet echo_net 0x7F000001 7 9 8 100 [] = (Pass 13 13, h) \<and>
     (\<exists>packet view. net_raw echo_net (butlast h) = Inr packet \<and>
        ipv4_new demo_pnet (take 1500 packet) = Some view \<and> get_source view = 0x7F000001)"
proof -
  have "fst (send_icmp_echo_raw demo_pnet echo_net 0x7F000001 7 9 8 100 []) = Pass 13 13"
    by (simp add: send_icmp_echo_raw_def has_icmp_capability_def create_raw_socket_def call_def echo_net_def
        set_socket_timeout_def Let_def wait_for_reply.simps demo_echo)
  then obtain h where "send_icmp_echo_raw demo_pnet echo_net 0x7F000001 7 9 8 100 [] = (Pass 13 13, h)"
    by (metis prod.collapse)
  with icmp_reply_authentic [OF this] show ?thesis by blast
qed

text \<open>
  Property C21: run by a client, \<open>icmp-full\<close> never passes, whatever the network does: it sends types to
  which no reply is defined, and waits for one.
\<close>

theorem icmp_full_never_passes:
  assumes "ctx_direction ctx = ClientToServer"
  shows "\<not> is_pass (proto_run (icmp_full_test P) net ctx)"
  using assms scan_types_no_pass
  by (auto simp: icmp_full_test_def run_from_start_def icmp_full_run_def split: prod.splits bool.splits ip_addr.splits)

theorem icmp_full_never_passes_witness:
  "\<not> is_pass (proto_run (icmp_full_test demo_pnet) demo_net
     \<lparr>ctx_direction = ClientToServer, ctx_transport = Icmp, ctx_target_addr = SocketV4 0x7F000001 0,
      ctx_timeout = from_millis 10\<rparr>)"
  by (rule icmp_full_never_passes) simp

end
