(* ===== verification/Standard_Registry.thy ===== *)
theory Standard_Registry
  imports Main_Program Port_Probes Tls_Probe Dns_Probe Icmp_Probe
begin

text \<open>
  The registry of the program (\<open>build_registry\<close> of \<open>src/test/mod.rs\<close>) with the probes as modelled, and
  the properties in which the probes meet the rest of the program.
\<close>

definition build_registry :: "dns_lib \<Rightarrow> pnet_lib \<Rightarrow> net registry" where
  "build_registry D P =
     (let registry = new_registry;
          registry = register registry open_test;
          registry = register registry kb_test;
          registry = register registry icmp_ping_test;
          registry = register registry (icmp_full_test P);
          registry = register registry tls_test;
          registry = register registry (dns_test D)
      in registry)"

lemmas standard_tests = open_test_def kb_test_def icmp_ping_test_def icmp_full_test_def tls_test_def
  dns_test_def

lemma build_registry_built:
  "build_registry D P = foldl register new_registry
     [open_test, kb_test, icmp_ping_test, icmp_full_test P, tls_test, dns_test D]"
  by (simp add: build_registry_def Let_def)

lemma build_registry_names:
  "protocol_names (build_registry D P) = [''open'', ''1kb'', ''icmp-ping'', ''icmp-full'', ''tls'', ''dns'']"
  unfolding build_registry_built reg.names_built by (simp add: standard_tests)

lemma build_registry_find:
  assumes "p \<in> set [open_test, kb_test, icmp_ping_test, icmp_full_test P, tls_test, dns_test D]"
  shows "find_protocol (build_registry D P) (proto_name p) = Some p"
  unfolding build_registry_built
  by (rule reg.lookup_distinct [OF _ assms]) (simp add: standard_tests)

lemma build_registry_icmp:
  assumes "name \<in> {''icmp-ping'', ''icmp-full''}"
  obtains p where "find_protocol (build_registry D P) name = Some p" and "proto_layer p = L3"
    and "proto_transports p = [Icmp]"
proof -
  from assms consider "name = proto_name icmp_ping_test" | "name = proto_name (icmp_full_test P)"
    by (auto simp: standard_tests)
  then show ?thesis
  proof cases
    case 1
    then show ?thesis
      using build_registry_find [of icmp_ping_test P D] that [of icmp_ping_test]
      by (simp add: standard_tests)
  next
    case 2
    then show ?thesis
      using build_registry_find [of "icmp_full_test P" P D] that [of "icmp_full_test P"]
      by (simp add: standard_tests)
  qed
qed

lemma extend_icmp:
  assumes "name \<in> {''icmp-ping'', ''icmp-full''}" and "ranges = [] \<or> ranges = [icmp_any]"
  shows "extend_port_ranges (build_registry D P) name ranges = Inr [icmp_any]"
proof -
  from assms(1) obtain p where "find_protocol (build_registry D P) name = Some p" "proto_transports p = [Icmp]"
    by (rule build_registry_icmp)
  with assms(2) show ?thesis
    by (auto simp: extend_port_ranges_def has_matching_def icmp_any_def transport_from_str_def)
qed

lemma complete_icmp:
  assumes "set names \<subseteq> {''icmp-ping'', ''icmp-full''}" and "ranges = [] \<or> ranges = [icmp_any]"
  shows "complete_port_ranges (build_registry D P) names ranges = Inr (if names = [] then ranges else [icmp_any])"
  using assms
proof (induction names arbitrary: ranges)
  case Nil
  then show ?case by simp
next
  case (Cons name names)
  from Cons.prems extend_icmp [of name ranges D P]
  have "extend_port_ranges (build_registry D P) name ranges = Inr [icmp_any]" by simp
  moreover have "complete_port_ranges (build_registry D P) names [icmp_any] = Inr [icmp_any]"
    using Cons.IH [of "[icmp_any]"] Cons.prems by simp
  ultimately show ?case by (simp add: and_then_def)
qed

lemma icmp_needs_no_range:
  assumes "set (ca_test args) \<subseteq> {''icmp-ping'', ''icmp-full''}"
  shows "\<not> needs_port_range (build_registry D P) args"
proof -
  have "\<not> (case find_protocol (build_registry D P) name of None \<Rightarrow> False | Some p \<Rightarrow> proto_layer p \<noteq> L3)"
    if "name \<in> set (ca_test args)" for name
  proof -
    from that assms have "name \<in> {''icmp-ping'', ''icmp-full''}" by blast
    then obtain p where "find_protocol (build_registry D P) name = Some p" "proto_layer p = L3"
      by (rule build_registry_icmp)
    then show ?thesis by simp
  qed
  then show ?thesis by (simp add: needs_port_range_def list_ex_iff)
qed

section \<open>Properties\<close>

text \<open>
  Property C25: the registry lists the six probes in order and finds each of them under its name; and
  a scan of ICMP probes only runs without a port range, once for each, as the usage text promises.
\<close>

theorem standard_registry:
  assumes "ca_test args \<noteq> []" and "set (ca_test args) \<subseteq> {''icmp-ping'', ''icmp-full''}"
  shows "protocol_names (build_registry D P) =
           [''open'', ''1kb'', ''icmp-ping'', ''icmp-full'', ''tls'', ''dns''] \<and>
         map (find_protocol (build_registry D P)) (protocol_names (build_registry D P)) =
           map Some [open_test, kb_test, icmp_ping_test, icmp_full_test P, tls_test, dns_test D] \<and>
         \<not> needs_port_range (build_registry D P) args \<and>
         complete_port_ranges (build_registry D P) (ca_test args) [] = Inr [(''icmp'', 0, 0)]"
proof -
  let ?ps = "[open_test, kb_test, icmp_ping_test, icmp_full_test P, tls_test, dns_test D]"
  have "protocol_names (build_registry D P) = map proto_name ?ps"
    unfolding build_registry_built by (rule reg.names_built)
  moreover have "map (\<lambda>p. find_protocol (build_registry D P) (proto_name p)) ?ps = map Some ?ps"
    by (rule map_cong [OF refl build_registry_find])
  ultimately have "map (find_protocol (build_registry D P)) (protocol_names (build_registry D P)) = map Some ?ps"
    by (simp only: map_map o_def)
  with complete_icmp [OF assms(2), of "[]" D P] icmp_needs_no_range [OF assms(2)] assms(1) show ?thesis
    by (simp only: build_registry_names icmp_any_def if_False simp_thms)
qed

theorem standard_registry_witness:
  "complete_port_ranges (build_registry demo_dns demo_pnet) [''icmp-full'', ''icmp-ping''] [] = Inr [(''icmp'', 0, 0)]"
  using standard_registry [of "demo_args\<lparr>ca_test := [''icmp-full'', ''icmp-ping'']\<rparr>" demo_dns demo_pnet]
  by simp

text \<open>
  Property C10: which changes of the payload of a TCP exchange from client to server the report of payload
  differences shows. On prompt networks, whatever the path makes of the bytes of either direction, the
  result the client records from both ends is selected for the report exactly when enough bytes reached
  the target, not those of the payload, and the path gave the initiator the echo the target did not send.
  A path that only changes what is sent, and makes up nothing where nothing is sent, is never reported.
\<close>

theorem forward_change_report:
  assumes "prompt ni t" and "prompt nt t"
    and "\<And>h. net_bytes nt h = Inr (f (written (snd (tcp_initiator ni target p t []))))"
    and "\<And>h. net_bytes ni h = Inr (g (written (snd (tcp_target nt address p t []))))"
    and "te_result e = combined_result (fst (tcp_target nt address p t [])) (fst (tcp_initiator ni target p t []))"
  shows "is_changed_payload (new_entry e) \<longleftrightarrow>
           length p \<le> length (f p) \<and> take (length p) (f p) \<noteq> p \<and> take (length p) (g []) = p"
proof -
  have no: "\<not> contains_str payload_mismatch ''mismatch''" "\<not> contains_str payload_mismatch ''read: early eof''"
    "\<not> contains_str payload_mismatch []" "\<not> contains_str payload_mismatch (''server: '' @ ''read: early eof'')"
    and yes: "contains_str payload_mismatch (''server: '' @ payload_differs)"
    by (simp_all add: payload_mismatch_def payload_differs_def)
  note ends = tcp_ends_any_path [where f = f and g = g, OF assms(1-4)]
  have short: "take (length p) bs \<noteq> p" if "length bs < length p" for bs
    using that by auto
  have reason: "is_changed_payload (new_entry e) \<longleftrightarrow>
      is_fail (te_result e) \<and> contains_str payload_mismatch (result_reason (te_result e))"
    by (simp add: is_changed_payload_def new_entry_def del: contains_str.simps)
  show ?thesis
    unfolding reason assms(5) ends
    using no yes short by (auto simp: failure_def simp del: contains_str.simps)
qed

text \<open>
  The path that adds one to every byte, both ways, is not reported; one that gives the initiator the
  expected byte whatever the target sends is.
\<close>

theorem forward_change_report_witness:
  "\<not> is_changed_payload (new_entry
     \<lparr>te_protocol = ''open'', te_transport = ''tcp'', te_port = 80, te_direction = ClientToServer,
      te_result = combined_result (fst (tcp_target (demo_net\<lparr>net_bytes := \<lambda>_. Inr [0xAB]\<rparr>) demo_addr [0xAA] 5 []))
                    (fst (tcp_initiator demo_net demo_addr [0xAA] 5 [])),
      te_server_error = Some payload_differs\<rparr>) \<and>
   is_changed_payload (new_entry
     \<lparr>te_protocol = ''open'', te_transport = ''tcp'', te_port = 80, te_direction = ClientToServer,
      te_result = combined_result (fst (tcp_target (demo_net\<lparr>net_bytes := \<lambda>_. Inr [0xAB]\<rparr>) demo_addr [0xAA] 5 []))
                    (fst (tcp_initiator (demo_net\<lparr>net_bytes := \<lambda>_. Inr [0xAA]\<rparr>) demo_addr [0xAA] 5 [])),
      te_server_error = Some payload_differs\<rparr>)"
proof -
  let ?nt = "demo_net\<lparr>net_bytes := \<lambda>_. Inr [0xAB]\<rparr>" and ?ni = "demo_net\<lparr>net_bytes := \<lambda>_. Inr [0xAA]\<rparr>"
  have p: "prompt demo_net 5" "prompt ?nt 5" "prompt ?ni 5" by (simp_all add: prompt_def)
  have forged: "written (snd (tcp_initiator ?ni demo_addr [0xAA] 5 [])) = [0xAA]"
    by (simp add: tcp_initiator_def prompt_connect [OF p(3)] roundtrip_arrived [OF p(3)])
  show ?thesis
    using forward_change_report [where f = "map ((+) 1)" and g = "map ((+) 1)" and p = "[0xAA]" and
        ni = demo_net and nt = ?nt and t = 5 and target = demo_addr and address = demo_addr]
      forward_change_report [where f = "map ((+) 1)" and g = "\<lambda>_. [0xAA]" and p = "[0xAA]" and
        ni = ?ni and nt = ?nt and t = 5 and target = demo_addr and address = demo_addr]
    by (simp add: p demo_change forged)
qed

end
