(* ===== verification/Control_Channel.thy ===== *)
theory Control_Channel
  imports Control_Msg Probe_Types
begin

text \<open>
  The control channel (\<open>src/control/mod.rs\<close>): newline-delimited JSON frames over a byte stream,
  with a frame buffer that survives cancelled reads, a limit on the length of a frame, and a
  permanent failure once the limit is passed. The socket is the list of what its reads will
  return; the JSON text library is the parameter \<open>json_text\<close>.
\<close>

section \<open>State\<close>

text \<open>One read of the socket: bytes (none at the end of the stream) or an I/O error.\<close>

datatype read_event = Chunk bytes | ReadFault string

text \<open>
  One \<open>write_all\<close> and \<open>flush\<close>: both succeed, the write fails after some bytes went out, or the
  flush fails.
\<close>

datatype write_event = WriteOk | WriteFault nat string | FlushFault string

record control_channel =
  buffered :: bytes
  incoming :: "read_event list"
  written :: bytes
  write_script :: "write_event list"
  frame :: bytes
  framing_failed :: bool
  verbose :: u8
  peer_address :: "string + socket_addr"
  local_address :: "string + socket_addr"

text \<open>
  The reader is a \<open>BufReader\<close>: \<open>buffered\<close> holds the bytes of the last read that were not
  consumed, \<open>incoming\<close> what the next reads return.
\<close>

definition new_channel ::
  "read_event list \<Rightarrow> write_event list \<Rightarrow> u8 \<Rightarrow> string + socket_addr \<Rightarrow> string + socket_addr \<Rightarrow>
   control_channel" where
  "new_channel reader writer v peer loc =
     \<lparr>buffered = [], incoming = reader, written = [], write_script = writer,
      frame = [], framing_failed = False, verbose = v,
      peer_address = peer, local_address = loc\<rparr>"

definition peer_addr :: "control_channel \<Rightarrow> string + socket_addr" where
  "peer_addr c = peer_address c"

definition local_addr :: "control_channel \<Rightarrow> string + socket_addr" where
  "local_addr c = local_address c"

text \<open>
  A TLS stream: the addresses of its TCP socket, asked of the operating system (with the text of its
  errors), what its reads return and what becomes of its writes.
\<close>

record tls_stream =
  ts_peer_addr :: "string + socket_addr"
  ts_local_addr :: "string + socket_addr"
  ts_reader :: "read_event list"
  ts_writer :: "write_event list"

definition channel_from_tls_stream :: "tls_stream \<Rightarrow> u8 \<Rightarrow> control_channel" where
  "channel_from_tls_stream stream v =
     (let peer_address = ts_peer_addr stream;
          local_address = ts_local_addr stream
      in new_channel (ts_reader stream) (ts_writer stream) v peer_address local_address)"

definition channel_from_client_tls :: "tls_stream \<Rightarrow> u8 \<Rightarrow> control_channel" where
  "channel_from_client_tls stream v =
     (let peer_address = ts_peer_addr stream;
          local_address = ts_local_addr stream
      in new_channel (ts_reader stream) (ts_writer stream) v peer_address local_address)"

section \<open>The JSON text library\<close>

text \<open>
  \<open>render\<close> is \<open>serde_json::to_vec\<close>, \<open>parse\<close> the text level of \<open>serde_json::from_slice\<close>, and
  \<open>shape_error\<close> the text of the error for an object that is no message.
\<close>

record json_text =
  render :: "json_object \<Rightarrow> string + bytes"
  parse :: "bytes \<Rightarrow> string + json_object"
  shape_error :: "json_object \<Rightarrow> string"

definition deserialize :: "json_text \<Rightarrow> bytes \<Rightarrow> string + message" where
  "deserialize J bs =
     (case parse J bs of
        Inl e \<Rightarrow> Inl (''deserialize: '' @ e)
      | Inr obj \<Rightarrow>
          (case message_from_json obj of
             None \<Rightarrow> Inl (''deserialize: '' @ shape_error J obj)
           | Some m \<Rightarrow> Inr m))"

definition newline :: u8 where
  "newline = 10"

definition MAX_FRAME_BYTES :: nat where
  "MAX_FRAME_BYTES = 1024 * 1024"

section \<open>Sending\<close>

definition send :: "json_text \<Rightarrow> message \<Rightarrow> control_channel \<Rightarrow> (string + unit) \<times> control_channel" where
  "send J msg c =
     (case render J (message_to_json msg) of
        Inl e \<Rightarrow> (Inl (''serialize: '' @ e), c)
      | Inr json \<Rightarrow>
          let line = json @ [newline] in
          (case write_script c of
             [] \<Rightarrow> (Inr (), c\<lparr>written := written c @ line\<rparr>)
           | WriteOk # ws \<Rightarrow> (Inr (), c\<lparr>written := written c @ line, write_script := ws\<rparr>)
           | WriteFault n e # ws \<Rightarrow>
               (Inl (''write: '' @ e), c\<lparr>written := written c @ take n line, write_script := ws\<rparr>)
           | FlushFault e # ws \<Rightarrow>
               (Inl (''flush: '' @ e), c\<lparr>written := written c @ line, write_script := ws\<rparr>)))"

section \<open>Receiving\<close>

definition fill_buf :: "control_channel \<Rightarrow> (string + bytes) poll \<times> control_channel" where
  "fill_buf c =
     (if buffered c \<noteq> [] then (Ready (Inr (buffered c)), c)
      else (case incoming c of
              [] \<Rightarrow> (Pending, c)
            | ReadFault e # es \<Rightarrow> (Ready (Inl e), c\<lparr>incoming := es\<rparr>)
            | Chunk bs # es \<Rightarrow> (Ready (Inr bs), c\<lparr>buffered := bs, incoming := es\<rparr>)))"

definition consume :: "nat \<Rightarrow> control_channel \<Rightarrow> control_channel" where
  "consume n c = c\<lparr>buffered := drop n (buffered c)\<rparr>"

definition frame_too_large :: string where
  "frame_too_large = ''control frame too large (maximum 1048576 bytes)''"

text \<open>What one turn of the loop of \<open>recv\<close> does with the bytes \<open>fill_buf\<close> gave.\<close>

definition take_buffered ::
  "json_text \<Rightarrow> bytes \<Rightarrow> control_channel \<Rightarrow> (string + message) option \<times> control_channel" where
  "take_buffered J buf c =
     (if buf = [] then
        (Some (Inl (if frame c = [] then ''connection closed''
                    else ''connection closed during control frame'')), c)
      else
        let newline_at = position (\<lambda>byte. byte = newline) buf;
            count = (case newline_at of None \<Rightarrow> length buf | Some index \<Rightarrow> index + 1)
        in if length (frame c) + count > MAX_FRAME_BYTES then
             (Some (Inl frame_too_large), c\<lparr>frame := [], framing_failed := True\<rparr>)
           else
             let c' = consume count (c\<lparr>frame := frame c @ take count buf\<rparr>)
             in if newline_at \<noteq> None then (Some (deserialize J (frame c')), c'\<lparr>frame := []\<rparr>)
                else (None, c'))"

text \<open>
  The loop. A turn that finds no newline empties the buffer, so the number of reads still to come
  (and the buffer, when it is not empty) bounds the number of turns.
\<close>

definition reads_left :: "control_channel \<Rightarrow> nat" where
  "reads_left c = length (incoming c) + (if buffered c = [] then 0 else 1)"

lemma take_buffered_continues:
  assumes "take_buffered J buf c = (None, c')"
  shows "newline \<notin> set buf" and "buf \<noteq> []"
    and "length (frame c) + length buf \<le> MAX_FRAME_BYTES"
    and "c' = c\<lparr>frame := frame c @ buf, buffered := drop (length buf) (buffered c)\<rparr>"
proof -
  have none: "position (\<lambda>byte. byte = newline) buf = None"
    using assms by (simp add: take_buffered_def Let_def split: if_splits)
  then show "newline \<notin> set buf" by (auto simp: position_None_iff)
  from assms none show "buf \<noteq> []" "length (frame c) + length buf \<le> MAX_FRAME_BYTES"
    "c' = c\<lparr>frame := frame c @ buf, buffered := drop (length buf) (buffered c)\<rparr>"
    by (simp_all add: take_buffered_def Let_def consume_def split: if_splits)
qed

lemma reads_left_decreases:
  assumes "fill_buf c = (Ready (Inr buf), c1)" and "take_buffered J buf c1 = (None, c2)"
  shows "reads_left c2 < reads_left c"
  using assms(1) take_buffered_continues [OF assms(2)]
  by (auto simp: fill_buf_def reads_left_def split: if_splits list.splits read_event.splits)

function recv_loop ::
  "json_text \<Rightarrow> control_channel \<Rightarrow> (string + message) poll \<times> control_channel" where
  "recv_loop J c =
     (case fill_buf c of
        (Pending, c1) \<Rightarrow> (Pending, c1)
      | (Ready (Inl e), c1) \<Rightarrow> (Ready (Inl (''read: '' @ e)), c1)
      | (Ready (Inr buf), c1) \<Rightarrow>
          (case take_buffered J buf c1 of
             (Some r, c2) \<Rightarrow> (Ready r, c2)
           | (None, c2) \<Rightarrow> recv_loop J c2))"
  by pat_completeness auto
termination
  by (relation "measure (\<lambda>(J, c). reads_left c)") (auto intro: reads_left_decreases [OF sym sym])

declare recv_loop.simps [simp del]

definition recv :: "json_text \<Rightarrow> control_channel \<Rightarrow> (string + message) poll \<times> control_channel" where
  "recv J c =
     (if framing_failed c then (Ready (Inl ''control framing failed''), c) else recv_loop J c)"


section \<open>The byte stream a channel has still to read\<close>

fun event_bytes :: "read_event \<Rightarrow> bytes" where
  "event_bytes (Chunk bs) = bs"
| "event_bytes (ReadFault e) = []"

fun is_data :: "read_event \<Rightarrow> bool" where
  "is_data (Chunk bs) = (bs \<noteq> [])"
| "is_data (ReadFault e) = False"

definition arrived :: "control_channel \<Rightarrow> bytes" where
  "arrived c = frame c @ buffered c @ concat (map event_bytes (incoming c))"

text \<open>No read error and no end of stream among the reads to come.\<close>

definition stream_ok :: "control_channel \<Rightarrow> bool" where
  "stream_ok c \<longleftrightarrow> list_all is_data (incoming c)"

text \<open>The invariant of the frame buffer.\<close>

definition frame_inv :: "control_channel \<Rightarrow> bool" where
  "frame_inv c \<longleftrightarrow>
     newline \<notin> set (frame c) \<and> length (frame c) \<le> MAX_FRAME_BYTES \<and>
     (framing_failed c \<longrightarrow> frame c = [])"

definition same_ends :: "control_channel \<Rightarrow> control_channel \<Rightarrow> bool" where
  "same_ends c c' \<longleftrightarrow>
     written c' = written c \<and> write_script c' = write_script c \<and> verbose c' = verbose c \<and>
     peer_address c' = peer_address c \<and> local_address c' = local_address c"

lemma same_ends_refl [simp]: "same_ends c c"
  by (simp add: same_ends_def)

lemma same_ends_trans: "same_ends a b \<Longrightarrow> same_ends b c \<Longrightarrow> same_ends a c"
  by (simp add: same_ends_def)

lemma fill_buf_cases:
  assumes "stream_ok c"
  obtains (pending) "fill_buf c = (Pending, c)" "buffered c = []" "incoming c = []"
  | (data) buf es where
      "fill_buf c = (Ready (Inr buf), c\<lparr>buffered := buf, incoming := es\<rparr>)" "buf \<noteq> []"
      "buffered c @ concat (map event_bytes (incoming c)) = buf @ concat (map event_bytes es)"
      "list_all is_data es"
proof (cases "buffered c")
  case (Cons b bs)
  show ?thesis
  proof (rule data)
    show "fill_buf c = (Ready (Inr (buffered c)), c\<lparr>buffered := buffered c, incoming := incoming c\<rparr>)"
      using Cons by (simp add: fill_buf_def)
  qed (use Cons assms in \<open>simp_all add: stream_ok_def\<close>)
next
  case Nil
  show ?thesis
  proof (cases "incoming c")
    case Nil' [simp]: Nil
    show ?thesis by (rule pending) (use Nil in \<open>simp_all add: fill_buf_def\<close>)
  next
    case (Cons e es)
    with assms obtain bs where e: "e = Chunk bs" "bs \<noteq> []" "list_all is_data es"
      by (cases e) (auto simp: stream_ok_def)
    show ?thesis
    proof (rule data)
      show "fill_buf c = (Ready (Inr bs), c\<lparr>buffered := bs, incoming := es\<rparr>)"
        using Nil Cons e by (simp add: fill_buf_def)
    qed (use Nil Cons e in simp_all)
  qed
qed

lemma take_buffered_no_newline:
  assumes "buf \<noteq> []" and "newline \<notin> set buf"
    and "length (frame c) + length buf \<le> MAX_FRAME_BYTES" and "buffered c = buf"
  shows "take_buffered J buf c = (None, c\<lparr>frame := frame c @ buf, buffered := []\<rparr>)"
proof -
  have "position (\<lambda>byte. byte = newline) buf = None"
    using assms(2) by (auto simp: position_None_iff)
  with assms show ?thesis by (simp add: take_buffered_def Let_def consume_def)
qed

lemma take_buffered_newline:
  assumes "buffered c = pre @ newline # post" and "newline \<notin> set pre"
    and "length (frame c) + length pre < MAX_FRAME_BYTES"
  shows "take_buffered J (pre @ newline # post) c =
    (Some (deserialize J (frame c @ pre @ [newline])), c\<lparr>frame := [], buffered := post\<rparr>)"
proof -
  have "position (\<lambda>byte. byte = newline) (pre @ newline # post) = Some (length pre)"
    using assms(2) by (intro position_append_hit) auto
  with assms show ?thesis
    by (simp add: take_buffered_def Let_def consume_def)
qed

lemma recv_loop_line:
  assumes "stream_ok c" and "newline \<notin> set (frame c)"
    and "arrived c = line @ newline # rest" and "newline \<notin> set line"
    and "length line < MAX_FRAME_BYTES"
  shows "\<exists>c'. recv_loop J c = (Ready (deserialize J (line @ [newline])), c') \<and>
           arrived c' = rest \<and> frame c' = [] \<and> stream_ok c' \<and>
           framing_failed c' = framing_failed c \<and> same_ends c c'"
  using assms
proof (induction J c rule: recv_loop.induct)
  case (1 J c)
  from "1.prems"(1) show ?case
  proof (cases rule: fill_buf_cases)
    case pending
    with "1.prems"(2,3) show ?thesis by (auto simp: arrived_def dest: arg_cong [of _ _ set])
  next
    case (data buf es)
    define c1 where "c1 = c\<lparr>buffered := buf, incoming := es\<rparr>"
    have arr: "frame c @ buf @ concat (map event_bytes es) = line @ newline # rest"
      using "1.prems"(3) data(3) by (simp add: arrived_def)
    show ?thesis
    proof (cases "newline \<in> set buf")
      case True
      then obtain pre post where buf: "buf = pre @ newline # post" and pre: "newline \<notin> set pre"
        by (meson split_list_first)
      have "frame c @ pre = line \<and> post @ concat (map event_bytes es) = rest"
        using arr "1.prems"(2,4) pre buf by (intro first_occurrence_unique [of _ newline]) auto
      with "1.prems"(5) data pre show ?thesis
        by (subst recv_loop.simps)
           (auto simp: buf take_buffered_newline arrived_def stream_ok_def same_ends_def)
    next
      case False
      define c2 where "c2 = c1\<lparr>frame := frame c @ buf, buffered := []\<rparr>"
      have "length (frame c @ buf) \<le> length line"
        using arr False "1.prems"(2)
        by (intro length_before_first [of _ _ line newline rest]) auto
      with "1.prems"(5) data(2) False have step: "take_buffered J buf c1 = (None, c2)"
        by (simp add: c1_def c2_def take_buffered_no_newline)
      have "\<exists>c'. recv_loop J c2 = (Ready (deserialize J (line @ [newline])), c') \<and>
          arrived c' = rest \<and> frame c' = [] \<and> stream_ok c' \<and>
          framing_failed c' = framing_failed c2 \<and> same_ends c2 c'"
        using arr "1.prems" data False
        by (intro "1.IH" [OF data(1) [folded c1_def, symmetric] refl refl step [symmetric] refl])
           (simp_all add: c1_def c2_def arrived_def stream_ok_def)
      with data(1) step show ?thesis
        by (subst recv_loop.simps) (auto simp: c1_def c2_def same_ends_def)
    qed
  qed
qed


text \<open>Without a newline in what has arrived, and below the limit, the call waits.\<close>

lemma recv_loop_waits:
  assumes "stream_ok c" and "newline \<notin> set (arrived c)" and "length (arrived c) \<le> MAX_FRAME_BYTES"
  shows "recv_loop J c = (Pending, c\<lparr>frame := arrived c, buffered := [], incoming := []\<rparr>)"
  using assms
proof (induction J c rule: recv_loop.induct)
  case (1 J c)
  from "1.prems"(1) show ?case
  proof (cases rule: fill_buf_cases)
    case pending
    then show ?thesis by (subst recv_loop.simps) (simp add: arrived_def)
  next
    case (data buf es)
    define c1 where "c1 = c\<lparr>buffered := buf, incoming := es\<rparr>"
    define c2 where "c2 = c1\<lparr>frame := frame c @ buf, buffered := []\<rparr>"
    have arr: "arrived c = frame c @ buf @ concat (map event_bytes es)"
      using data(3) by (simp add: arrived_def)
    have arr2: "arrived c2 = arrived c"
      using data(3) by (simp add: c2_def c1_def arrived_def)
    have step: "take_buffered J buf c1 = (None, c2)"
      using "1.prems"(2,3) data(2) by (simp add: c1_def c2_def take_buffered_no_newline arr)
    have "recv_loop J c2 = (Pending, c2\<lparr>frame := arrived c2, buffered := [], incoming := []\<rparr>)"
      using "1.prems" data(4)
      by (intro "1.IH" [OF data(1) [folded c1_def, symmetric] refl refl step [symmetric] refl])
         (simp_all add: arr2, simp add: c1_def c2_def stream_ok_def)
    with data(1) step arr2 show ?thesis
      by (subst recv_loop.simps) (simp add: c1_def c2_def)
  qed
qed

text \<open>
  More than the limit with no newline among the first \<open>MAX_FRAME_BYTES\<close> bytes is refused, however
  the bytes were cut into reads.
\<close>

lemma recv_loop_oversize:
  assumes "stream_ok c" and "newline \<notin> set (take MAX_FRAME_BYTES (arrived c))"
    and "MAX_FRAME_BYTES < length (arrived c)" and "length (frame c) \<le> MAX_FRAME_BYTES"
  shows "\<exists>c'. recv_loop J c = (Ready (Inl frame_too_large), c') \<and> framing_failed c' \<and> frame c' = []"
  using assms
proof (induction J c rule: recv_loop.induct)
  case (1 J c)
  from "1.prems"(1) show ?case
  proof (cases rule: fill_buf_cases)
    case pending
    with "1.prems"(3,4) show ?thesis by (simp add: arrived_def)
  next
    case (data buf es)
    define c1 where "c1 = c\<lparr>buffered := buf, incoming := es\<rparr>"
    have arr: "arrived c = frame c @ buf @ concat (map event_bytes es)"
      using data(3) by (simp add: arrived_def)
    show ?thesis
    proof (cases "length (frame c) + length buf \<le> MAX_FRAME_BYTES")
      case True
      define c2 where "c2 = c1\<lparr>frame := frame c @ buf, buffered := []\<rparr>"
      have arr2: "arrived c2 = arrived c"
        using data(3) by (simp add: c2_def c1_def arrived_def)
      have "newline \<notin> set buf"
        using "1.prems"(2) True by (simp add: arr)
      then have step: "take_buffered J buf c1 = (None, c2)"
        using True data(2) by (simp add: c1_def c2_def take_buffered_no_newline)
      have "\<exists>c'. recv_loop J c2 = (Ready (Inl frame_too_large), c') \<and> framing_failed c' \<and> frame c' = []"
        using "1.prems" data(4) True
        by (intro "1.IH" [OF data(1) [folded c1_def, symmetric] refl refl step [symmetric] refl])
           (simp_all add: arr2, simp_all add: c1_def c2_def stream_ok_def)
      with data(1) step show ?thesis
        by (subst recv_loop.simps) (simp add: c1_def)
    next
      case False
      have long: "MAX_FRAME_BYTES < length (frame c) +
          (case position (\<lambda>byte. byte = newline) buf of None \<Rightarrow> length buf | Some i \<Rightarrow> i + 1)"
      proof (cases "position (\<lambda>byte. byte = newline) buf")
        case (Some i)
        then have i: "i < length buf" "buf ! i = newline" by (simp_all add: position_Some_iff)
        have "\<not> length (frame c) + i < MAX_FRAME_BYTES"
        proof
          assume "length (frame c) + i < MAX_FRAME_BYTES"
          then have "newline \<in> set (take (MAX_FRAME_BYTES - length (frame c)) buf)"
            using i by (auto simp: in_set_conv_nth intro!: exI [of _ i])
          with "1.prems"(2) show False by (simp add: arr)
        qed
        with Some show ?thesis by simp
      qed (use False in simp)
      then have "take_buffered J buf c1 =
          (Some (Inl frame_too_large), c1\<lparr>frame := [], framing_failed := True\<rparr>)"
        using data(2) by (simp add: take_buffered_def Let_def c1_def)
      with data(1) show ?thesis
        by (subst recv_loop.simps) (simp add: c1_def)
    qed
  qed
qed

section \<open>Invariant, cancellation, failure\<close>

lemma take_buffered_frame_inv:
  assumes "take_buffered J buf c = (r, c')" and "frame_inv c" and "\<not> framing_failed c"
  shows "frame_inv c' \<and> (r = None \<longrightarrow> \<not> framing_failed c')"
proof (cases r)
  case None
  with take_buffered_continues [of J buf c c'] assms show ?thesis
    by (auto simp: frame_inv_def)
next
  case (Some s)
  with assms show ?thesis
    by (auto simp: take_buffered_def Let_def frame_inv_def consume_def split: if_splits)
qed

lemma fill_buf_frame [simp]:
  assumes "fill_buf c = (p, c')"
  shows "frame c' = frame c" and "framing_failed c' = framing_failed c"
  using assms by (auto simp: fill_buf_def split: if_splits list.splits read_event.splits)

lemma recv_loop_frame_inv:
  "frame_inv c \<Longrightarrow> \<not> framing_failed c \<Longrightarrow> frame_inv (snd (recv_loop J c))"
proof (induction J c rule: recv_loop.induct)
  case (1 J c)
  obtain p c1 where fb: "fill_buf c = (p, c1)" by fastforce
  have c1: "frame_inv c1" "\<not> framing_failed c1"
    using "1.prems" fill_buf_frame [OF fb] by (simp_all add: frame_inv_def)
  show ?case
  proof (cases "\<exists>buf. p = Ready (Inr buf)")
    case False
    with fb c1 show ?thesis
      by (subst recv_loop.simps) (auto split: poll.splits sum.splits)
  next
    case True
    then obtain buf where p: "p = Ready (Inr buf)" by blast
    obtain r c2 where tb: "take_buffered J buf c1 = (r, c2)" by fastforce
    have c2: "frame_inv c2" "r = None \<longrightarrow> \<not> framing_failed c2"
      using take_buffered_frame_inv [OF tb c1] by simp_all
    show ?thesis
    proof (cases r)
      case None
      have "frame_inv (snd (recv_loop J c2))"
        using c2 None
        by (intro "1.IH" [OF fb [symmetric] p refl tb [symmetric] None]) simp_all
      with fb p tb None show ?thesis by (subst recv_loop.simps) simp
    next
      case (Some s)
      with fb p tb c2 show ?thesis by (subst recv_loop.simps) simp
    qed
  qed
qed

lemma recv_frame_inv: "frame_inv c \<Longrightarrow> frame_inv (snd (recv J c))"
  by (simp add: recv_def recv_loop_frame_inv)

lemma send_frame [simp]: "frame (snd (send J m c)) = frame c"
    "framing_failed (snd (send J m c)) = framing_failed c"
  by (auto simp: send_def Let_def split: sum.splits list.splits write_event.splits)

lemma send_frame_inv: "frame_inv c \<Longrightarrow> frame_inv (snd (send J m c))"
  by (simp add: frame_inv_def)

lemma channel_from_stream_addresses:
  "peer_addr (channel_from_tls_stream stream v) = ts_peer_addr stream"
  "local_addr (channel_from_tls_stream stream v) = ts_local_addr stream"
  "peer_addr (channel_from_client_tls stream v) = ts_peer_addr stream"
  "local_addr (channel_from_client_tls stream v) = ts_local_addr stream"
  by (simp_all add: channel_from_tls_stream_def channel_from_client_tls_def new_channel_def
      peer_addr_def local_addr_def)

lemma new_channel_frame_inv: "frame_inv (new_channel r w v p l)"
  by (simp add: new_channel_def frame_inv_def)

text \<open>More input becomes available.\<close>

definition feed :: "read_event list \<Rightarrow> control_channel \<Rightarrow> control_channel" where
  "feed es c = c\<lparr>incoming := incoming c @ es\<rparr>"

lemma take_buffered_feed:
  "take_buffered J buf (feed es c) = (case take_buffered J buf c of (r, c') \<Rightarrow> (r, feed es c'))"
  by (simp add: take_buffered_def Let_def consume_def feed_def)

lemma fill_buf_feed:
  "fill_buf c = (Ready r, c') \<Longrightarrow> fill_buf (feed es c) = (Ready r, feed es c')"
  by (auto simp: fill_buf_def feed_def split: if_splits list.splits read_event.splits)

lemma fill_buf_PendingD: "fill_buf c = (Pending, c') \<Longrightarrow> c' = c \<and> buffered c = [] \<and> incoming c = []"
  by (auto simp: fill_buf_def split: if_splits list.splits read_event.splits)

lemma recv_loop_resume:
  "recv_loop J c = (Pending, c') \<Longrightarrow>
   recv_loop J (feed es c) = recv_loop J (feed es c') \<and> framing_failed c' = framing_failed c"
proof (induction J c rule: recv_loop.induct)
  case (1 J c)
  obtain p c1 where fb: "fill_buf c = (p, c1)" by fastforce
  show ?case
  proof (cases p)
    case Pending
    with fb "1.prems" show ?thesis
      by (auto simp: recv_loop.simps [of J c] dest: fill_buf_PendingD)
  next
    case (Ready r)
    with fb "1.prems" obtain buf where r: "r = Inr buf"
      by (auto simp: recv_loop.simps [of J c] split: sum.splits)
    obtain s c2 where tb: "take_buffered J buf c1 = (s, c2)" by fastforce
    from fb Ready r tb "1.prems" have s: "s = None" and rest: "recv_loop J c2 = (Pending, c')"
      by (auto simp: recv_loop.simps [of J c] split: option.splits)
    have ih: "recv_loop J (feed es c2) = recv_loop J (feed es c') \<and>
        framing_failed c' = framing_failed c2"
      using rest by (intro "1.IH" [OF fb [symmetric] Ready r tb [symmetric] s])
    have "recv_loop J (feed es c) = recv_loop J (feed es c2)"
      using fill_buf_feed [OF fb [unfolded Ready], of es] tb s r
      by (subst recv_loop.simps) (simp add: take_buffered_feed)
    with ih take_buffered_continues(4) [OF tb [unfolded s]] fill_buf_frame(2) [OF fb]
    show ?thesis by simp
  qed
qed

lemma recv_resume: "recv J c = (Pending, c') \<Longrightarrow> recv J (feed es c) = recv J (feed es c')"
  using recv_loop_resume [of J c c' es]
  by (auto simp: recv_def feed_def split: if_splits)

lemma recv_after_failure: "framing_failed c \<Longrightarrow> recv J c = (Ready (Inl ''control framing failed''), c)"
  by (simp add: recv_def)


section \<open>Properties\<close>

text \<open>
  Property C12: however the bytes of a line are cut into reads, and whatever part of it earlier calls
  already buffered, \<open>recv\<close> returns the decoded line and leaves exactly the bytes after it.
\<close>

theorem recv_any_chunking:
  assumes "stream_ok c" and "frame_inv c" and "\<not> framing_failed c"
    and "arrived c = line @ newline # rest" and "newline \<notin> set line"
    and "length line < MAX_FRAME_BYTES"
  shows "\<exists>c'. recv J c = (Ready (deserialize J (line @ [newline])), c') \<and>
           arrived c' = rest \<and> stream_ok c' \<and> frame_inv c' \<and> \<not> framing_failed c' \<and> same_ends c c'"
proof -
  from assms(2) have "newline \<notin> set (frame c)" by (simp add: frame_inv_def)
  from recv_loop_line [OF assms(1) this assms(4-6), of J] assms(3) show ?thesis
    by (auto simp: recv_def frame_inv_def)
qed

text \<open>A JSON text library good enough for messages that consist of their tag.\<close>

definition demo_json :: json_text where
  "demo_json =
     \<lparr>render = (\<lambda>obj. case obj ''type'' of Some (JStr s) \<Rightarrow> Inr (bytes_of_string s) | _ \<Rightarrow> Inl ''no tag''),
      parse = (\<lambda>bs. Inr [''type'' \<mapsto> JStr (map (char_of \<circ> unat) (butlast bs))]),
      shape_error = (\<lambda>_. [])\<rparr>"

definition demo_address :: "string + socket_addr" where
  "demo_address = Inr (SocketV4 0x7F000001 443)"

theorem recv_any_chunking_witness:
  "\<exists>c'. recv demo_json (new_channel [Chunk [123], Chunk [125, 10, 91]] [] 0 demo_address demo_address) =
          (Ready (deserialize demo_json [123, 125, newline]), c') \<and> arrived c' = [91] \<and> stream_ok c' \<and>
        frame_inv c' \<and> \<not> framing_failed c' \<and>
        same_ends (new_channel [Chunk [123], Chunk [125, 10, 91]] [] 0 demo_address demo_address) c'"
  using recv_any_chunking
    [of "new_channel [Chunk [123], Chunk [125, 10, 91]] [] 0 demo_address demo_address" "[123, 125]" "[91]" demo_json]
  by (simp add: new_channel_def stream_ok_def frame_inv_def arrived_def newline_def MAX_FRAME_BYTES_def)

text \<open>
  Property C29: a line longer than the limit ends the channel: \<open>recv\<close> reports the oversize, keeps
  none of its bytes, and every later call fails without reading.
\<close>

theorem recv_oversize_is_final:
  assumes "stream_ok c" and "frame_inv c" and "\<not> framing_failed c"
    and "newline \<notin> set (take MAX_FRAME_BYTES (arrived c))" and "MAX_FRAME_BYTES < length (arrived c)"
  shows "\<exists>c'. recv J c = (Ready (Inl frame_too_large), c') \<and> frame c' = [] \<and>
           recv J c' = (Ready (Inl ''control framing failed''), c')"
proof -
  from recv_loop_oversize [OF assms(1,4,5), of J] assms(2,3) show ?thesis
    by (auto simp: recv_def frame_inv_def)
qed

theorem recv_oversize_is_final_witness:
  "\<exists>c'. recv demo_json (new_channel [Chunk (replicate 1048577 0)] [] 0 demo_address demo_address) =
          (Ready (Inl frame_too_large), c') \<and> frame c' = [] \<and>
        recv demo_json c' = (Ready (Inl ''control framing failed''), c')"
  by (rule recv_oversize_is_final)
     (simp_all add: new_channel_def stream_ok_def frame_inv_def arrived_def newline_def MAX_FRAME_BYTES_def)

text \<open>
  Property C30: the frame buffer never holds a newline nor more than the limit, and is empty once
  framing failed, from the creation of the channel through every send and every receive.
\<close>

theorem channel_buffer_bounded:
  "frame_inv (new_channel r w v p l) \<and>
   (frame_inv c \<longrightarrow> frame_inv (snd (recv J c)) \<and> frame_inv (snd (send J m c)))"
  using recv_frame_inv send_frame_inv new_channel_frame_inv by blast

theorem channel_buffer_bounded_witness:
  "frame_inv (snd (recv demo_json (new_channel [Chunk [123]] [] 0 demo_address demo_address))) \<and>
   frame_inv (snd (send demo_json Done (new_channel [Chunk [123]] [] 0 demo_address demo_address)))"
  using channel_buffer_bounded [of "[Chunk [123]]" "[]" 0 demo_address demo_address
      "new_channel [Chunk [123]] [] 0 demo_address demo_address" demo_json Done]
  by (simp add: new_channel_def frame_inv_def)

text \<open>
  Property C31: \<open>recv\<close> is safe to cancel: a call that was dropped while it waited loses nothing, a
  new call on the state it left behaves as one call would have with all the input.
\<close>

theorem recv_cancel_safe:
  assumes "recv J c = (Pending, c')"
  shows "recv J (feed es c') = recv J (feed es c)"
  by (rule recv_resume [OF assms, symmetric])

theorem recv_cancel_safe_witness:
  "let c = new_channel [Chunk [123]] [] 0 demo_address demo_address;
       c' = c\<lparr>frame := [123], incoming := []\<rparr>
   in recv demo_json (feed [Chunk [125, 10]] c') = recv demo_json (feed [Chunk [125, 10]] c)"
proof -
  let ?c = "new_channel [Chunk [123]] [] 0 demo_address demo_address"
  have "recv demo_json ?c = (Pending, ?c\<lparr>frame := arrived ?c, buffered := [], incoming := []\<rparr>)"
    by (simp add: recv_def recv_loop_waits new_channel_def stream_ok_def arrived_def newline_def
        MAX_FRAME_BYTES_def)
  from recv_cancel_safe [OF this, of "[Chunk [125, 10]]"] show ?thesis
    by (simp add: arrived_def new_channel_def)
qed

end
