(* ===== verification/Message_Link.thy ===== *)
theory Message_Link
  imports Bimap_Prelude
begin

text \<open>
  The interface the two endpoints need from the control channel: what one side sends, the other
  side receives, once, in order. The laws are stated over an abstract queue of messages; the
  lemmas of the locale lift them from one message to whole conversations.
\<close>

fun put_all :: "('m \<Rightarrow> 'l \<Rightarrow> 'l) \<Rightarrow> 'm list \<Rightarrow> 'l \<Rightarrow> 'l" where
  "put_all put [] l = l"
| "put_all put (m # ms) l = put_all put ms (put m l)"

fun get_many :: "('l \<Rightarrow> 'm option \<times> 'l) \<Rightarrow> nat \<Rightarrow> 'l \<Rightarrow> 'm option list \<times> 'l" where
  "get_many get 0 l = ([], l)"
| "get_many get (Suc n) l =
     (case get l of (r, l') \<Rightarrow> (case get_many get n l' of (rs, l'') \<Rightarrow> (r # rs, l'')))"

locale message_link =
  fixes put :: "'m \<Rightarrow> 'l \<Rightarrow> 'l"
    and get :: "'l \<Rightarrow> 'm option \<times> 'l"
    and queue :: "'l \<Rightarrow> 'm list"
    and inv :: "'l \<Rightarrow> bool"
    and sendable :: "'l \<Rightarrow> 'm \<Rightarrow> bool"
  assumes queue_put: "inv l \<Longrightarrow> sendable l m \<Longrightarrow> queue (put m l) = queue l @ [m]"
    and inv_put: "inv l \<Longrightarrow> sendable l m \<Longrightarrow> inv (put m l)"
    and sendable_put: "inv l \<Longrightarrow> sendable l m \<Longrightarrow> sendable (put m l) n = sendable l n"
    and get_front: "inv l \<Longrightarrow> queue l = m # ms \<Longrightarrow> \<exists>l'. get l = (Some m, l') \<and> queue l' = ms \<and> inv l'"
    and get_empty: "inv l \<Longrightarrow> queue l = [] \<Longrightarrow> \<exists>l'. get l = (None, l') \<and> queue l' = [] \<and> inv l'"
begin

lemma put_all_queue:
  "inv l \<Longrightarrow> list_all (sendable l) ms \<Longrightarrow>
   queue (put_all put ms l) = queue l @ ms \<and> inv (put_all put ms l)"
proof (induction ms arbitrary: l)
  case Nil
  then show ?case by simp
next
  case (Cons m ms)
  then have "list_all (sendable (put m l)) ms"
    by (auto simp: list_all_iff sendable_put)
  with Cons show ?case by (simp add: queue_put inv_put)
qed

lemma get_many_queue:
  "inv l \<Longrightarrow> queue l = ms @ ms' \<Longrightarrow>
   \<exists>l'. get_many get (length ms) l = (map Some ms, l') \<and> queue l' = ms' \<and> inv l'"
proof (induction ms arbitrary: l)
  case Nil
  then show ?case by simp
next
  case (Cons m ms)
  then obtain l1 where l1: "get l = (Some m, l1)" "queue l1 = ms @ ms'" "inv l1"
    using get_front [of l m "ms @ ms'"] by auto
  with Cons.IH [of l1] show ?case by auto
qed

text \<open>A conversation in one direction: everything sent is received in order, then nothing.\<close>

lemma conversation:
  assumes "inv l" and "queue l = []" and "list_all (sendable l) ms"
  shows "\<exists>l'. get_many get (length ms) (put_all put ms l) = (map Some ms, l') \<and>
           queue l' = [] \<and> inv l' \<and> fst (get l') = None"
proof -
  have "queue (put_all put ms l) = ms @ []" and "inv (put_all put ms l)"
    using put_all_queue [OF assms(1,3)] assms(2) by simp_all
  from get_many_queue [OF this(2,1)] obtain l' where
    l': "get_many get (length ms) (put_all put ms l) = (map Some ms, l')" "queue l' = []" "inv l'"
    by blast
  moreover from get_empty [OF l'(3,2)] have "fst (get l') = None" by auto
  ultimately show ?thesis by blast
qed

end

end
