(* ===== verification/Control_Wire.thy ===== *)
theory Control_Wire
  imports Control_Channel Message_Link
begin

text \<open>
  Two control channels joined by the network: what the sender writes reaches the reads of the
  receiver, cut into chunks in an arbitrary way. The theory shows that \<open>send\<close> and \<open>recv\<close> of
  \<open>Control_Channel\<close> implement the message link of \<open>Message_Link\<close>.
\<close>

section \<open>Frames\<close>

definition rendered :: "json_text \<Rightarrow> message \<Rightarrow> bytes" where
  "rendered J m = (case render J (message_to_json m) of Inl e \<Rightarrow> [] | Inr bs \<Rightarrow> bs)"

text \<open>
  What the program relies on of serde_json for a message: rendering succeeds in one line shorter
  than the limit, and parsing the line gives the object back.
\<close>

definition wire_ok :: "json_text \<Rightarrow> message \<Rightarrow> bool" where
  "wire_ok J m \<longleftrightarrow>
     render J (message_to_json m) = Inr (rendered J m) \<and>
     newline \<notin> set (rendered J m) \<and> length (rendered J m) < MAX_FRAME_BYTES \<and>
     parse J (rendered J m @ [newline]) = Inr (message_to_json m)"

definition frame_of :: "json_text \<Rightarrow> message \<Rightarrow> bytes" where
  "frame_of J m = rendered J m @ [newline]"

lemma deserialize_frame_of: "wire_ok J m \<Longrightarrow> deserialize J (frame_of J m) = Inr m"
  by (simp add: wire_ok_def deserialize_def frame_of_def message_json_round_trip)

text \<open>The complete lines of a byte stream.\<close>

fun split_lines :: "bytes \<Rightarrow> bytes \<Rightarrow> bytes list" where
  "split_lines acc [] = []"
| "split_lines acc (b # bs) =
     (if b = newline then (acc @ [b]) # split_lines [] bs else split_lines (acc @ [b]) bs)"

lemma split_lines_line [simp]:
  "newline \<notin> set line \<Longrightarrow>
   split_lines acc (line @ newline # rest) = (acc @ line @ [newline]) # split_lines [] rest"
  by (induction line arbitrary: acc) auto

lemma split_lines_frames:
  "list_all (wire_ok J) ms \<Longrightarrow>
   split_lines [] (concat (map (frame_of J) ms)) = map (frame_of J) ms"
  by (induction ms) (auto simp: frame_of_def wire_ok_def)

section \<open>The joined channels\<close>

text \<open>
  What the sender wrote and the receiver's socket has not got yet is \<open>in_flight\<close>. When the
  receiver reads, the network hands it over in the chunks \<open>cut\<close> chooses, which may depend on how
  much was written before: one frame may come in many reads, many frames in one.
\<close>

record wire =
  text_of :: json_text
  sender :: control_channel
  receiver :: control_channel
  in_flight :: bytes
  cut :: "nat \<Rightarrow> bytes \<Rightarrow> bytes list"

definition wire_put :: "message \<Rightarrow> wire \<Rightarrow> wire" where
  "wire_put m w =
     (case send (text_of w) m (sender w) of
        (_, s') \<Rightarrow>
          w\<lparr>sender := s',
            in_flight := in_flight w @ drop (length (written (sender w))) (written s')\<rparr>)"

definition deliver :: "wire \<Rightarrow> control_channel" where
  "deliver w =
     feed (map Chunk (cut w (length (written (sender w))) (in_flight w))) (receiver w)"

definition wire_get :: "wire \<Rightarrow> message option \<times> wire" where
  "wire_get w =
     (case recv (text_of w) (deliver w) of
        (Ready (Inr m), r') \<Rightarrow> (Some m, w\<lparr>receiver := r', in_flight := []\<rparr>)
      | (_, r') \<Rightarrow> (None, w\<lparr>receiver := r', in_flight := []\<rparr>))"

definition message_of_line :: "json_text \<Rightarrow> bytes \<Rightarrow> message" where
  "message_of_line J l = (case deserialize J l of Inr m \<Rightarrow> m | Inl e \<Rightarrow> BatchEnd)"

text \<open>The messages under way: the complete lines the receiver has not handed out.\<close>

definition wire_bytes :: "wire \<Rightarrow> bytes" where
  "wire_bytes w = arrived (receiver w) @ in_flight w"

definition wire_queue :: "wire \<Rightarrow> message list" where
  "wire_queue w = map (message_of_line (text_of w)) (split_lines [] (wire_bytes w))"

definition cut_ok :: "(nat \<Rightarrow> bytes \<Rightarrow> bytes list) \<Rightarrow> bool" where
  "cut_ok f \<longleftrightarrow> (\<forall>n bs. concat (f n bs) = bs \<and> [] \<notin> set (f n bs))"

definition wire_inv :: "wire \<Rightarrow> bool" where
  "wire_inv w \<longleftrightarrow>
     wire_bytes w = concat (map (frame_of (text_of w)) (wire_queue w)) \<and>
     list_all (wire_ok (text_of w)) (wire_queue w) \<and>
     stream_ok (receiver w) \<and> \<not> framing_failed (receiver w) \<and> newline \<notin> set (frame (receiver w)) \<and>
     write_script (sender w) = [] \<and> cut_ok (cut w)"

definition wire_sendable :: "wire \<Rightarrow> message \<Rightarrow> bool" where
  "wire_sendable w m = wire_ok (text_of w) m"

lemma message_of_line_frame_of [simp]: "wire_ok J m \<Longrightarrow> message_of_line J (frame_of J m) = m"
  by (simp add: message_of_line_def deserialize_frame_of)

lemma queue_of_frames:
  assumes "list_all (wire_ok J) ms"
  shows "map (message_of_line J) (split_lines [] (concat (map (frame_of J) ms))) = ms"
  using assms by (simp add: split_lines_frames) (induction ms; simp)

lemma arrived_feed: "arrived (feed es c) = arrived c @ concat (map event_bytes es)"
  by (simp add: arrived_def feed_def)

lemma map_event_bytes_Chunk [simp]: "map event_bytes (map Chunk xs) = xs"
  by (induction xs) auto

lemma deliver_facts:
  assumes "wire_inv w"
  shows "arrived (deliver w) = wire_bytes w" "stream_ok (deliver w)"
    "framing_failed (deliver w) = framing_failed (receiver w)"
    "frame (deliver w) = frame (receiver w)"
  using assms
  by (simp_all add: deliver_def arrived_feed wire_bytes_def wire_inv_def cut_ok_def del: map_map)
     (auto simp: feed_def stream_ok_def list_all_iff)

lemma wire_put_eq:
  assumes "wire_inv w" and "wire_ok (text_of w) m"
  shows "wire_put m w =
    w\<lparr>sender := (sender w)\<lparr>written := written (sender w) @ frame_of (text_of w) m\<rparr>,
      in_flight := in_flight w @ frame_of (text_of w) m\<rparr>"
  using assms by (simp add: wire_put_def send_def wire_inv_def wire_ok_def frame_of_def Let_def)

lemma wire_put_bytes:
  assumes "wire_inv w" and "wire_ok (text_of w) m"
  shows "wire_bytes (wire_put m w) = concat (map (frame_of (text_of w)) (wire_queue w @ [m]))"
proof -
  have "wire_bytes (wire_put m w) = wire_bytes w @ frame_of (text_of w) m"
    by (simp add: wire_put_eq [OF assms] wire_bytes_def)
  with assms(1) show ?thesis by (simp add: wire_inv_def)
qed

lemma wire_put_queue:
  assumes "wire_inv w" and "wire_ok (text_of w) m"
  shows "wire_queue (wire_put m w) = wire_queue w @ [m]"
proof -
  have "list_all (wire_ok (text_of w)) (wire_queue w @ [m])"
    using assms by (simp add: wire_inv_def)
  from queue_of_frames [OF this] wire_put_bytes [OF assms] show ?thesis
    by (simp add: wire_queue_def [of "wire_put m w"]) (simp add: wire_put_eq [OF assms])
qed

lemma wire_put_inv:
  assumes "wire_inv w" and "wire_ok (text_of w) m"
  shows "wire_inv (wire_put m w)"
  using wire_put_bytes [OF assms] wire_put_queue [OF assms] assms
  by (simp add: wire_inv_def wire_put_eq)

lemma wire_get_front:
  assumes "wire_inv w" and "wire_queue w = m # ms"
  shows "\<exists>w'. wire_get w = (Some m, w') \<and> wire_queue w' = ms \<and> wire_inv w'"
proof -
  let ?J = "text_of w"
  have ok: "wire_ok ?J m" "list_all (wire_ok ?J) ms"
    using assms by (simp_all add: wire_inv_def)
  have "arrived (deliver w) = rendered ?J m @ newline # concat (map (frame_of ?J) ms)"
    using assms deliver_facts(1) [OF assms(1)] by (simp add: wire_inv_def frame_of_def)
  from recv_loop_line [OF _ _ this, of ?J] assms(1) ok(1) deliver_facts [OF assms(1)] obtain c' where
    c': "recv_loop ?J (deliver w) = (Ready (deserialize ?J (frame_of ?J m)), c')"
      "arrived c' = concat (map (frame_of ?J) ms)" "frame c' = []" "stream_ok c'"
      "\<not> framing_failed c'"
    by (auto simp: wire_inv_def wire_ok_def frame_of_def)
  let ?w = "w\<lparr>receiver := c', in_flight := []\<rparr>"
  have get: "wire_get w = (Some m, ?w)"
    using assms(1) deserialize_frame_of [OF ok(1)] c' deliver_facts(3) [OF assms(1)]
    by (simp add: wire_get_def recv_def wire_inv_def)
  have q: "wire_queue ?w = ms"
    using queue_of_frames [OF ok(2)] c'(2) by (simp add: wire_queue_def wire_bytes_def)
  with c' ok assms(1) have "wire_inv ?w"
    by (simp add: wire_inv_def wire_bytes_def)
  with get q show ?thesis by blast
qed

lemma wire_get_empty:
  assumes "wire_inv w" and "wire_queue w = []"
  shows "\<exists>w'. wire_get w = (None, w') \<and> wire_queue w' = [] \<and> wire_inv w'"
proof -
  have arr: "arrived (deliver w) = []"
    using assms deliver_facts(1) [OF assms(1)] by (simp add: wire_inv_def)
  let ?c = "(deliver w)\<lparr>frame := [], buffered := [], incoming := []\<rparr>"
  let ?w = "w\<lparr>receiver := ?c, in_flight := []\<rparr>"
  have "recv_loop (text_of w) (deliver w) = (Pending, ?c)"
    using assms(1) arr deliver_facts [OF assms(1)] by (subst recv_loop_waits) simp_all
  then have get: "wire_get w = (None, ?w)"
    using assms(1) deliver_facts(3) [OF assms(1)]
    by (simp add: wire_get_def recv_def wire_inv_def)
  have q: "wire_queue ?w = []"
    by (simp add: wire_queue_def wire_bytes_def arrived_def)
  with assms(1) deliver_facts(3) [OF assms(1)] have "wire_inv ?w"
    by (simp add: wire_inv_def) (simp add: wire_bytes_def arrived_def stream_ok_def)
  with get q show ?thesis by blast
qed

interpretation ctl: message_link wire_put wire_get wire_queue wire_inv wire_sendable
proof unfold_locales
  fix l :: wire and m n :: message and ms :: "message list"
  show "wire_inv l \<Longrightarrow> wire_sendable l m \<Longrightarrow> wire_queue (wire_put m l) = wire_queue l @ [m]"
    by (simp add: wire_sendable_def wire_put_queue)
  show "wire_inv l \<Longrightarrow> wire_sendable l m \<Longrightarrow> wire_inv (wire_put m l)"
    by (simp add: wire_sendable_def wire_put_inv)
  show "wire_inv l \<Longrightarrow> wire_sendable l m \<Longrightarrow> wire_sendable (wire_put m l) n = wire_sendable l n"
    by (simp add: wire_sendable_def wire_put_eq)
  show "wire_inv l \<Longrightarrow> wire_queue l = m # ms \<Longrightarrow>
      \<exists>l'. wire_get l = (Some m, l') \<and> wire_queue l' = ms \<and> wire_inv l'"
    by (rule wire_get_front)
  show "wire_inv l \<Longrightarrow> wire_queue l = [] \<Longrightarrow>
      \<exists>l'. wire_get l = (None, l') \<and> wire_queue l' = [] \<and> wire_inv l'"
    by (rule wire_get_empty)
qed


section \<open>Properties\<close>

text \<open>
  Property C11: two channels joined by a byte stream are a reliable queue: the messages sent are
  received in order, each once, however the stream is cut into reads, and then nothing more.
\<close>

theorem wire_conversation:
  assumes "wire_inv w" and "wire_queue w = []" and "list_all (wire_sendable w) ms"
  shows "\<exists>w'. get_many wire_get (length ms) (put_all wire_put ms w) = (map Some ms, w') \<and>
           wire_queue w' = [] \<and> wire_inv w' \<and> fst (wire_get w') = None"
  by (rule ctl.conversation [OF assms])

definition demo_wire :: wire where
  "demo_wire =
     \<lparr>text_of = demo_json, sender = new_channel [] [] 0 demo_address demo_address,
      receiver = new_channel [] [] 0 demo_address demo_address, in_flight = [],
      cut = (\<lambda>_. map (\<lambda>b. [b]))\<rparr>"

theorem wire_conversation_witness:
  "\<exists>w'. get_many wire_get 2 (put_all wire_put [Done, BatchEnd] demo_wire) =
          (map Some [Done, BatchEnd], w') \<and>
        wire_queue w' = [] \<and> wire_inv w' \<and> fst (wire_get w') = None"
proof -
  have ok: "wire_ok demo_json BatchEnd" "wire_ok demo_json Done"
    by (simp_all add: wire_ok_def rendered_def demo_json_def newline_def MAX_FRAME_BYTES_def
        bytes_of_string_def char_of_def bit_0)
  have cut: "concat (map (\<lambda>b. [b]) bs) = bs" for bs :: bytes
    by (induction bs) simp_all
  have queue: "wire_queue demo_wire = []"
    by (simp add: wire_queue_def wire_bytes_def demo_wire_def arrived_def new_channel_def)
  then have inv: "wire_inv demo_wire"
    by (simp add: wire_inv_def wire_bytes_def) (auto simp: demo_wire_def arrived_def new_channel_def
      stream_ok_def cut_ok_def cut)
  have "list_all (wire_sendable demo_wire) [Done, BatchEnd]"
    using ok by (simp add: wire_sendable_def demo_wire_def)
  from wire_conversation [OF inv queue this] show ?thesis by (simp add: numeral_2_eq_2)
qed

end
