(* ===== verification/Causality.thy ===== *)
theory Causality
  imports Session_View
begin

text \<open>
  What a party has said depends on what it has heard so far only: with more input it says the same,
  and perhaps more.
\<close>

lemma next_event_append:
  "next_event (es @ fs) = (fst (next_event es), snd (next_event es) @ fs) \<or> isl (fst (next_event es))"
  by (induction es rule: next_event.induct) simp_all

lemma next_event_within_append:
  "next_event_within t (es @ fs) = (fst (next_event_within t es), snd (next_event_within t es) @ fs) \<or>
   (\<exists>e. fst (next_event_within t es) = Some (Inl e))"
  by (induction t es rule: next_event_within.induct) simp_all

interpretation heard: view prefix True 0
proof
  show "fst (next_event fs) = fst (next_event es) \<and> prefix (snd (next_event es)) (snd (next_event fs)) \<or>
      True \<and> isl (fst (next_event es))" if "prefix es fs" for es fs
  proof -
    from that obtain gs where "fs = es @ gs" by (auto simp: prefix_def)
    with next_event_append [of es gs] show ?thesis by auto
  qed
  show "fst (next_event_within t fs) = fst (next_event_within t es) \<and>
        prefix (snd (next_event_within t es)) (snd (next_event_within t fs)) \<or>
      True \<and> (\<exists>e. fst (next_event_within t es) = Some (Inl e))" if "prefix es fs" for es fs t
  proof -
    from that obtain gs where "fs = es @ gs" by (auto simp: prefix_def)
    with next_event_within_append [of t es gs] show ?thesis by auto
  qed
qed

lemma server_heard_more:
  "prefix (outbox (snd (run_server A registry envs (l\<lparr>inbox := es\<rparr>))))
     (outbox (snd (run_server A registry envs (l\<lparr>inbox := es @ fs\<rparr>))))"
  by (rule heard.server_tracks [of es "es @ fs" A registry envs l]) (auto simp: heard.same_def)

lemma client_heard_more:
  "prefix (outbox (cl_link (snd (run_client ce registry cfg (l\<lparr>inbox := es\<rparr>)))))
     (outbox (cl_link (snd (run_client ce registry cfg (l\<lparr>inbox := es @ fs\<rparr>)))))"
  by (rule heard.client_tracks [of es "es @ fs" cfg ce registry l]) (auto simp: heard.same_def)

end
