(* ===== verification/Dialogue.thy ===== *)
theory Dialogue
  imports "HOL-Library.Sublist"
begin

text \<open>
  Two parties that exchange messages over reliable queues, at any speed. A party is what it has said
  once it has heard some messages and waits for more; the steps deliver a message that was said and
  not yet heard. The parties may be programs of any kind, as long as hearing more never takes back
  what was said.
\<close>

inductive hear_step ::
  "('m list \<Rightarrow> 'm list) \<Rightarrow> ('m list \<Rightarrow> 'm list) \<Rightarrow> 'm list \<times> 'm list \<Rightarrow> 'm list \<times> 'm list \<Rightarrow> bool"
  for says_a says_b where
  b_hears: "says_a heard_a = heard_b @ m # ms \<Longrightarrow>
    hear_step says_a says_b (heard_a, heard_b) (heard_a, heard_b @ [m])"
| a_hears: "says_b heard_b = heard_a @ m # ms \<Longrightarrow>
    hear_step says_a says_b (heard_a, heard_b) (heard_a @ [m], heard_b)"

inductive_cases hear_stepE: "hear_step says_a says_b (heard_a, heard_b) c"

lemma strict_prefix_next: "prefix xs ys \<Longrightarrow> xs \<noteq> ys \<Longrightarrow> \<exists>m ms. ys = xs @ m # ms"
  by (metis append_Nil2 neq_Nil_conv prefixE)

locale dialogue =
  fixes says_a says_b :: "'m list \<Rightarrow> 'm list"
  assumes a_keeps: "prefix (says_a xs) (says_a (xs @ ys))"
    and b_keeps: "prefix (says_b xs) (says_b (xs @ ys))"
begin

lemma a_mono: "prefix xs ys \<Longrightarrow> prefix (says_a xs) (says_a ys)"
  by (auto simp: prefix_def [of xs ys] a_keeps)

lemma b_mono: "prefix xs ys \<Longrightarrow> prefix (says_b xs) (says_b ys)"
  by (auto simp: prefix_def [of xs ys] b_keeps)

text \<open>Only what was said is heard.\<close>

lemma heard_was_said:
  assumes "(hear_step says_a says_b)\<^sup>*\<^sup>* ([], []) (heard_a, heard_b)"
  shows "prefix heard_b (says_a heard_a) \<and> prefix heard_a (says_b heard_b)"
  using assms
proof (induction "(heard_a, heard_b)" arbitrary: heard_a heard_b rule: rtranclp_induct)
  case (step c)
  obtain ha hb where c: "c = (ha, hb)" by fastforce
  from step.hyps(2) [unfolded c] show ?case
  proof (cases rule: hear_step.cases)
    case (b_hears m ms)
    have "prefix (hb @ [m]) (says_a ha)" using b_hears by (simp add: prefix_def)
    moreover have "prefix ha (says_b (hb @ [m]))"
      using step.hyps(3) [OF c] b_keeps prefix_order.trans by blast
    ultimately show ?thesis using b_hears by simp
  next
    case (a_hears m ms)
    have "prefix (ha @ [m]) (says_b hb)" using a_hears by (simp add: prefix_def)
    moreover have "prefix hb (says_a (ha @ [m]))"
      using step.hyps(3) [OF c] a_keeps prefix_order.trans by blast
    ultimately show ?thesis using a_hears by simp
  qed
qed simp

text \<open>Every step delivers one message.\<close>

lemma steps_heard:
  "(hear_step says_a says_b ^^ n) ([], []) (heard_a, heard_b) \<Longrightarrow> length heard_a + length heard_b = n"
proof (induction n arbitrary: heard_a heard_b)
  case (Suc n)
  then obtain ha hb where "(hear_step says_a says_b ^^ n) ([], []) (ha, hb)"
    and "hear_step says_a says_b (ha, hb) (heard_a, heard_b)" by auto
  with Suc.IH show ?case by (fastforce elim: hear_stepE)
qed simp

text \<open>A conversation that both sides could have had bounds every interleaving.\<close>

lemma heard_bounded:
  assumes "(hear_step says_a says_b)\<^sup>*\<^sup>* ([], []) (heard_a, heard_b)"
    and "says_a all_a = all_b" and "says_b all_b = all_a"
  shows "prefix heard_a all_a \<and> prefix heard_b all_b"
  using assms(1)
proof (induction "(heard_a, heard_b)" arbitrary: heard_a heard_b rule: rtranclp_induct)
  case (step c)
  obtain ha hb where c: "c = (ha, hb)" by fastforce
  note IH = step.hyps(3) [OF c]
  from step.hyps(2) [unfolded c] show ?case
  proof (cases rule: hear_step.cases)
    case (b_hears m ms)
    then have "prefix (hb @ [m]) (says_a ha)" by (simp add: prefix_def)
    also have "prefix (says_a ha) all_b" using a_mono [of ha all_a] IH assms(2) by simp
    finally show ?thesis using IH b_hears by simp
  next
    case (a_hears m ms)
    then have "prefix (ha @ [m]) (says_b hb)" by (simp add: prefix_def)
    also have "prefix (says_b hb) all_a" using b_mono [of hb all_b] IH assms(3) by simp
    finally show ?thesis using IH a_hears by simp
  qed
qed simp

text \<open>Where nothing can be delivered, everything said was heard.\<close>

lemma quiet:
  assumes "(hear_step says_a says_b)\<^sup>*\<^sup>* ([], []) (heard_a, heard_b)"
    and "\<nexists>c. hear_step says_a says_b (heard_a, heard_b) c"
  shows "says_a heard_a = heard_b \<and> says_b heard_b = heard_a"
proof -
  note said = heard_was_said [OF assms(1)]
  have "says_a heard_a = heard_b"
  proof (rule ccontr)
    assume "says_a heard_a \<noteq> heard_b"
    with said obtain m ms where "says_a heard_a = heard_b @ m # ms" by (metis strict_prefix_next)
    with assms(2) show False by (blast intro: hear_step.b_hears)
  qed
  moreover have "says_b heard_b = heard_a"
  proof (rule ccontr)
    assume "says_b heard_b \<noteq> heard_a"
    with said obtain m ms where "says_b heard_b = heard_a @ m # ms" by (metis strict_prefix_next)
    with assms(2) show False by (blast intro: hear_step.a_hears)
  qed
  ultimately show ?thesis by blast
qed

text \<open>
  If b always has something new to say to what a says, until all is said, then no interleaving gets
  stuck before the end.
\<close>

lemma every_interleaving_ends:
  assumes steps: "(hear_step says_a says_b ^^ n) ([], []) (heard_a, heard_b)"
    and whole: "says_a all_a = all_b" "says_b all_b = all_a"
    and progress: "\<And>h. prefix h all_a \<Longrightarrow> h \<noteq> all_a \<Longrightarrow> length h < length (says_b (says_a h))"
  shows "n \<le> length all_a + length all_b"
    and "\<nexists>c. hear_step says_a says_b (heard_a, heard_b) c \<Longrightarrow> heard_a = all_a \<and> heard_b = all_b"
proof -
  from steps have reach: "(hear_step says_a says_b)\<^sup>*\<^sup>* ([], []) (heard_a, heard_b)"
    by (rule relpowp_imp_rtranclp)
  note bounded = heard_bounded [OF reach whole]
  show "n \<le> length all_a + length all_b"
    using bounded steps_heard [OF steps] by (auto dest!: prefix_length_le)
  assume "\<nexists>c. hear_step says_a says_b (heard_a, heard_b) c"
  note quiet = quiet [OF reach this]
  have "heard_a = all_a"
  proof (rule ccontr)
    assume "heard_a \<noteq> all_a"
    with progress bounded have "length heard_a < length (says_b (says_a heard_a))" by blast
    with quiet show False by simp
  qed
  with quiet whole show "heard_a = all_a \<and> heard_b = all_b" by simp
qed

end

end
