(* ===== verification/Interleaving.thy ===== *)
theory Interleaving
  imports Causality Dialogue Scan_Outcome
begin

text \<open>
  Client and server at any relative speed. Each is what it has sent after it received some messages;
  with its input used up it waits, and sends nothing more (a closed connection ends it without another
  message). Whatever the order in which the messages are delivered, no session gets stuck.
\<close>

section \<open>The two parties\<close>

definition client_says ::
  "'e client_env \<Rightarrow> 'e registry \<Rightarrow> client_config \<Rightarrow> link \<Rightarrow> message list \<Rightarrow> message list" where
  "client_says ce registry cfg lc ms =
     outbox (cl_link (snd (run_client ce registry cfg (lc\<lparr>inbox := map Arrives ms\<rparr>))))"

definition server_says ::
  "addr_text \<Rightarrow> 'e registry \<Rightarrow> 'e session_envs \<Rightarrow> link \<Rightarrow> message list \<Rightarrow> message list" where
  "server_says A registry envs ls ms =
     outbox (snd (run_server A registry envs (ls\<lparr>inbox := map Arrives ms\<rparr>)))"

interpretation session: dialogue "client_says ce registry cfg lc" "server_says A registry envs ls"
  for ce registry cfg lc A envs ls
  by unfold_locales (simp_all add: client_says_def server_says_def client_heard_more server_heard_more)

section \<open>The server answers the batches it has\<close>

lemma server_replies_append:
  "server_replies registry envs c b timeout n (bs @ cs) =
     server_replies registry envs c b timeout n bs @
     server_replies registry envs c b timeout (n + length (concat bs)) cs"
  by (induction bs arbitrary: n) (simp_all add: add.assoc)

lemma length_server_replies [simp]:
  "length (server_replies registry envs c b timeout n bs) = length bs"
  by (induction bs arbitrary: n) simp_all

lemma server_answers_batches:
  assumes "send_fault ls = (\<lambda>_. None)" and "link_peer ls = Inr c" and "outbox ls = []"
    and fits: "list_all (batch_fits registry (batch_size cfg)) bs"
  shows "prefix (Ack True None # map report_of (concat (plan_replies A ce registry cfg envs c 1 bs)))
           (server_says A registry envs ls (configure_message cfg (ce_text ce) # concat (map batch_messages bs)))"
proof -
  let ?b = "Option.bind (Some (show_socket (ce_text ce) (cfg_target_addr cfg))) (parse_configured_bind_addr A)"
  let ?timeout = "from_millis (unat (cfg_timeout_ms cfg))"
  let ?ms = "concat (map batch_messages bs)"
  let ?l1 = "ls\<lparr>inbox := map Arrives (configure_message cfg (ce_text ce) # ?ms)\<rparr>"
  let ?l2 = "ls\<lparr>inbox := map Arrives ?ms\<rparr>"
  let ?st0 = "fresh_server (?l2\<lparr>outbox := [Ack True None]\<rparr>)"
  let ?W = "serve_and_bye registry envs c ?b ?timeout (batch_size cfg) ?st0"
  have run: "run_server A registry envs ?l1 = apsnd sv_link ?W"
    using assms(1-3)
    by (simp add: run_server_steps configured_def configure_message_def batch_size_def)
  have fields: "sv_link ?st0 = ?l2\<lparr>outbox := [Ack True None]\<rparr>" by (simp add: fresh_server_def)
  have loop: "server_loop registry envs c ?b ?timeout (batch_size cfg) ?st0 =
      server_loop registry envs c ?b ?timeout (batch_size cfg)
        (let st' = reported (concat (plan_replies A ce registry cfg envs c 1 bs)) ?st0
         in st'\<lparr>sv_link := (sv_link st')\<lparr>inbox := []\<rparr>\<rparr>)"
    using server_loop_prefix [OF _ fits, of ?st0 "[]" envs c ?b ?timeout] assms(1)
    by (simp add: fields plan_replies_def)
  let ?st1 = "let st' = reported (concat (plan_replies A ce registry cfg envs c 1 bs)) ?st0
         in st'\<lparr>sv_link := (sv_link st')\<lparr>inbox := []\<rparr>\<rparr>"
  have "?W = serve_and_bye registry envs c ?b ?timeout (batch_size cfg) ?st1"
    by (simp only: serve_and_bye_def loop)
  then have "prefix (outbox (sv_link ?st1)) (outbox (sv_link (snd ?W)))"
    using growsD [OF heard.tracks_grows [OF heard.tracks_serve_and_bye], of ?st1] by simp
  then show ?thesis using run by (simp add: server_says_def fields Let_def)
qed

section \<open>The client is a batch ahead\<close>

lemma numbered_batches_append:
  "numbered_batches n (ps @ qs) =
     numbered_batches n ps @ numbered_batches (n + of_nat (length (concat (map sp_ports ps)))) qs"
  by (induction ps arbitrary: n) (simp_all add: add.assoc)

lemma number_of_numbered_batches [simp]: "length (numbered_batches n parts) = length parts"
  by (induction parts arbitrary: n) simp_all

lemma run_part_sends:
  assumes "send_fault (cl_link st) = (\<lambda>_. None)"
  shows "prefix (outbox (cl_link st) @ batch_messages (numbered part (cl_next_id st) (sp_ports part)))
           (outbox (cl_link (snd (run_part cfg ce part st))))"
proof -
  let ?batch = "numbered part (cl_next_id st) (sp_ports part)"
  let ?st = "filled part (sp_ports part) st"
  have ok: "send_fault (cl_link ?st) = (\<lambda>_. None)" using assms by simp
  have sent: "for_each (\<lambda>e. client_send (test_message e)) ?batch ?st = (Inr (), sent_to ?st (map test_message ?batch))"
    "client_send BatchEnd (sent_to ?st (map test_message ?batch)) = (Inr (), sent_to ?st (batch_messages ?batch))"
    using ok by (simp_all add: client_sends_healthy client_send_healthy batch_messages_def)
  let ?st2 = "sent_to ?st (batch_messages ?batch)"
  have "execute_batch cfg ce (sp_proto part) ?batch ?st =
      finish_batch cfg ce (sp_proto part) ?batch (link_local (cl_link ?st2), length (outbox (cl_link ?st2))) ?st2"
    by (simp add: execute_batch_steps sent)
  moreover have "grows cl_link (finish_batch cfg ce proto batch k)" for proto batch k
    by (rule heard.tracks_grows [OF heard.tracks_finish_batch]) simp
  ultimately have "prefix (outbox (cl_link ?st2)) (outbox (cl_link (snd (execute_batch cfg ce (sp_proto part) ?batch ?st))))"
    using growsD [of cl_link "finish_batch cfg ce (sp_proto part) ?batch (link_local (cl_link ?st2), length (outbox (cl_link ?st2)))" ?st2]
    by simp
  moreover have "outbox (cl_link (snd (run_part cfg ce part st))) =
      outbox (cl_link (snd (execute_batch cfg ce (sp_proto part) ?batch ?st)))"
    by (cases "execute_batch cfg ce (sp_proto part) ?batch ?st"; cases "fst (execute_batch cfg ce (sp_proto part) ?batch ?st)")
      (simp_all add: run_part_def flush_batch_def)
  ultimately show ?thesis by simp
qed

lemma grows_run_part: "grows cl_link (run_part cfg ce part)"
proof -
  have "prefix (outbox (cl_link st)) (outbox (cl_link (snd (flush_batch cfg ce proto st))))" for proto st
    by (rule growsD [OF heard.tracks_grows [OF heard.tracks_flush_batch]]) simp
  from this [of "filled part (sp_ports part) st" "sp_proto part" for st]
  show ?thesis by (simp add: grows_def run_part_def)
qed

lemma grows_run_parts: "grows cl_link (for_each (run_part cfg ce) parts)"
proof (induction parts)
  case Nil
  then show ?case by (simp add: grows_def)
next
  case (Cons part parts)
  then have "grows cl_link (\<lambda>st. try_then (run_part cfg ce part st) (\<lambda>_. for_each (run_part cfg ce) parts))"
    by (intro grows_try_then grows_run_part)
  then show ?case by simp
qed

abbreviation answers :: "(u32 \<times> protocol_result) list \<Rightarrow> batch_entry list \<Rightarrow> bool" where
  "answers rs batch \<equiv> mset (map fst rs) = mset (map be_id batch)"

lemma run_parts_ahead:
  assumes "send_fault (cl_link st) = (\<lambda>_. None)" and "link_local (cl_link st) = Inr a"
    and "\<And>p. p \<in> set ps \<Longrightarrow> length (sp_ports p) \<le> 65536"
    and "list_all2 answers rss (numbered_batches (cl_next_id st) ps)"
    and "inbox (cl_link st) = map Arrives (map report_of (concat rss))"
  shows "prefix (outbox (cl_link st) @ concat (map batch_messages (numbered_batches (cl_next_id st) (ps @ [part]))))
           (outbox (cl_link (snd (for_each (run_part cfg ce) (ps @ part # qs) st))))"
proof -
  obtain st' where ran: "for_each (run_part cfg ce) ps st = (Inr (), st')"
    and st': "send_fault (cl_link st') = (\<lambda>_. None)"
      "cl_next_id st' = cl_next_id st + of_nat (length (concat (map sp_ports ps)))"
    using run_parts_complete [OF assms(1-4), of "[]" cfg ce] assms(5) by auto
  have out: "outbox (cl_link st') = outbox (cl_link st) @ concat (map batch_messages (numbered_batches (cl_next_id st) ps))"
    by (rule run_parts_done(1) [OF ran assms(3)])
  obtain r st'' where part: "run_part cfg ce part st' = (r, st'')" by fastforce
  have "prefix (outbox (cl_link st') @ batch_messages (numbered part (cl_next_id st') (sp_ports part))) (outbox (cl_link st''))"
    using run_part_sends [OF st'(1), of part cfg ce] by (simp add: part)
  moreover have "prefix (outbox (cl_link st'')) (outbox (cl_link (snd (for_each (run_part cfg ce) (part # qs) st'))))"
    using growsD [OF grows_run_parts, of st'' cfg ce qs] by (cases r) (simp_all add: part)
  ultimately show ?thesis
    using out st'(2)
    by (simp add: for_each_append ran numbered_batches_append)
qed

text \<open>The client once it was acknowledged, with the reports that arrive.\<close>

lemma client_says_scan:
  assumes "send_fault lc = (\<lambda>_. None)" and "link_local lc = Inr a" and "outbox lc = []"
    and "validate_port_ranges (cfg_port_ranges cfg) = Inr ()"
    and ranges: "complete_port_ranges registry (cfg_tests cfg) (cfg_port_ranges cfg) = Inr ranges"
  obtains st2 where "cl_next_id st2 = 0" "outbox (cl_link st2) = [configure_message cfg (ce_text ce)]"
    "link_local (cl_link st2) = Inr a" "send_fault (cl_link st2) = (\<lambda>_. None)" "inbox (cl_link st2) = map Arrives ms"
    "client_says ce registry cfg lc (Ack True None # ms) =
       outbox (cl_link (snd (try_then (for_each (run_part cfg ce) (scan_plan cfg registry ranges) st2) (\<lambda>_ st3.
         try_then (client_send Done (st3\<lparr>cl_stdout := cl_stdout st3 @ final_report cfg st3\<rparr>)) (\<lambda>_ st5. await_bye ce st5)))))"
  by (rule run_client_acknowledged [OF _ _ _ assms(4) ranges, of "lc\<lparr>inbox := map Arrives (Ack True None # ms)\<rparr>" a None ms ce])
    (use assms(1-3) that in \<open>simp_all add: client_says_def\<close>)

lemma client_says_first:
  assumes "send_fault lc = (\<lambda>_. None)" and "outbox lc = []"
    and "validate_port_ranges (cfg_port_ranges cfg) = Inr ()"
    and "complete_port_ranges registry (cfg_tests cfg) (cfg_port_ranges cfg) = Inr ranges"
  shows "client_says ce registry cfg lc [] = [configure_message cfg (ce_text ce)]"
  using assms
  by (simp add: client_says_def run_client_scan client_scan_def client_send_def initial_client_def recv_ack_def
      link_recv_def)

lemma client_a_batch_ahead:
  assumes "send_fault lc = (\<lambda>_. None)" and "link_local lc = Inr a" and "outbox lc = []"
    and "validate_port_ranges (cfg_port_ranges cfg) = Inr ()"
    and "complete_port_ranges registry (cfg_tests cfg) (cfg_port_ranges cfg) = Inr ranges"
    and k: "k < length (scan_plan cfg registry ranges)"
    and ids: "list_all2 answers rss (take k (numbered_batches 0 (scan_plan cfg registry ranges)))"
  shows "prefix (configure_message cfg (ce_text ce) #
             concat (map batch_messages (take (Suc k) (numbered_batches 0 (scan_plan cfg registry ranges)))))
           (client_says ce registry cfg lc (Ack True None # map report_of (concat rss)))"
proof -
  let ?plan = "scan_plan cfg registry ranges"
  obtain st2 where st2: "cl_next_id st2 = 0" "outbox (cl_link st2) = [configure_message cfg (ce_text ce)]"
    "link_local (cl_link st2) = Inr a" "send_fault (cl_link st2) = (\<lambda>_. None)"
    "inbox (cl_link st2) = map Arrives (map report_of (concat rss))"
    and says: "client_says ce registry cfg lc (Ack True None # map report_of (concat rss)) =
       outbox (cl_link (snd (try_then (for_each (run_part cfg ce) ?plan st2) (\<lambda>_ st3.
         try_then (client_send Done (st3\<lparr>cl_stdout := cl_stdout st3 @ final_report cfg st3\<rparr>)) (\<lambda>_ st5. await_bye ce st5)))))"
    by (rule client_says_scan [OF assms(1-5)])
  have split: "?plan = take k ?plan @ ?plan ! k # drop (Suc k) ?plan" by (simp add: k id_take_nth_drop)
  have take_numbered: "take k (numbered_batches 0 ?plan) = numbered_batches 0 (take k ?plan)"
    by (subst split) (simp add: numbered_batches_append k)
  have "take (Suc k) (numbered_batches 0 ?plan) = numbered_batches 0 (take k ?plan @ [?plan ! k])"
    by (subst split) (simp add: numbered_batches_append k)
  moreover have "prefix (outbox (cl_link st2) @ concat (map batch_messages (numbered_batches (cl_next_id st2) (take k ?plan @ [?plan ! k]))))
      (outbox (cl_link (snd (for_each (run_part cfg ce) (take k ?plan @ ?plan ! k # drop (Suc k) ?plan) st2))))"
    by (rule run_parts_ahead [of _ a _ rss])
      (use st2 ids sp_ports_plan in \<open>auto simp: take_numbered dest!: in_set_takeD\<close>)
  moreover have "prefix (outbox (cl_link (snd (for_each (run_part cfg ce) ?plan st2))))
      (client_says ce registry cfg lc (Ack True None # map report_of (concat rss)))"
  proof -
    have "heard.tracks cl_link cl_put (\<lambda>st3. try_then
        (client_send Done (st3\<lparr>cl_stdout := cl_stdout st3 @ final_report cfg st3\<rparr>)) (\<lambda>_ st5. await_bye ce st5))"
      by (intro heard.tracks_try_then heard.tracks_await_bye heard.cl.tracks_beside [OF heard.tracks_client_send])
        (simp add: beside_def final_report_def)
    note growsD [OF heard.tracks_grows [OF this]]
    then show ?thesis
      unfolding says
      by (cases "for_each (run_part cfg ce) ?plan st2"; cases "fst (for_each (run_part cfg ce) ?plan st2)") simp_all
  qed
  ultimately show ?thesis using split st2(1,2) by (simp add: prefix_order.trans)
qed

lemma client_says_all:
  assumes "send_fault lc = (\<lambda>_. None)" and "link_local lc = Inr a" and "outbox lc = []"
    and "validate_port_ranges (cfg_port_ranges cfg) = Inr ()"
    and "complete_port_ranges registry (cfg_tests cfg) (cfg_port_ranges cfg) = Inr ranges"
    and ids: "list_all2 answers rss (numbered_batches 0 (scan_plan cfg registry ranges))"
  shows "client_says ce registry cfg lc (Ack True None # map report_of (concat rss)) =
           client_messages ce registry cfg ranges"
proof -
  let ?plan = "scan_plan cfg registry ranges"
  obtain st2 where st2: "cl_next_id st2 = 0" "outbox (cl_link st2) = [configure_message cfg (ce_text ce)]"
    "link_local (cl_link st2) = Inr a" "send_fault (cl_link st2) = (\<lambda>_. None)"
    "inbox (cl_link st2) = map Arrives (map report_of (concat rss))"
    and says: "client_says ce registry cfg lc (Ack True None # map report_of (concat rss)) =
       outbox (cl_link (snd (try_then (for_each (run_part cfg ce) ?plan st2) (\<lambda>_ st3.
         try_then (client_send Done (st3\<lparr>cl_stdout := cl_stdout st3 @ final_report cfg st3\<rparr>)) (\<lambda>_ st5. await_bye ce st5)))))"
    by (rule client_says_scan [OF assms(1-5)])
  have small: "length (sp_ports p) \<le> 65536" if "p \<in> set ?plan" for p
    using sp_ports_plan [OF that] by simp
  obtain st3 where st3: "for_each (run_part cfg ce) ?plan st2 = (Inr (), st3)"
    "inbox (cl_link st3) = []" "send_fault (cl_link st3) = (\<lambda>_. None)"
    using run_parts_complete [of st2 a ?plan rss "[]" cfg ce] st2 ids small by auto
  note run_parts_done(1) [OF st3(1) small]
  then show ?thesis
    unfolding says st3(1)
    by (simp add: client_send_healthy st3 await_bye_def link_recv_def client_messages_def st2)
qed

section \<open>Every interleaving ends\<close>

lemma prefix_concat_cases:
  assumes "prefix t (concat xss)"
  obtains "t = concat xss"
  | k where "k < length xss" "prefix (concat (take k xss)) t" "length t < length (concat (take (Suc k) xss))"
proof -
  from assms have "t = concat xss \<or> (\<exists>k<length xss. prefix (concat (take k xss)) t \<and>
      length t < length (concat (take (Suc k) xss)))"
  proof (induction xss arbitrary: t)
    case (Cons xs xss)
    from Cons.prems have "prefix t xs \<or> (\<exists>us. t = xs @ us \<and> prefix us (concat xss))"
      by (simp add: prefix_append)
    then consider "strict_prefix t xs" | us where "t = xs @ us" "prefix us (concat xss)"
      by (metis Nil_prefix append_Nil2 prefix_order.le_less)
    then show ?case
    proof cases
      case 1
      then show ?thesis by (intro disjI2 exI [of _ 0]) (simp add: prefix_length_less)
    next
      case 2
      with Cons.IH [OF 2(2)] show ?thesis
        by (elim disjE exE conjE) (simp, rule disjI2, rule_tac x = "Suc k" in exI, simp)
    qed
  qed simp
  with that show ?thesis by blast
qed

lemma answers_take: "list_all2 answers rss bs \<Longrightarrow> list_all2 answers (take k rss) (take k bs)"
  by (rule list_all2_takeI)

lemma session_progress:
  assumes healthy: "send_fault lc = (\<lambda>_. None)" "link_local lc = Inr a" "outbox lc = []"
    "send_fault ls = (\<lambda>_. None)" "link_peer ls = Inr c" "outbox ls = []"
    and checked: "validate_port_ranges (cfg_port_ranges cfg) = Inr ()"
      "complete_port_ranges registry (cfg_tests cfg) (cfg_port_ranges cfg) = Inr ranges"
    and ids: "list_all2 answers rss (numbered_batches 0 (scan_plan cfg registry ranges))"
    and whole: "server_says A registry envs ls (client_messages ce registry cfg ranges) =
      Ack True None # map report_of (concat rss) @ [Bye s]"
    and h: "prefix h (Ack True None # map report_of (concat rss) @ [Bye s])"
      "h \<noteq> Ack True None # map report_of (concat rss) @ [Bye s]"
  shows "length h < length (server_says A registry envs ls (client_says ce registry cfg lc h))"
proof -
  let ?f = "client_says ce registry cfg lc" and ?g = "server_says A registry envs ls"
  let ?conf = "configure_message cfg (ce_text ce)"
  let ?plan = "scan_plan cfg registry ranges"
  let ?bs = "numbered_batches 0 ?plan"
  note answered = server_answers_batches [OF healthy(4-6), of registry cfg _ A ce envs]
  have fits: "list_all (batch_fits registry (batch_size cfg)) (take k ?bs)" for k
    using plan_fits [of registry cfg 0 ranges] by (auto simp: list_all_iff dest: in_set_takeD)
  have replied: "1 + length (concat (take k rss)) \<le> length (?g (?conf # concat (map batch_messages (take k ?bs))))" for k
  proof -
    have "length (concat (plan_replies A ce registry cfg envs c 1 (take k ?bs))) = length (concat (take k ?bs))"
      unfolding plan_replies_def by (rule lengths_of_ids [OF ids_server_replies])
    moreover have "length (concat (take k rss)) = length (concat (take k ?bs))"
      by (rule lengths_of_ids [OF answers_take [OF ids]])
    ultimately show ?thesis using prefix_length_le [OF answered [OF fits [of k]]] by simp
  qed
  show ?thesis
  proof (cases h)
    case Nil
    have "?f [] = [?conf]" by (rule client_says_first [OF healthy(1,3) checked])
    with Nil replied [of 0] show ?thesis by (simp add: Suc_le_eq)
  next
    case (Cons m t)
    with h have m: "m = Ack True None" and t: "prefix t (map report_of (concat rss))"
      by (auto simp: prefix_append prefix_Cons)
    from t have "prefix t (concat (map (map report_of) rss))" by (simp add: map_concat)
    then show ?thesis
    proof (cases rule: prefix_concat_cases)
      case 1
      then have "?f h = client_messages ce registry cfg ranges"
        using client_says_all [OF healthy(1-3) checked ids, of ce] by (simp add: Cons m map_concat)
      with 1 show ?thesis by (simp add: Cons whole map_concat [symmetric])
    next
      case (2 k)
      have len: "length rss = length ?plan" using list_all2_lengthD [OF ids] by simp
      have "prefix (?conf # concat (map batch_messages (take (Suc k) ?bs)))
          (?f (Ack True None # map report_of (concat (take k rss))))"
        by (rule client_a_batch_ahead [OF healthy(1-3) checked _ answers_take [OF ids]])
          (use 2 len in simp)
      moreover have "prefix (Ack True None # map report_of (concat (take k rss))) h"
        using 2(2) by (simp add: Cons m map_concat take_map)
      ultimately have "prefix (?conf # concat (map batch_messages (take (Suc k) ?bs))) (?f h)"
        using session.a_mono prefix_order.trans by blast
      then have "length (?g (?conf # concat (map batch_messages (take (Suc k) ?bs)))) \<le> length (?g (?f h))"
        by (intro prefix_length_le session.b_mono)
      moreover have "length t < length (concat (take (Suc k) rss))"
        using 2(3) by (simp add: take_map map_concat [symmetric])
      ultimately show ?thesis using replied [of "Suc k"] by (simp add: Cons)
    qed
  qed
qed

text \<open>
  Property C2: no interleaving of client and server gets stuck, and all end alike. On healthy
  connections, whatever the order in which the messages are delivered, at most one delivery for each
  message of the client and each answer of the server is made, and where no message is left to deliver
  both sides have ended well, with the summaries and the results the environments of the two determine.
\<close>

theorem no_interleaving_stuck:
  assumes "send_fault lc = (\<lambda>_. None)" and "link_local lc = Inr a" and "outbox lc = []"
    and "send_fault ls = (\<lambda>_. None)" and "link_peer ls = Inr c" and "outbox ls = []"
    and "validate_port_ranges (cfg_port_ranges cfg) = Inr ()"
    and "complete_port_ranges registry (cfg_tests cfg) (cfg_port_ranges cfg) = Inr ranges"
    and "(hear_step (client_says ce registry cfg lc) (server_says A registry envs ls) ^^ n)
           ([], []) (heard_c, heard_s)"
    and "ocs = session_result A ce registry cfg envs ranges a c"
  shows "n \<le> length (client_messages ce registry cfg ranges) + length (all_tests cfg registry ranges) + 2 \<and>
         ((\<nexists>next. hear_step (client_says ce registry cfg lc) (server_says A registry envs ls)
              (heard_c, heard_s) next) \<longrightarrow>
          heard_s = client_messages ce registry cfg ranges \<and>
          (\<exists>l. run_server A registry envs (ls\<lparr>inbox := map Arrives heard_s\<rparr>) =
             (Inr (results_summary (map oc_remote ocs)), l)) \<and>
          (\<exists>st. run_client ce registry cfg (lc\<lparr>inbox := map Arrives heard_c\<rparr>) =
               (Inr (results_summary (map oc_result ocs)), st) \<and>
             cl_results st = (if keeps_results cfg then map outcome_entry ocs else [])))"
proof -
  let ?C = "client_messages ce registry cfg ranges"
  have ocs: "ocs = scan_outcomes A ce registry cfg envs a c 1 (length (outbox ls) + 1) 0 (scan_plan cfg registry ranges)"
    by (simp add: assms(6,10) session_result_def)
  obtain rss l st where ids: "list_all2 answers rss (numbered_batches 0 (scan_plan cfg registry ranges))"
    and server: "run_server A registry envs (ls\<lparr>inbox := map Arrives ?C\<rparr>) = (Inr (results_summary (map oc_remote ocs)), l)"
    and out: "outbox l = Ack True None # map report_of (concat rss) @ [Bye (results_summary (map oc_remote ocs))]"
    and client: "run_client ce registry cfg (lc\<lparr>inbox := map Arrives
        (Ack True None # map report_of (concat rss) @ [Bye (results_summary (map oc_remote ocs))])\<rparr>) =
      (Inr (results_summary (map oc_result ocs)), st)"
    and sent: "outbox (cl_link st) = ?C"
    and results: "cl_results st = (if keeps_results cfg then map outcome_entry ocs else [])"
    by (rule session_exchange [OF assms(1-5,7,8) ocs]) (simp add: assms(6))
  let ?S = "Ack True None # map report_of (concat rss) @ [Bye (results_summary (map oc_remote ocs))]"
  have says: "client_says ce registry cfg lc ?S = ?C" "server_says A registry envs ls ?C = ?S"
    using client sent server out by (simp_all add: client_says_def server_says_def)
  note ends = session.every_interleaving_ends [OF assms(9) says
      session_progress [OF assms(1-8) ids says(2)]]
  have "length ?S = length (all_tests cfg registry ranges) + 2"
    using lengths_of_ids [OF ids] by (simp add: length_numbered_batches plan_covers)
  with ends(1) have "n \<le> length ?C + length (all_tests cfg registry ranges) + 2" by simp
  moreover have "heard_s = ?C \<and> heard_c = ?S"
    if "\<nexists>next. hear_step (client_says ce registry cfg lc) (server_says A registry envs ls) (heard_c, heard_s) next"
    using ends(2) [OF _ _ that] by blast
  ultimately show ?thesis using client server results by blast
qed

theorem no_interleaving_stuck_witness:
  "\<exists>n heard_c heard_s.
     (hear_step (client_says demo_client demo_registry demo_config (demo_link []))
        (server_says demo_text demo_registry demo_envs (demo_link [])) ^^ n) ([], []) (heard_c, heard_s) \<and>
     heard_s = client_messages demo_client demo_registry demo_config [(''tcp'', 80, 81)]"
proof -
  let ?step = "hear_step (client_says demo_client demo_registry demo_config (demo_link []))
        (server_says demo_text demo_registry demo_envs (demo_link []))"
  let ?C = "client_messages demo_client demo_registry demo_config [(''tcp'', 80, 81)]"
  let ?b = "length ?C + length (all_tests demo_config demo_registry [(''tcp'', 80, 81)]) + 2"
  have bound: "n \<le> ?b" and stop: "(\<nexists>next. ?step (heard_c, heard_s) next) \<Longrightarrow> heard_s = ?C"
    if "(?step ^^ n) ([], []) (heard_c, heard_s)" for n heard_c heard_s
    using no_interleaving_stuck [OF demo_link_fields(3,5,2,3,4,2) demo_ranges that refl] by blast+
  let ?P = "\<lambda>nc. (?step ^^ fst nc) ([], []) (snd nc)"
  have "\<exists>x. ?P x \<and> (\<forall>y. ?P y \<longrightarrow> fst y \<le> fst x)"
  proof (rule ex_has_greatest_nat [where k = "(0, ([], []))" and b = "Suc ?b"])
    show "\<forall>y. ?P y \<longrightarrow> fst y < Suc ?b"
    proof (intro allI impI)
      fix y assume "?P y"
      moreover obtain m hc hs where "y = (m, (hc, hs))" by (metis prod.collapse)
      ultimately show "fst y < Suc ?b" using bound [of m hc hs] by (simp only: less_Suc_eq_le fst_conv snd_conv)
    qed
  qed simp
  then obtain x where x: "?P x" and most: "\<forall>y. ?P y \<longrightarrow> fst y \<le> fst x" by blast
  obtain n heard_c heard_s where n: "x = (n, (heard_c, heard_s))" by (metis prod.collapse)
  have steps: "(?step ^^ n) ([], []) (heard_c, heard_s)" using x by (simp add: n)
  have last: "m \<le> n" if "(?step ^^ m) ([], []) c" for m c
    using most [rule_format, of "(m, c)"] that by (simp add: n)
  have "\<nexists>c. ?step (heard_c, heard_s) c"
    using last [of "Suc n"] steps by auto
  from stop [OF steps this] steps show ?thesis by blast
qed

end
