(* ===== verification/Probe_Bounds.thy ===== *)
theory Probe_Bounds
  imports Port_Probes Tls_Probe Dns_Probe Icmp_Probe
begin

text \<open>
  Every run of a probe ends: a bound on the calls it makes, whatever the network answers, and on the
  time a call of the payload exchanges may wait.
\<close>

section \<open>Runs that add a bounded number of calls\<close>

definition within :: "(io_call \<Rightarrow> bool) \<Rightarrow> nat \<Rightarrow> calls \<Rightarrow> 'a \<times> calls \<Rightarrow> bool" where
  "within Q n h p \<longleftrightarrow> (\<exists>cs. snd p = h @ cs \<and> length cs \<le> n \<and> list_all Q cs)"

named_theorems bounded_run "bounds on the calls of a run, from its parts"

lemma within_le: "within Q n h p \<Longrightarrow> n \<le> k \<Longrightarrow> within Q k h p"
  by (auto simp: within_def)

lemma within_return [bounded_run]: "within Q 0 h (x, h)"
  by (simp add: within_def)

lemma within_call [bounded_run]:
  "Q c \<Longrightarrow> within Q 1 h (call c answer h)" "Q c \<Longrightarrow> within Q 1 h (call_within net t c answer' h)"
  by (auto simp: within_def)

lemma within_bind [bounded_run]:
  assumes "within Q n h p" and "\<And>x h1. within Q m h1 (g x h1)"
  shows "within Q (n + m) h (case p of (x, h1) \<Rightarrow> g x h1)"
proof -
  from assms(1) obtain x cs where p: "p = (x, h @ cs)" "length cs \<le> n" "list_all Q cs"
    by (cases p) (auto simp: within_def)
  from assms(2) [of "h @ cs" x] obtain cs' where "snd (g x (h @ cs)) = (h @ cs) @ cs'" "length cs' \<le> m" "list_all Q cs'"
    by (auto simp: within_def)
  with p show ?thesis by (auto simp: within_def intro!: exI [of _ "cs @ cs'"])
qed

lemma within_sum [bounded_run]:
  "(\<And>e. within Q n h (f e)) \<Longrightarrow> (\<And>v. within Q m h (g v)) \<Longrightarrow> within Q (max n m) h (case x of Inl e \<Rightarrow> f e | Inr v \<Rightarrow> g v)"
  by (cases x) (auto intro: within_le [OF _ max.cobounded1] within_le [OF _ max.cobounded2])

lemma within_timed [bounded_run]:
  "within Q n h a \<Longrightarrow> (\<And>v. within Q m h (g v)) \<Longrightarrow> within Q (max n m) h (case x of Elapsed \<Rightarrow> a | Completed v \<Rightarrow> g v)"
  by (cases x) (auto intro: within_le [OF _ max.cobounded1] within_le [OF _ max.cobounded2])

lemma within_option [bounded_run]:
  "within Q n h a \<Longrightarrow> (\<And>v. within Q m h (g v)) \<Longrightarrow> within Q (max n m) h (case x of None \<Rightarrow> a | Some v \<Rightarrow> g v)"
  by (cases x) (auto intro: within_le [OF _ max.cobounded1] within_le [OF _ max.cobounded2])

lemma within_pair [bounded_run]:
  "(\<And>a b. within Q n h (g a b)) \<Longrightarrow> within Q n h (case (x :: bytes \<times> socket_addr) of (a, b) \<Rightarrow> g a b)"
  by (cases x) auto

lemma within_applied_pair [bounded_run]:
  "(\<And>a b. within Q n h (g a b h')) \<Longrightarrow> within Q n h ((case x of (a, b) \<Rightarrow> g a b) h')"
  by (cases x) auto

lemma within_if [bounded_run]:
  "within Q n h a \<Longrightarrow> within Q m h b \<Longrightarrow> within Q (max n m) h (if c then a else b)"
  by (auto intro: within_le [OF _ max.cobounded1] within_le [OF _ max.cobounded2])

lemma within_bool [bounded_run]:
  "within Q n h a \<Longrightarrow> within Q m h b \<Longrightarrow> within Q (max n m) h (case c of True \<Rightarrow> a | False \<Rightarrow> b)"
  by (cases c) (auto intro: within_le [OF _ max.cobounded1] within_le [OF _ max.cobounded2])

lemma within_try_then [bounded_run]:
  assumes "within Q n h p" and "\<And>x h1. within Q m h1 (g x h1)"
  shows "within Q (n + m) h (try_then p g)"
proof -
  have "within Q m h1 (case x of Inl e \<Rightarrow> (Inl e, h1) | Inr v \<Rightarrow> g v h1)" for x h1
    using assms(2) by (cases x) (auto intro: within_le [OF within_return])
  then have "within Q (n + m) h (case p of (x, h1) \<Rightarrow> case x of Inl e \<Rightarrow> (Inl e, h1) | Inr v \<Rightarrow> g v h1)"
    by (rule within_bind [OF assms(1)])
  then show ?thesis by (cases p; cases "fst p") auto
qed

lemma within_either_result [bounded_run]: "within Q n h p \<Longrightarrow> within Q n h (either_result p)"
  by (cases p; cases "fst p") (simp_all add: within_def)

lemma within_perform [bounded_run]: "within Q n h p \<Longrightarrow> within Q n h (perform p what s r)"
  by (auto simp: within_def perform_def split: prod.splits timed.splits sum.splits)

lemma within_stage [bounded_run]: "within Q n h p \<Longrightarrow> within Q n h (stage p on_error on_timeout s r)"
  by (auto simp: within_def stage_def split: prod.splits timed.splits sum.splits)

lemma within_pause: "within Q n (pause k d h) p \<Longrightarrow> Q (Sleep d) \<Longrightarrow> within Q (Suc n) h p"
  by (auto simp: within_def pause_def split: if_splits)

lemma within_io [bounded_run]:
  "Q (WriteAll bs (Some t)) \<Longrightarrow> within Q 1 h (write_all net bs t h)"
  "Q (ReadExact n t) \<Longrightarrow> within Q 1 h (read_exact net n t h)"
  "Q (SendTo bs a (Some t)) \<Longrightarrow> within Q 1 h (send_to net bs a t h)"
  "Q (RecvFrom n t) \<Longrightarrow> within Q 1 h (recv_from net n t h)"
  by (simp_all add: write_all_def read_exact_def send_to_def recv_from_def within_call [simplified])

lemma within_paused [bounded_run]:
  "Q (Sleep d) \<Longrightarrow> Q (SendTo bs a (Some t)) \<Longrightarrow> within Q 2 h (send_to net bs a t (pause k d h))"
  "Q (Sleep d) \<Longrightarrow> Q c \<Longrightarrow> within Q 2 h (call_within net t c answer (pause k d h))"
  using within_pause [OF within_io(3) [of Q bs a t "pause k d h" net]]
    within_pause [OF within_call(2) [of Q c "pause k d h" net t answer]]
  by (simp_all add: numeral_2_eq_2)

section \<open>The payload exchanges\<close>

text \<open>
  A call that returns after \<open>w\<close> at the latest: it has such a limit, or it sleeps no longer, or it does not
  wait for the network.
\<close>

fun returns_after :: "duration \<Rightarrow> io_call \<Rightarrow> bool" where
  "returns_after w (TcpBind a) \<longleftrightarrow> True"
| "returns_after w (UdpBind a) \<longleftrightarrow> True"
| "returns_after w (Sleep d) \<longleftrightarrow> d \<le> w"
| "returns_after w FetchId \<longleftrightarrow> True"
| "returns_after w c \<longleftrightarrow> (case call_limit c of None \<Rightarrow> False | Some t \<Rightarrow> t \<le> w)"

definition patience :: "test_context \<Rightarrow> duration" where
  "patience ctx = max (ctx_timeout ctx) (from_secs 1)"

lemma within_connect_attempts:
  assumes "returns_after w (Sleep (from_millis 100))" and "t \<le> w"
  shows "within (returns_after w) (2 * length attempts) h (connect_attempts net target t attempts reason h)"
proof (induction attempts arbitrary: reason h)
  case (Cons attempt rest)
  show ?case
    unfolding connect_attempts.simps
    by (rule within_le) (rule bounded_run Cons.IH | simp add: assms [simplified])+
qed (simp add: within_def)

lemma within_exchange [bounded_run]:
  assumes "from_millis 100 \<le> w" and "t \<le> w"
  shows "within (returns_after w) 40 h (connect net target t h)"
    and "within (returns_after w) 2 h (accept net address t h)"
    and "within (returns_after w) 2 h (roundtrip net payload t h)"
    and "within (returns_after w) 2 h (echo net payload t h)"
proof -
  show "within (returns_after w) 40 h (connect net target t h)"
    using within_connect_attempts [of w t "[0..<20]" h net target "[]"] assms by (simp add: connect_def)
  show "within (returns_after w) 2 h (accept net address t h)"
    unfolding accept_def by (rule within_le) (rule bounded_run | simp add: assms)+
  show "within (returns_after w) 2 h (roundtrip net payload t h)"
    unfolding roundtrip_def Let_def by (rule within_le) (rule bounded_run | simp add: assms)+
  show "within (returns_after w) 2 h (echo net payload t h)"
    unfolding echo_def Let_def by (rule within_le) (rule bounded_run | simp add: assms)+
qed

lemma within_udp_attempts [bounded_run]:
  assumes "from_millis 200 \<le> w" and "t \<le> w"
  shows "within (returns_after w) (3 * length attempts) h (udp_attempts net target p t attempts reason h)"
proof (induction attempts arbitrary: reason h)
  case (Cons attempt rest)
  show ?case
    unfolding udp_attempts.simps
    by (rule within_le) (rule bounded_run Cons.IH | simp add: assms [simplified])+
qed (simp add: within_def)

lemma within_udp_answer [bounded_run]:
  "t \<le> w \<Longrightarrow> within (returns_after w) 1 h (udp_answer net payload t received source h)"
  unfolding udp_answer_def Let_def by (rule within_le) (rule bounded_run | simp)+

lemma within_udp_target_attempts [bounded_run]:
  assumes "from_secs 1 \<le> w" and "t \<le> w"
  shows "within (returns_after w) (n + 1) h (udp_target_attempts net payload t n reason h)"
proof (induction n arbitrary: reason h)
  case (Suc n)
  show ?case
    unfolding udp_target_attempts.simps
    by (rule within_le) (rule bounded_run Suc.IH | simp add: assms [simplified])+
qed (simp add: within_def)

lemma within_run_exchange: "within (returns_after (patience ctx)) 42 h (run_exchange payload net ctx h)"
proof -
  let ?w = "patience ctx"
  have w: "from_millis 100 \<le> ?w" "from_millis 200 \<le> ?w" "from_secs 1 \<le> ?w" "ctx_timeout ctx \<le> ?w"
    by (simp_all add: patience_def from_millis_def from_secs_def)
  have "within (returns_after ?w) 42 h (tcp_initiator net a payload (ctx_timeout ctx) h)" for a
    unfolding tcp_initiator_def by (rule within_le) (rule bounded_run w | simp)+
  moreover have "within (returns_after ?w) 42 h (tcp_target net a payload (ctx_timeout ctx) h)" for a
    unfolding tcp_target_def by (rule within_le) (rule bounded_run w | simp)+
  moreover have "within (returns_after ?w) 42 h (udp_initiator net a payload (ctx_timeout ctx) h)" for a
    unfolding udp_initiator_def by (rule within_le) (rule bounded_run w | simp)+
  moreover have "within (returns_after ?w) 42 h (udp_target net a payload (ctx_timeout ctx) h)" for a
    unfolding udp_target_def by (rule within_le) (rule bounded_run w | simp)+
  ultimately show ?thesis
    by (cases "ctx_transport ctx"; cases "ctx_direction ctx") (simp_all add: run_exchange_def within_def)
qed

section \<open>TLS and DNS\<close>

lemma within_tls_setup [bounded_run]: "within Q 0 h (tls_setup r h)"
  by (simp add: within_def tls_setup_def)

lemma within_tls_run: "within (returns_after (patience ctx)) 43 h (tls_run net ctx h)"
proof -
  let ?w = "patience ctx"
  have w: "from_millis 100 \<le> ?w" "ctx_timeout ctx \<le> ?w"
    by (simp_all add: patience_def from_millis_def from_secs_def)
  have hs: "within (returns_after ?w) 1 h (handshake net (ctx_timeout ctx) h)" for h
    unfolding handshake_def by (rule within_le) (rule bounded_run | simp add: w)+
  have "within (returns_after ?w) 43 h (tls_initiator net a (ctx_timeout ctx) h)" for a
    unfolding tls_initiator_def by (rule within_le) (rule bounded_run w hs | simp)+
  moreover have "within (returns_after ?w) 43 h (tls_target net a (ctx_timeout ctx) h)" for a
    unfolding tls_target_def by (rule within_le) (rule bounded_run w hs | simp)+
  ultimately show ?thesis
    unfolding tls_run_def by (cases "ctx_direction ctx") (auto intro: within_either_result)
qed

text \<open>The answers of the DNS target have no limit of their own; the deadline of the run covers them.\<close>

abbreviation any_call :: "io_call \<Rightarrow> bool" where
  "any_call c \<equiv> True"

lemma within_any: "within Q n h p \<Longrightarrow> within any_call n h p"
  by (auto simp: within_def list_all_iff)

lemma within_connect_any [bounded_run]: "within any_call 40 h (connect net target t h)"
  by (rule within_any [OF within_exchange(1) [of "max t (from_millis 100)"]]) simp_all

lemma within_next_query [bounded_run]: "within any_call 1 h (next_query D net h)"
  by (simp add: next_query_def call_def within_def)

lemma within_dns_udp_attempts [bounded_run]:
  "within any_call (3 * length attempts) h (dns_udp_attempts D net target q t t' attempts e h)"
proof (induction attempts arbitrary: e h)
  case (Cons attempt rest)
  show ?case
    unfolding dns_udp_attempts.simps Let_def
    by (rule within_le) (rule bounded_run Cons.IH | simp)+
qed (simp add: within_def)

lemma within_dns_answer [bounded_run]:
  "within any_call 1 h (dns_answer D net received source h)" "within any_call 1 h (dns_tcp_answer D net q h)"
  unfolding dns_answer_def dns_tcp_answer_def Let_def by (rule within_le, (rule bounded_run | simp)+)+

lemma within_dns_udp_target_attempts [bounded_run]:
  "within any_call (n + 1) h (dns_udp_target_attempts D net n e h)"
proof (induction n arbitrary: e h)
  case (Suc n)
  show ?case
    unfolding dns_udp_target_attempts.simps by (rule within_le) (rule bounded_run Suc.IH | simp)+
qed (simp add: within_def)

lemma within_dns_run: "within any_call 45 h (dns_run D net ctx h)"
proof -
  have "within any_call 45 h (dns_tcp_initiator D net a t h)" for a t
    unfolding dns_tcp_initiator_def Let_def by (rule within_le) (rule bounded_run | simp)+
  moreover have "within any_call 45 h (dns_tcp_target D net a t h)" for a t
    unfolding dns_tcp_target_def Let_def by (rule within_le) (rule bounded_run | simp)+
  moreover have "within any_call 45 h (dns_udp_initiator D net a t h)" for a t
    unfolding dns_udp_initiator_def by (rule within_le) (rule bounded_run | simp)+
  moreover have "within any_call 45 h (dns_udp_target D net a h)" for a
    unfolding dns_udp_target_def by (rule within_le) (rule bounded_run | simp)+
  ultimately have "within any_call 45 h (dns_operation D net ctx h)"
    by (cases "ctx_transport ctx"; cases "ctx_direction ctx") (simp_all add: dns_operation_def within_def)
  then show ?thesis by (auto simp: dns_run_def within_def split: prod.split)
qed

section \<open>ICMP\<close>

lemma within_close_fd [bounded_run]: "within any_call 1 h (x, close_fd fd h)"
  by (simp add: within_def close_fd_def)

lemma within_has_icmp_capability [bounded_run]: "within any_call 3 h (has_icmp_capability net h)"
  unfolding has_icmp_capability_def by (rule within_le) (rule bounded_run | simp)+

lemma within_create_raw_socket [bounded_run]: "within any_call 1 h (create_raw_socket net h)"
  unfolding create_raw_socket_def by (rule within_le) (rule bounded_run | simp)+

lemma within_set_socket_timeout [bounded_run]: "within any_call 1 h (set_socket_timeout net fd t h)"
  unfolding set_socket_timeout_def by (rule within_le) (rule bounded_run | simp)+

text \<open>A turn of the waiting loop makes two calls, and the clock advances over each.\<close>

lemma within_wait_for_reply:
  "within any_call (if start + timeout \<le> elapsed net h then 1 else start + timeout - elapsed net h + 2) h
     (wait_for_reply P net dest ident seq ty timeout fd sent start h)"
proof (induction P net dest ident seq ty timeout fd sent start h rule: wait_for_reply.induct)
  case (1 P net dest ident seq ty timeout fd sent start h)
  let ?waited = "elapsed net h - start"
  show ?case
  proof (cases "?waited \<ge> timeout")
    case True
    then show ?thesis
      by (subst wait_for_reply.simps) (auto simp: within_def close_fd_def)
  next
    case False
    obtain x h1 where set: "set_socket_timeout net fd (timeout - ?waited) h = (x, h1)" by fastforce
    have h1: "h1 = h @ [SetRcvTimeo fd (timeval_of (timeout - ?waited))]"
      by (rule set_socket_timeout_calls [OF set])
    obtain y h2 where recv: "call (RawRecv fd 1500) (net_raw net) h1 = (y, h2)" by fastforce
    then have h2: "h2 = h1 @ [RawRecv fd 1500]" by (simp add: call_def)
    have "elapsed net h < elapsed net h1" by (simp only: h1 elapsed_less)
    moreover have "elapsed net h1 < elapsed net h2" by (simp only: h2 elapsed_less)
    ultimately have later: "elapsed net h + 2 \<le> elapsed net h2" by linarith
    have again: "within any_call (start + timeout - elapsed net h + 2) h
        (wait_for_reply P net dest ident seq ty timeout fd sent start h2)"
      if "within any_call (if start + timeout \<le> elapsed net h2 then 1 else start + timeout - elapsed net h2 + 2) h2
        (wait_for_reply P net dest ident seq ty timeout fd sent start h2)"
      using that later False by (auto simp: within_def h1 h2 split: if_splits)
    have "within any_call (start + timeout - elapsed net h + 2) h
        (wait_for_reply P net dest ident seq ty timeout fd sent start h)"
      using False set recv again 1 [OF refl False set [symmetric] _ recv [symmetric]]
      by (subst wait_for_reply.simps)
        (auto simp: Let_def within_def close_fd_def h1 h2 split: sum.splits)
    with False show ?thesis by auto
  qed
qed

lemma within_wait_from_now [bounded_run]:
  "within any_call (timeout + 2) h (wait_for_reply P net dest ident seq ty timeout fd sent (elapsed net h) h)"
  by (rule within_le [OF within_wait_for_reply]) simp

lemma within_send_icmp_echo_raw [bounded_run]:
  "within any_call (timeout + 8) h (send_icmp_echo_raw P net dest ident seq ty timeout h)"
  unfolding send_icmp_echo_raw_def Let_def by (rule within_le) (rule bounded_run | simp)+

lemma within_probe_type:
  "within any_call (per_type_timeout timeout + 9) h (probe_type P net dest timeout started idx ty h)"
proof -
  let ?t = "max (min (per_type_timeout timeout) (timeout - (elapsed net h - started))) (from_micros 1)"
  have "?t \<le> per_type_timeout timeout"
    by (simp add: per_type_timeout_def from_micros_def from_millis_def)
  moreover have "within any_call (?t + 9) h (probe_type P net dest timeout started idx ty h)"
    unfolding probe_type_def Let_def by (rule within_le) (rule bounded_run | simp)+
  ultimately show ?thesis by (auto intro: within_le)
qed

lemma within_probe_types:
  "within any_call (length entries * (per_type_timeout timeout + 9)) h
     (probe_types P net dest timeout started entries st h)"
proof (induction entries arbitrary: st h)
  case (Cons entry entries)
  obtain idx ty name where entry: "entry = (idx, ty, name)" by (cases entry)
  show ?case
    unfolding probe_types.simps entry prod.case
    by (rule within_le) (rule bounded_run within_probe_type Cons.IH | simp)+
qed (simp add: within_def)

lemma within_icmp_full_run:
  "within any_call (24 * (per_type_timeout (ctx_timeout ctx) + 9) + 4) h (icmp_full_run P net ctx h)"
proof -
  have "within any_call (24 * (per_type_timeout timeout + 9) + 1) h (scan_types P net dest timeout h)" for dest timeout h
    unfolding scan_types_def
    by (rule within_le) (rule bounded_run within_probe_types | simp add: ALL_ICMP_TYPES_def)+
  note scan = this
  have "within any_call (24 * (per_type_timeout (ctx_timeout ctx) + 9) + 1) h
      (case addr_ip (ctx_target_addr ctx) of V6 _ \<Rightarrow> (Error ''IPv6 not supported'', h)
       | V4 dest \<Rightarrow> scan_types P net dest (ctx_timeout ctx) h)" for h
    using scan by (cases "addr_ip (ctx_target_addr ctx)") (auto intro: within_le [OF within_return])
  note from_here = this
  show ?thesis
    unfolding icmp_full_run_def by (rule within_le) (rule bounded_run from_here | simp)+
qed

lemma within_icmp_ping_run: "within any_call 1 h (icmp_ping_run net ctx h)"
  by (auto simp: icmp_ping_run_def call_def within_def split: ip_addr.splits sum.splits option.splits)

section \<open>Property\<close>

text \<open>
  Property C18: every run of a probe ends, whatever the network answers and however long it takes. A
  payload exchange makes at most 42 calls, over TLS 43, and none of them waits longer than the timeout
  or a second; a DNS run makes at most 45 calls, a ping one, and a full ICMP scan as many as its
  timeout has nanoseconds, shared by the types, and a dozen for each type.
\<close>

theorem probe_runs_end:
  "length (snd (run_exchange payload net ctx [])) \<le> 42 \<and>
   list_all (returns_after (patience ctx)) (snd (run_exchange payload net ctx [])) \<and>
   length (snd (tls_run net ctx [])) \<le> 43 \<and>
   list_all (returns_after (patience ctx)) (snd (tls_run net ctx [])) \<and>
   length (snd (dns_run D net ctx [])) \<le> 45 \<and>
   length (snd (icmp_ping_run net ctx [])) \<le> 1 \<and>
   length (snd (icmp_full_run P net ctx [])) \<le> 24 * (per_type_timeout (ctx_timeout ctx) + 9) + 4"
  using within_run_exchange [of ctx "[]" payload net] within_tls_run [of ctx "[]" net]
    within_dns_run [of "[]" D net ctx] within_icmp_ping_run [of "[]" net ctx] within_icmp_full_run [of ctx "[]" P net]
  by (auto simp: within_def)

end
