(* ===== verification/Request_Ids.thy ===== *)
theory Request_Ids
  imports Icmp_Probe Dns_Probe
begin

text \<open>
  The counters that number ICMP requests and DNS queries (\<open>next_icmp_id\<close> of \<open>src/test/icmp.rs\<close>,
  \<open>next_query_id\<close> of \<open>src/test/dns.rs\<close>). All runs of a probe share one; \<open>fetch_add\<close> is atomic, so the
  runs get its values in some order. In a run the value is the answer to \<open>FetchId\<close>.
\<close>

section \<open>Counters\<close>

text \<open>\<open>AtomicU16::fetch_add\<close> returns the value before; it wraps around.\<close>

definition fetch_add :: "u16 \<Rightarrow> u16 \<Rightarrow> u16 \<times> u16" where
  "fetch_add n counter = (counter, counter + n)"

definition NEXT_ICMP_ID :: u16 where
  "NEXT_ICMP_ID = 0xB100"

definition next_icmp_id :: "u16 \<Rightarrow> u16 \<times> u16" where
  "next_icmp_id counter = fetch_add 1 counter"

definition DNS_QUERY_ID :: u16 where
  "DNS_QUERY_ID = 0"

definition next_query_id :: "u16 \<Rightarrow> u16 \<times> u16" where
  "next_query_id counter = fetch_add 1 counter"

text \<open>The value the call number \<open>n\<close> (from 0) of an operation on a counter returns.\<close>

primrec nth_id :: "(u16 \<Rightarrow> u16 \<times> u16) \<Rightarrow> u16 \<Rightarrow> nat \<Rightarrow> u16" where
  "nth_id next counter 0 = fst (next counter)"
| "nth_id next counter (Suc n) = nth_id next (snd (next counter)) n"

lemma nth_id_counts:
  "nth_id next_icmp_id c n = c + of_nat n" "nth_id next_query_id c n = c + of_nat n"
  by (induction n arbitrary: c) (simp_all add: next_icmp_id_def next_query_id_def fetch_add_def add.assoc)

lemma of_nat_u16_differs:
  assumes "m < n" and "n < m + 65536"
  shows "c + of_nat m \<noteq> (c + of_nat n :: u16)"
proof
  assume "c + of_nat m = (c + of_nat n :: u16)"
  then have "of_nat m = (of_nat n :: u16)" by simp
  then have "n mod 65536 = m mod 65536" by (simp add: word_of_nat_eq_iff take_bit_eq_mod)
  then have "65536 dvd n - m" using assms(1) by (simp add: mod_eq_dvd_iff_nat)
  with assms show False by (auto dest: dvd_imp_le)
qed

text \<open>A packet is a reply to one identifier only, and a response accepted for two queries has the number of both.\<close>

lemma is_reply_identifier:
  assumes "is_reply P dest ident seq ty packet" and "is_reply P dest' ident' seq' ty' packet"
  shows "ident = ident'"
  using assms
  by (auto elim!: is_replyD simp: reply_matches_def Let_def split: if_splits)

lemma accepted_response_id:
  assumes "validate_dns_response D q r = Inr ()" and "validate_dns_response D q' r = Inr ()"
    and "from_bytes D q = Inr query" and "from_bytes D q' = Inr query'"
  shows "dm_id query = dm_id query'"
  using assms by (auto simp: validate_dns_response_iff)

section \<open>Property\<close>

text \<open>
  Property C22: no probe takes the answer to another request of the program for its own. Of any 65536
  requests in a row no two have the same number, so a packet that is the reply to one ICMP request is
  the reply to no other of them, and a DNS response accepted for one query is refused for every other.
\<close>

theorem answers_not_confused:
  assumes "m < n" and "n < m + 65536"
  shows "(is_reply P dest (nth_id next_icmp_id NEXT_ICMP_ID m) seq ty packet \<longrightarrow>
            \<not> is_reply P dest' (nth_id next_icmp_id NEXT_ICMP_ID n) seq' ty' packet) \<and>
         (from_bytes D q = Inr (query_message name (nth_id next_query_id DNS_QUERY_ID m)) \<longrightarrow>
          from_bytes D q' = Inr (query_message name (nth_id next_query_id DNS_QUERY_ID n)) \<longrightarrow>
            validate_dns_response D q response = Inr () \<longrightarrow> validate_dns_response D q' response \<noteq> Inr ())"
proof -
  have "nth_id next_icmp_id NEXT_ICMP_ID m \<noteq> nth_id next_icmp_id NEXT_ICMP_ID n"
    "nth_id next_query_id DNS_QUERY_ID m \<noteq> nth_id next_query_id DNS_QUERY_ID n"
    unfolding nth_id_counts by (rule of_nat_u16_differs [OF assms])+
  then show ?thesis
    using is_reply_identifier accepted_response_id [of D q response q'] by fastforce
qed

text \<open>A library in which queries are a byte, their number, and the response answers query number 0.\<close>

definition numbered_dns :: dns_lib where
  "numbered_dns = demo_dns
     \<lparr>from_bytes := \<lambda>bs. Inr (if length bs = 1 then query_message ''bimap.test'' (of_nat (unat (hd bs)))
        else response_message demo_dns (query_message ''bimap.test'' 0))\<rparr>"

theorem answers_not_confused_witness:
  "is_reply demo_pnet 0x7F000001 0xB100 9 8 (build_icmp_echo demo_pnet 0 0xB100 9 bimap_bytes) \<and>
   \<not> is_reply demo_pnet 0x7F000001 0xB101 9 8 (build_icmp_echo demo_pnet 0 0xB100 9 bimap_bytes) \<and>
   validate_dns_response numbered_dns [0] [] = Inr () \<and> validate_dns_response numbered_dns [1] [] \<noteq> Inr ()"
proof -
  let ?packet = "build_icmp_echo demo_pnet 0 0xB100 9 bimap_bytes"
  have icmp: "is_reply demo_pnet 0x7F000001 0xB100 9 8 ?packet"
    using reply_matches_built [of "[]" demo_pnet 0 "0xB100" 9 bimap_bytes 0 "0xB100" 9 "Some bimap_bytes" 5]
    by (simp add: is_reply_def ip_header_len_def demo_pnet_def expected_reply_payload_def
        expected_type_of_def ICMP_TYPE_ECHO_REPLY_def build_icmp_echo_parts)
  have dns: "validate_dns_response numbered_dns [0] [] = Inr ()"
    by (simp add: validate_dns_response_iff numbered_dns_def response_message_def demo_dns_def)
  have "(0::nat) < 1" "(1::nat) < 0 + 65536" by simp_all
  from answers_not_confused [OF this, of demo_pnet "0x7F000001" 9 8 ?packet "0x7F000001" 9 8 numbered_dns "[0]"
      "''bimap.test''" "[1]" "[]"] icmp dns
  show ?thesis by (simp add: next_icmp_id_def next_query_id_def fetch_add_def NEXT_ICMP_ID_def DNS_QUERY_ID_def numbered_dns_def)
qed

end
