(* ===== verification/Spec2Isabelle.thy ===== *)
theory Spec2Isabelle
  imports Standard_Registry Control_Wire Interleaving Probe_Bounds Request_Ids
begin

text \<open>
  bimap maps which traffic passes between two hosts, in both directions. A client connects to a
  server over a TLS control connection, announces batches of tests (a probe, a transport, a port, a
  direction), both sides run the probes of a batch concurrently, the server reports its results, the
  client combines them with its own, prints and counts them and ends with a report.

  \<^bold>\<open>Theories and the code they model\<close>

  \<^item> \<open>Bimap_Prelude\<close>: widths (\<open>u8\<close> to \<open>usize\<close>), results with an error on the left, sequencing of fallible
    steps over a state (\<open>try_then\<close>, \<open>for_each\<close>), the standard library on strings, decimal numbers,
    durations in nanoseconds with their saturating addition, ranges of ports.
  \<^item> \<open>Probe_Types\<close>: layers, transports, directions, addresses, the context and the result of a probe
    (\<open>src/test/mod.rs\<close>, \<open>ProtocolResult\<close> of \<open>src/orchestrator.rs\<close>).
  \<^item> \<open>Control_Msg\<close>: the messages of the control connection and their JSON form (\<open>src/control/msg.rs\<close>).
  \<^item> \<open>Control_Channel\<close>: the framing by lines (\<open>src/control/mod.rs\<close>): a record of the reader's and writer's
    state, \<open>send\<close>, \<open>recv\<close> with the limit of 1 MiB and its cancellation. \<open>Message_Link\<close> is the interface
    of a reliable queue of messages as a locale; \<open>Control_Wire\<close> interprets it on two channels joined by
    a byte stream.
  \<^item> \<open>Session_Link\<close>: the control connection as the orchestrator sees it, with silences and errors;
    \<open>arrivals\<close> are the messages among the events a program consumed.
  \<^item> \<open>Probe_Registry\<close>: the table of probes (\<open>TestRegistry\<close>), the deadline of a run and the concurrent
    run of a batch (\<open>run_protocol\<close>, \<open>FuturesUnordered\<close>).
  \<^item> \<open>Server\<close>: \<open>run_server\<close>. \<open>Client_Batch\<close>: \<open>execute_batch\<close>. \<open>Client\<close>: \<open>run_client\<close>.
  \<^item> \<open>Scan_Plan\<close>: the plan of a scan as a list of batches, which the client's loops are shown to run.
  \<^item> \<open>Session_Answers\<close>: what each end does with the messages of the other, with the outcome of every
    test; \<open>Session\<close>: client and server together.
  \<^item> \<open>Link_View\<close>: a locale for comparing a program on two connections whose events are related;
    \<open>Session_Steps\<close>: \<open>run_server\<close> and \<open>run_client\<close> as sequences of steps; \<open>Session_View\<close>: both programs
    behave alike on related connections. Two interpretations: \<open>Causality\<close> (one connection has heard
    more: what either side says grows with what it hears, and with nothing else) and \<open>Timing\<close> (the same
    events without their delays). \<open>Scan_Outcome\<close>: what a session computes, as a function of the two
    sides' environments, however slow the connection is, and what the client does when it is too slow.
  \<^item> \<open>Dialogue\<close>: two parties that exchange messages at any speed, as a step relation, with their
    contract as a locale; \<open>Interleaving\<close> interprets it on client and server and shows that no order of
    deliveries gets a session stuck.
  \<^item> \<open>Result_Merge\<close>, \<open>Result_Report\<close>, \<open>Output_Format\<close>, \<open>Terminal_Output\<close>: merging of results to port ranges,
    the summary and the JSON report, the lists of ports, the texts printed (\<open>src/output.rs\<close>).
  \<^item> \<open>Cli\<close>: port ranges of the command line (\<open>src/cli.rs\<close>). \<open>Tls_Pin\<close>: the certificate pin
    (\<open>src/control/tls.rs\<close>). \<open>Main_Program\<close>: the two commands and their exit codes (\<open>src/main.rs\<close>).
  \<^item> \<open>Probe_Io\<close>: the calls of the probes to the operating system and the network, and their answers
    (\<open>net\<close>), with the time each call takes.
  \<^item> \<open>Exchange\<close>, \<open>Port_Probes\<close>, \<open>Tls_Probe\<close>: the probes that exchange a payload
    (\<open>src/test/exchange.rs\<close>, \<open>port.rs\<close>, \<open>tls_test.rs\<close>). \<open>Dns_Packet\<close>, \<open>Dns_Probe\<close>: \<open>src/packet/dns.rs\<close>,
    \<open>src/test/dns.rs\<close>. \<open>Icmp_Packet\<close>, \<open>Icmp_Probe\<close>: \<open>src/packet/icmp.rs\<close>, \<open>src/test/icmp.rs\<close>.
  \<^item> \<open>Request_Ids\<close>: the counters that number requests. \<open>Probe_Bounds\<close>: every run of a probe ends.
  \<^item> \<open>Standard_Registry\<close>: \<open>build_registry\<close>, and what needs the probes and the rest together.

  \<^bold>\<open>State and operations\<close>

  A mutable object of the code is a record (\<open>control_channel\<close>, \<open>link\<close>, \<open>server_state\<close>, \<open>client_state\<close>,
  \<open>report_state\<close>, \<open>batch_progress\<close>) that each operation returns updated, also when it fails. A
  \<open>Result\<close> is a sum with the error on the left; \<open>?\<close> is \<open>try_then\<close>; a panic is \<open>None\<close>. Loops over
  collections are \<open>for_each\<close>; the loops that read the connection recurse on the number of events that
  are still to arrive, so no fuel is needed: every reading loop consumes at least one event or ends.

  A run of a probe is a function of the answers to its calls. It threads the list of the calls made so
  far, and each answer may depend on that list, so a lemma for all \<open>net\<close> holds for every behaviour of
  the network, and a lemma about the list says what the probe did (what it sent, which sockets it
  opened and closed). Retries recurse over the list of attempts (20 for a connection, 5 for a
  datagram, as in the code). The loop that waits for an ICMP reply ends because the clock advances
  over every call, by a nanosecond at least: that is the only assumption on time.

  \<^bold>\<open>What the lemmas show\<close>

  Messages survive their JSON form, lines survive any cutting into reads, the buffer is bounded.
  The server runs and reports each request it read once, in the opposite direction, on the configured
  address, within the batch limit. However a session ends, the client sent the planned batches or a first
  part of them, each within the limit and in one direction; it received one report for each test of a
  batch, a test passes only if its own probe passed and this report has no error, the counters agree with
  the results. Client and server complete a session together, whatever the probes meet;
  what it computes is given by \<open>scan_outcomes\<close>: each planned test is run once at either end, and the client
  records, prints and counts both results combined. Delays change nothing of it, short of the timeout
  of the client for a report. The client program exits with 0 exactly when every test passed at both
  ends. Merging loses no result.

  For the probes: the two ends of a TCP exchange detect every change of the payload, and pass when
  there is none, but the report of payload differences shows a change towards the server only if the path
  itself forges the echo; the two ends of the DNS exchange over TCP agree; a UDP or ICMP probe passes only on a
  packet from the host it asked (the DNS probe over UDP does not check that); no answer is taken for that
  to another request; the ICMP scan closes its sockets and receives under an accepted timeout only; it cannot
  pass. Every probe makes a bounded number
  of calls.

  \<^bold>\<open>Not modelled\<close>

  Parsing of the command line by clap, logging (the filter and the formatter \<open>init_tracing\<close> sets up, the
  \<open>debug!\<close> and \<open>trace!\<close> lines), certificate generation and the TLS handshake (rcgen, rustls), the JSON text of serde (a
  parameter with its laws), colours (parameters), name resolution and sockets (parameters), the wire
  format of DNS (hickory-proto) and of IP headers (pnet), both parameters. The counters that number DNS
  queries and ICMP requests are shared by all runs; what a run reads from them is an answer of its
  environment (\<open>FetchId\<close>), \<open>Request_Ids\<close> says which values the counters give. A deadline is compared with the time of the whole run, so the calls a cancelled DNS
  run would still have made are in its list of calls.
\<close>

end
